(* ===== verification/Prelude.thy ===== *)
theory Prelude
  imports Main "HOL-Library.Word"
begin

unbundle bit_operations_syntax

text \<open>
  Shared vocabulary of the development: the machine integers and byte strings of
  \<^verbatim>\<open>src/utils/platform/basictypes.hpp\<close> and \<^verbatim>\<open>src/utils/cvector.hpp\<close>, faults as
  values, the raw memory image of an integer, and the generic list, word and
  option lemmas that the component theories use.
\<close>

section \<open>Types\<close>

type_synonym byte = "8 word"
type_synonym bytes = "byte list"
type_synonym u16 = "16 word"
type_synonym u32 = "32 word"
type_synonym u64 = "64 word"

text \<open>
  What a C++ call can do besides returning: read or write outside an object, follow a null
  pointer, use an indeterminate value, fail an \<^verbatim>\<open>assert\<close>, or throw.
\<close>

datatype fault = OutOfRange | NullPointer | Indeterminate | AssertionFailed | Thrown string

type_synonym 'a run = "fault + 'a"

definition run_bind :: "'a run \<Rightarrow> ('a \<Rightarrow> 'b run) \<Rightarrow> 'b run" where
  "run_bind m f = (case m of Inl e \<Rightarrow> Inl e | Inr x \<Rightarrow> f x)"

lemma run_bind_Inr [simp]: "run_bind (Inr x) f = f x"
  by (simp add: run_bind_def)

lemma run_bind_Inl [simp]: "run_bind (Inl e) f = Inl e"
  by (simp add: run_bind_def)

lemma run_bind_eq_Inr_iff: "run_bind m f = Inr y \<longleftrightarrow> (\<exists>x. m = Inr x \<and> f x = Inr y)"
  by (cases m) auto

lemma run_bind_eq_Inl_iff:
  "run_bind m f = Inl e \<longleftrightarrow> m = Inl e \<or> (\<exists>x. m = Inr x \<and> f x = Inl e)"
  by (cases m) auto

named_theorems wire_simps \<open>lengths and fields of wire formats\<close>
named_theorems step_simps \<open>unfolding equations of the operations of the components\<close>

section \<open>Strings and bytes\<close>

text \<open>
  \<^verbatim>\<open>std::string\<close> is a HOL \<open>string\<close>; \<^verbatim>\<open>San2::Utils::bytes\<close> is a \<open>byte list\<close>.
  The conversions are those of \<^verbatim>\<open>CVector::operator=(const std::string&)\<close>,
  \<^verbatim>\<open>operator+=(const std::string&)\<close> and \<^verbatim>\<open>bytes2string\<close>: one \<open>char\<close> per byte.
\<close>

definition byte_of_char :: "char \<Rightarrow> byte" where
  "byte_of_char c = word_of_nat (of_char c)"

definition char_of_byte :: "byte \<Rightarrow> char" where
  "char_of_byte b = char_of (unat b)"

definition string2bytes :: "string \<Rightarrow> bytes" where
  "string2bytes s = map byte_of_char s"

definition bytes2string :: "bytes \<Rightarrow> string" where
  "bytes2string b = map char_of_byte b"

lemma byte_of_char_of_byte [simp]: "byte_of_char (char_of_byte b) = b"
proof -
  have "unat b < 256" using unsigned_less [of b] by simp
  then show ?thesis by (simp add: byte_of_char_def char_of_byte_def)
qed

lemma char_of_byte_of_char [simp]: "char_of_byte (byte_of_char c) = c"
proof -
  have "(of_char c :: nat) < 256" by simp
  then show ?thesis
    by (simp add: byte_of_char_def char_of_byte_def unsigned_of_nat take_bit_eq_mod)
qed

lemma string2bytes_bytes2string [simp]: "string2bytes (bytes2string b) = b"
  by (simp add: string2bytes_def bytes2string_def comp_def)

lemma bytes2string_string2bytes [simp]: "bytes2string (string2bytes s) = s"
  by (simp add: string2bytes_def bytes2string_def comp_def)

lemma length_string2bytes [simp]: "length (string2bytes s) = length s"
  by (simp add: string2bytes_def)

lemma length_bytes2string [simp]: "length (bytes2string b) = length b"
  by (simp add: bytes2string_def)

lemma string2bytes_inject [simp]: "string2bytes s = string2bytes t \<longleftrightarrow> s = t"
  by (metis bytes2string_string2bytes)

section \<open>The memory image of an integer\<close>

text \<open>
  \<^verbatim>\<open>memcpy\<close> between an integer and a byte buffer copies the host's representation. The
  host's byte order is a parameter (the source asks for it at run time with
  \<^verbatim>\<open>san_byte_order()\<close>).
\<close>

datatype byte_order = SAN_BIG_ENDIAN | SAN_LITTLE_ENDIAN

primrec le_bytes :: "nat \<Rightarrow> 'a::len word \<Rightarrow> bytes" where
  "le_bytes 0 w = []"
| "le_bytes (Suc n) w = ucast w # le_bytes n (drop_bit 8 w)"

primrec le_word :: "bytes \<Rightarrow> 'a::len word" where
  "le_word [] = 0"
| "le_word (b # bs) = ucast b OR push_bit 8 (le_word bs)"

definition mem_store :: "byte_order \<Rightarrow> nat \<Rightarrow> 'a::len word \<Rightarrow> bytes" where
  "mem_store bo n w = (if bo = SAN_LITTLE_ENDIAN then le_bytes n w else rev (le_bytes n w))"

definition mem_load :: "byte_order \<Rightarrow> bytes \<Rightarrow> 'a::len word" where
  "mem_load bo bs = (if bo = SAN_LITTLE_ENDIAN then le_word bs else le_word (rev bs))"

lemma length_le_bytes [simp]: "length (le_bytes n w) = n"
  by (induction n arbitrary: w) simp_all

lemma length_mem_store [simp]: "length (mem_store bo n w) = n"
  by (simp add: mem_store_def)

lemma bit_le_word:
  "bit (le_word bs :: 'a::len word) i \<longleftrightarrow>
     i < LENGTH('a) \<and> i div 8 < length bs \<and> bit (bs ! (i div 8)) (i mod 8)"
proof (induction bs arbitrary: i)
  case Nil
  then show ?case by simp
next
  case (Cons b bs)
  show ?case
  proof (cases "i < 8")
    case True
    then show ?thesis by (auto simp: bit_or_iff bit_push_bit_iff bit_ucast_iff dest: bit_imp_le_length)
  next
    case False
    then have "\<not> bit b i" by (auto dest: bit_imp_le_length)
    moreover have "i div 8 = Suc ((i - 8) div 8)" and "i mod 8 = (i - 8) mod 8"
      using False by (simp_all add: le_div_geq le_mod_geq)
    ultimately show ?thesis
      using False Cons [of "i - 8"]
      by (auto simp: bit_or_iff bit_push_bit_iff bit_ucast_iff)
  qed
qed

lemma bit_le_bytes_nth:
  "k < n \<Longrightarrow> bit (le_bytes n (w :: 'a::len word) ! k) j \<longleftrightarrow> j < 8 \<and> bit w (8 * k + j)"
proof (induction n arbitrary: k w)
  case 0
  then show ?case by simp
next
  case (Suc n)
  show ?case
  proof (cases k)
    case 0
    then show ?thesis by (auto simp: bit_ucast_iff dest: bit_imp_le_length)
  next
    case (Suc k')
    with Suc.prems Suc.IH [of k' "drop_bit 8 w"] show ?thesis
      by (simp add: bit_drop_bit_eq add.assoc)
  qed
qed

lemma le_word_le_bytes:
  "LENGTH('a) \<le> 8 * n \<Longrightarrow> le_word (le_bytes n w) = (w :: 'a::len word)"
  by (rule bit_word_eqI) (auto simp: bit_le_word bit_le_bytes_nth mult.commute)

lemma le_bytes_le_word:
  assumes "length bs = n" and "8 * n \<le> LENGTH('a)"
  shows "le_bytes n (le_word bs :: 'a::len word) = bs"
proof (rule nth_equalityI)
  show "length (le_bytes n (le_word bs :: 'a word)) = length bs" using assms by simp
next
  fix k
  assume "k < length (le_bytes n (le_word bs :: 'a word))"
  then have k: "k < n" by simp
  show "le_bytes n (le_word bs :: 'a word) ! k = bs ! k"
  proof (rule bit_word_eqI)
    fix j :: nat
    assume "j < LENGTH(8)"
    then have j: "j < 8" by simp
    then have "8 * k + j < LENGTH('a)" using k assms(2) by linarith
    then show "bit (le_bytes n (le_word bs :: 'a word) ! k) j = bit (bs ! k) j"
      using j k assms(1) by (simp add: bit_le_bytes_nth bit_le_word)
  qed
qed

lemma mem_load_store:
  "LENGTH('a) \<le> 8 * n \<Longrightarrow> mem_load bo (mem_store bo n w) = (w :: 'a::len word)"
  by (simp add: mem_load_def mem_store_def le_word_le_bytes)

lemma mem_store_load:
  "length bs = n \<Longrightarrow> 8 * n \<le> LENGTH('a) \<Longrightarrow> mem_store bo n (mem_load bo bs :: 'a::len word) = bs"
  by (simp add: mem_load_def mem_store_def le_bytes_le_word)

lemma le_bytes_numeral:
  "le_bytes (numeral n) w = ucast w # le_bytes (pred_numeral n) (drop_bit 8 w)"
  by (simp add: numeral_eq_Suc)

section \<open>Words bit by bit\<close>

text \<open>
  Two words of a given width are equal when their bits agree, written out as a conjunction:
  the byte swaps are decided by evaluating each bit.
\<close>

lemma bit_word_beyond: "LENGTH('a) \<le> n \<Longrightarrow> \<not> bit (w :: 'a::len word) n"
  by (auto dest: bit_imp_le_length)

lemma word_eq_by_bits:
  "list_all (\<lambda>n. bit v n = bit w n) [0..<LENGTH('a)] \<Longrightarrow> v = (w :: 'a::len word)"
  by (rule bit_word_eqI) (simp add: list_all_iff)

lemma upt_numeral_unroll:
  "[0..<numeral n] = 0 # [Suc 0..<numeral n]"
  "[Suc 0..<numeral n] = (if Suc 0 < numeral n then Suc 0 # [2..<numeral n] else [])"
  by (simp_all add: upt_conv_Cons numeral_2_eq_2)

lemmas word8_eqI = word_eq_by_bits [where ?'a = 8, simplified, simplified upt_numeral_unroll, simplified]
lemmas word16_eqI = word_eq_by_bits [where ?'a = 16, simplified, simplified upt_numeral_unroll, simplified]
lemmas word32_eqI = word_eq_by_bits [where ?'a = 32, simplified, simplified upt_numeral_unroll, simplified]
lemmas word64_eqI = word_eq_by_bits [where ?'a = 64, simplified, simplified upt_numeral_unroll, simplified]

section \<open>Lists\<close>

definition resize :: "nat \<Rightarrow> 'a \<Rightarrow> 'a list \<Rightarrow> 'a list" where
  \<comment> \<open>\<^verbatim>\<open>std::vector::resize(n, v)\<close>: cut, or pad at the end with \<^verbatim>\<open>v\<close>.\<close>
  "resize n v xs = take n xs @ replicate (n - length xs) v"

lemma length_resize [simp]: "length (resize n v xs) = n"
  by (simp add: resize_def)

lemma resize_same [simp]: "resize (length xs) v xs = xs"
  by (simp add: resize_def)

lemma resize_cut: "n \<le> length xs \<Longrightarrow> resize n v xs = take n xs"
  by (simp add: resize_def)

text \<open>\<^verbatim>\<open>std::copy(src.begin(), src.end(), dst.begin() + at)\<close> into a large enough vector.\<close>

definition copy_at :: "nat \<Rightarrow> 'a list \<Rightarrow> 'a list \<Rightarrow> 'a list" where
  "copy_at at src dst = take at dst @ src @ drop (at + length src) dst"

lemma length_copy_at [simp]:
  "at + length src \<le> length dst \<Longrightarrow> length (copy_at at src dst) = length dst"
  by (simp add: copy_at_def)

lemma copy_at_all: "length src = length dst \<Longrightarrow> copy_at 0 src dst = src"
  by (simp add: copy_at_def)

lemma take_takeWhile_neq [simp]:
  "take (length (takeWhile P xs)) xs = takeWhile P xs"
  by (metis takeWhile_eq_take)

end
