(* ===== verification/DataPack.thy ===== *)
theory DataPack
  imports Prelude
begin

text \<open>
  Integers on the wire: \<^verbatim>\<open>src/utils/platform/basictypes.hpp\<close> (byte swapping and the
  host/network conversions), \<^verbatim>\<open>src/utils/cdatapack.cpp\<close> (\<^verbatim>\<open>CDataPack\<close>) and
  \<^verbatim>\<open>src/utils/flag.hpp\<close>. The lemmas show that packing does not depend on the byte
  order of the host: it always yields the big endian image, and unpacking inverts it.
  A signed \<^verbatim>\<open>SAN_INTw\<close> is the word with the same two's complement bits (\<open>sint\<close> reads it).
\<close>

section \<open>Byte swaps\<close>

definition san_swap_uint16 :: "u16 \<Rightarrow> u16" where
  "san_swap_uint16 val = push_bit 8 val OR drop_bit 8 val"

definition san_swap_int16 :: "u16 \<Rightarrow> u16" where
  "san_swap_int16 val = push_bit 8 val OR (signed_drop_bit 8 val AND 0xFF)"

definition san_swap_uint32 :: "u32 \<Rightarrow> u32" where
  "san_swap_uint32 val =
     (let val = (push_bit 8 val AND 0xFF00FF00) OR (drop_bit 8 val AND 0xFF00FF)
      in push_bit 16 val OR drop_bit 16 val)"

definition san_swap_int32 :: "u32 \<Rightarrow> u32" where
  "san_swap_int32 val =
     (let val = (push_bit 8 val AND 0xFF00FF00) OR (signed_drop_bit 8 val AND 0xFF00FF)
      in push_bit 16 val OR (signed_drop_bit 16 val AND 0xFFFF))"

definition san_swap_int64 :: "u64 \<Rightarrow> u64" where
  "san_swap_int64 val =
     (let val = (push_bit 8 val AND 0xFF00FF00FF00FF00) OR (signed_drop_bit 8 val AND 0x00FF00FF00FF00FF);
          val = (push_bit 16 val AND 0xFFFF0000FFFF0000) OR (signed_drop_bit 16 val AND 0x0000FFFF0000FFFF)
      in push_bit 32 val OR (signed_drop_bit 32 val AND 0xFFFFFFFF))"

definition san_swap_uint64 :: "u64 \<Rightarrow> u64" where
  "san_swap_uint64 val =
     (let val = (push_bit 8 val AND 0xFF00FF00FF00FF00) OR (drop_bit 8 val AND 0x00FF00FF00FF00FF);
          val = (push_bit 16 val AND 0xFFFF0000FFFF0000) OR (drop_bit 16 val AND 0x0000FFFF0000FFFF)
      in push_bit 32 val OR drop_bit 32 val)"

section \<open>Host and network order\<close>

text \<open>
  \<^verbatim>\<open>san_byte_order()\<close> looks at the first byte of the stored \<^verbatim>\<open>short\<close> \<open>1\<close>; the host is
  the parameter \<open>bo\<close> that fixes how a store lays out bytes.
\<close>

definition san_byte_order :: "byte_order \<Rightarrow> byte_order" where
  "san_byte_order bo =
     (if hd (mem_store bo 2 (1 :: u16)) \<noteq> 0 then SAN_LITTLE_ENDIAN else SAN_BIG_ENDIAN)"

definition san_u_htobe16 :: "byte_order \<Rightarrow> u16 \<Rightarrow> u16" where
  "san_u_htobe16 bo val = (if san_byte_order bo = SAN_LITTLE_ENDIAN then san_swap_uint16 val else val)"

definition san_u_htobe32 :: "byte_order \<Rightarrow> u32 \<Rightarrow> u32" where
  "san_u_htobe32 bo val = (if san_byte_order bo = SAN_LITTLE_ENDIAN then san_swap_uint32 val else val)"

definition san_u_htobe64 :: "byte_order \<Rightarrow> u64 \<Rightarrow> u64" where
  "san_u_htobe64 bo val = (if san_byte_order bo = SAN_LITTLE_ENDIAN then san_swap_uint64 val else val)"

definition san_u_be16toh :: "byte_order \<Rightarrow> u16 \<Rightarrow> u16" where
  "san_u_be16toh bo val = (if san_byte_order bo = SAN_LITTLE_ENDIAN then san_swap_uint16 val else val)"

definition san_u_be32toh :: "byte_order \<Rightarrow> u32 \<Rightarrow> u32" where
  "san_u_be32toh bo val = (if san_byte_order bo = SAN_LITTLE_ENDIAN then san_swap_uint32 val else val)"

definition san_u_be64toh :: "byte_order \<Rightarrow> u64 \<Rightarrow> u64" where
  "san_u_be64toh bo val = (if san_byte_order bo = SAN_LITTLE_ENDIAN then san_swap_uint64 val else val)"

definition san_s_htobe16 :: "byte_order \<Rightarrow> u16 \<Rightarrow> u16" where
  "san_s_htobe16 bo val = (if san_byte_order bo = SAN_LITTLE_ENDIAN then san_swap_int16 val else val)"

definition san_s_htobe32 :: "byte_order \<Rightarrow> u32 \<Rightarrow> u32" where
  "san_s_htobe32 bo val = (if san_byte_order bo = SAN_LITTLE_ENDIAN then san_swap_int32 val else val)"

definition san_s_htobe64 :: "byte_order \<Rightarrow> u64 \<Rightarrow> u64" where
  "san_s_htobe64 bo val = (if san_byte_order bo = SAN_LITTLE_ENDIAN then san_swap_int64 val else val)"

text \<open>The signed readers are declared with an unsigned result of the same width.\<close>

definition san_s_be16toh :: "byte_order \<Rightarrow> u16 \<Rightarrow> u16" where
  "san_s_be16toh bo val = (if san_byte_order bo = SAN_LITTLE_ENDIAN then san_swap_int16 val else val)"

definition san_s_be32toh :: "byte_order \<Rightarrow> u32 \<Rightarrow> u32" where
  "san_s_be32toh bo val = (if san_byte_order bo = SAN_LITTLE_ENDIAN then san_swap_int32 val else val)"

definition san_s_be64toh :: "byte_order \<Rightarrow> u64 \<Rightarrow> u64" where
  "san_s_be64toh bo val = (if san_byte_order bo = SAN_LITTLE_ENDIAN then san_swap_int64 val else val)"

section \<open>CDataPack\<close>

text \<open>The overloads of \<^verbatim>\<open>CDataPack::pack\<close>: convert, \<^verbatim>\<open>memcpy\<close>, append.\<close>

definition pack_int16 :: "byte_order \<Rightarrow> u16 \<Rightarrow> bytes" where
  "pack_int16 bo num = mem_store bo 2 (san_s_htobe16 bo num)"

definition pack_int32 :: "byte_order \<Rightarrow> u32 \<Rightarrow> bytes" where
  "pack_int32 bo num = mem_store bo 4 (san_s_htobe32 bo num)"

definition pack_int64 :: "byte_order \<Rightarrow> u64 \<Rightarrow> bytes" where
  "pack_int64 bo num = mem_store bo 8 (san_s_htobe64 bo num)"

definition pack_uint16 :: "byte_order \<Rightarrow> u16 \<Rightarrow> bytes" where
  "pack_uint16 bo num = mem_store bo 2 (san_u_htobe16 bo num)"

definition pack_uint32 :: "byte_order \<Rightarrow> u32 \<Rightarrow> bytes" where
  "pack_uint32 bo num = mem_store bo 4 (san_u_htobe32 bo num)"

definition pack_uint64 :: "byte_order \<Rightarrow> u64 \<Rightarrow> bytes" where
  "pack_uint64 bo num = mem_store bo 8 (san_u_htobe64 bo num)"

text \<open>
  The readers return 0 when the buffer is too short for the position (\<^verbatim>\<open>position\<close> is an
  \<^verbatim>\<open>unsigned int\<close>; the sum is computed in \<^verbatim>\<open>size_t\<close> and does not wrap).
\<close>

definition unpackInt16 :: "byte_order \<Rightarrow> bytes \<Rightarrow> nat \<Rightarrow> u16" where
  "unpackInt16 bo data position =
     (if length data < position + 2 then 0
      else san_s_be16toh bo (mem_load bo (take 2 (drop position data))))"

definition unpackInt32 :: "byte_order \<Rightarrow> bytes \<Rightarrow> nat \<Rightarrow> u32" where
  "unpackInt32 bo data position =
     (if length data < position + 4 then 0
      else san_s_be32toh bo (mem_load bo (take 4 (drop position data))))"

definition unpackInt64 :: "byte_order \<Rightarrow> bytes \<Rightarrow> nat \<Rightarrow> u64" where
  "unpackInt64 bo data position =
     (if length data < position + 8 then 0
      else san_s_be64toh bo (mem_load bo (take 8 (drop position data))))"

definition unpackUint8 :: "byte_order \<Rightarrow> bytes \<Rightarrow> nat \<Rightarrow> byte" where
  "unpackUint8 bo data position =
     (if length data < position + 1 then 0 else mem_load bo (take 1 (drop position data)))"

definition unpackUint16 :: "byte_order \<Rightarrow> bytes \<Rightarrow> nat \<Rightarrow> u16" where
  "unpackUint16 bo data position =
     (if length data < position + 2 then 0
      else san_u_be16toh bo (mem_load bo (take 2 (drop position data))))"

definition unpackUint32 :: "byte_order \<Rightarrow> bytes \<Rightarrow> nat \<Rightarrow> u32" where
  "unpackUint32 bo data position =
     (if length data < position + 4 then 0
      else san_u_be32toh bo (mem_load bo (take 4 (drop position data))))"

definition unpackUint64 :: "byte_order \<Rightarrow> bytes \<Rightarrow> nat \<Rightarrow> u64" where
  "unpackUint64 bo data position =
     (if length data < position + 8 then 0
      else san_u_be64toh bo (mem_load bo (take 8 (drop position data))))"

section \<open>Flags\<close>

text \<open>
  \<^verbatim>\<open>1 << position\<close> is an \<^verbatim>\<open>int\<close> shift whose result is cut to the \<^verbatim>\<open>unsigned char\<close> on the
  compound assignment.
\<close>

definition setFlag :: "byte \<Rightarrow> nat \<Rightarrow> bool \<Rightarrow> byte" where
  "setFlag flags position v =
     (if v then flags OR push_bit position 1 else flags AND NOT (push_bit position 1))"

definition getFlag :: "byte \<Rightarrow> nat \<Rightarrow> bool" where
  "getFlag flags position \<longleftrightarrow> flags AND push_bit position 1 \<noteq> 0"

definition toggleFlag :: "byte \<Rightarrow> nat \<Rightarrow> byte" where
  "toggleFlag flags position = flags XOR push_bit position 1"

lemma getFlag_bit: "getFlag f p \<longleftrightarrow> bit f p"
  by (simp add: getFlag_def and_exp_eq_0_iff_not_bit flip: push_bit_eq_mult)

lemma bit_setFlag: "bit (setFlag f p v) q \<longleftrightarrow> (if q = p then v \<and> p < 8 else bit f q)"
  by (auto simp: setFlag_def bit_simps dest: bit_imp_le_length)

lemma getFlag_setFlag_same: "p < 8 \<Longrightarrow> getFlag (setFlag f p v) p = v"
  by (simp add: getFlag_bit bit_setFlag)

lemma getFlag_setFlag_other: "p \<noteq> q \<Longrightarrow> getFlag (setFlag f p v) q = getFlag f q"
  by (simp add: getFlag_bit bit_setFlag)

lemma getFlag_toggleFlag:
  "p < 8 \<Longrightarrow> getFlag (toggleFlag f p) q = (if q = p then \<not> getFlag f q else getFlag f q)"
  by (auto simp: getFlag_bit toggleFlag_def bit_simps)

section \<open>The network image\<close>

text \<open>The big endian image of a word: what the wire carries, whatever the host.\<close>

definition be_bytes :: "nat \<Rightarrow> 'a::len word \<Rightarrow> bytes" where
  "be_bytes n w = rev (le_bytes n w)"

definition be_word :: "bytes \<Rightarrow> 'a::len word" where
  "be_word bs = le_word (rev bs)"

lemma length_be_bytes [simp, wire_simps]: "length (be_bytes n w) = n"
  by (simp add: be_bytes_def)

lemma be_word_be_bytes: "LENGTH('a) \<le> 8 * n \<Longrightarrow> be_word (be_bytes n w) = (w :: 'a::len word)"
  by (simp add: be_word_def be_bytes_def le_word_le_bytes)

lemma be_bytes_be_word:
  "length bs = n \<Longrightarrow> 8 * n \<le> LENGTH('a) \<Longrightarrow> be_bytes n (be_word bs :: 'a::len word) = bs"
  by (simp add: be_word_def be_bytes_def le_bytes_le_word)

lemma san_byte_order_host [simp]: "san_byte_order bo = bo"
  by (cases bo) (simp_all add: san_byte_order_def mem_store_def numeral_2_eq_2)

lemma swap_int16: "san_swap_int16 v = san_swap_uint16 v"
  by (rule word16_eqI)
    (simp add: san_swap_int16_def san_swap_uint16_def bit_simps bit_word_beyond)

lemma swap_int32: "san_swap_int32 v = san_swap_uint32 v"
  by (rule word32_eqI)
    (simp add: san_swap_int32_def san_swap_uint32_def Let_def bit_simps bit_word_beyond)

lemma swap_int64: "san_swap_int64 v = san_swap_uint64 v"
  by (rule word64_eqI)
    (simp add: san_swap_int64_def san_swap_uint64_def Let_def bit_simps bit_word_beyond)

lemma le_bytes_swap16: "le_bytes 2 (san_swap_uint16 v) = rev (le_bytes 2 v)"
  by (simp add: le_bytes_numeral san_swap_uint16_def, intro conjI word8_eqI,
      simp_all add: bit_simps bit_word_beyond)

lemma le_bytes_swap32: "le_bytes 4 (san_swap_uint32 v) = rev (le_bytes 4 v)"
  by (simp add: le_bytes_numeral san_swap_uint32_def, intro conjI word8_eqI,
      simp_all add: bit_simps bit_word_beyond)

lemma le_bytes_swap64: "le_bytes 8 (san_swap_uint64 v) = rev (le_bytes 8 v)"
  by (simp add: le_bytes_numeral san_swap_uint64_def, intro conjI word8_eqI,
      simp_all add: bit_simps bit_word_beyond)

text \<open>A swap that reverses the stored bytes turns a little endian load into a big endian one.\<close>

lemma swap_le_word:
  fixes swap :: "'a::len word \<Rightarrow> 'a word"
  assumes "\<And>v. le_bytes n (swap v) = rev (le_bytes n v)" and "LENGTH('a) = 8 * n"
    and "length bs = n"
  shows "swap (le_word bs) = be_word bs"
proof -
  have "le_bytes n (swap (le_word bs)) = rev bs"
    using assms by (simp add: le_bytes_le_word)
  then have "le_word (le_bytes n (swap (le_word bs))) = (le_word (rev bs) :: 'a word)" by simp
  then show ?thesis using assms(2) by (simp add: le_word_le_bytes be_word_def)
qed

lemmas swap_le_word16 = swap_le_word [OF le_bytes_swap16, simplified]
lemmas swap_le_word32 = swap_le_word [OF le_bytes_swap32, simplified]
lemmas swap_le_word64 = swap_le_word [OF le_bytes_swap64, simplified]

lemma pack_network [wire_simps]:
  "pack_int16 bo n = be_bytes 2 n" "pack_uint16 bo n = be_bytes 2 n"
  "pack_int32 bo m = be_bytes 4 m" "pack_uint32 bo m = be_bytes 4 m"
  "pack_int64 bo k = be_bytes 8 k" "pack_uint64 bo k = be_bytes 8 k"
  by (simp_all add: pack_int16_def pack_uint16_def pack_int32_def pack_uint32_def
      pack_int64_def pack_uint64_def mem_store_def be_bytes_def
      san_s_htobe16_def san_u_htobe16_def san_s_htobe32_def san_u_htobe32_def
      san_s_htobe64_def san_u_htobe64_def
      swap_int16 swap_int32 swap_int64 le_bytes_swap16 le_bytes_swap32 le_bytes_swap64)

lemma unpack_network16 [wire_simps]:
  "unpackUint16 bo data p = (if length data < p + 2 then 0 else be_word (take 2 (drop p data)))"
  "unpackInt16 bo data p = (if length data < p + 2 then 0 else be_word (take 2 (drop p data)))"
  by (auto simp: unpackUint16_def unpackInt16_def mem_load_def be_word_def [symmetric]
      san_u_be16toh_def san_s_be16toh_def swap_int16 swap_le_word16)

lemma unpack_network32 [wire_simps]:
  "unpackUint32 bo data p = (if length data < p + 4 then 0 else be_word (take 4 (drop p data)))"
  "unpackInt32 bo data p = (if length data < p + 4 then 0 else be_word (take 4 (drop p data)))"
  by (auto simp: unpackUint32_def unpackInt32_def mem_load_def be_word_def [symmetric]
      san_u_be32toh_def san_s_be32toh_def swap_int32 swap_le_word32)

lemma unpack_network64 [wire_simps]:
  "unpackUint64 bo data p = (if length data < p + 8 then 0 else be_word (take 8 (drop p data)))"
  "unpackInt64 bo data p = (if length data < p + 8 then 0 else be_word (take 8 (drop p data)))"
  by (auto simp: unpackUint64_def unpackInt64_def mem_load_def be_word_def [symmetric]
      san_u_be64toh_def san_s_be64toh_def swap_int64 swap_le_word64)

section \<open>The interface of an integer codec\<close>

text \<open>
  What the wire formats rely on: a fixed width, reading back at any offset what was packed
  there, and 0 for a read that does not fit. \<open>enc\<close> and \<open>dec\<close> may run on different hosts.
\<close>

locale int_codec =
  fixes enc :: "'a::zero \<Rightarrow> bytes" and dec :: "bytes \<Rightarrow> nat \<Rightarrow> 'a" and width :: nat
  assumes enc_width: "length (enc x) = width"
    and dec_enc: "dec (pre @ enc x @ post) (length pre) = x"
    and dec_short: "length data < p + width \<Longrightarrow> dec data p = 0"
begin

lemma dec_front: "dec (enc x @ post) 0 = x"
  using dec_enc [of "[]"] by simp

lemma dec_only: "dec (enc x) 0 = x"
  using dec_enc [of "[]" x "[]"] by simp

lemma enc_inject: "enc x = enc y \<longleftrightarrow> x = y"
  by (metis dec_only)

lemma dec_after: "length pre = p \<Longrightarrow> dec (pre @ enc x @ post) p = x"
  using dec_enc by blast

lemma drop_enc: "drop width (enc x @ post) = post"
  by (simp add: enc_width)

lemma dec_two:
  assumes "length (enc x) = p" shows "dec (enc x @ enc y @ post) p = y"
  using dec_after assms by blast

end

interpretation cu16: int_codec "pack_uint16 bo" "unpackUint16 bo'" 2 for bo bo'
  by unfold_locales (simp_all add: wire_simps be_word_be_bytes)

interpretation cu32: int_codec "pack_uint32 bo" "unpackUint32 bo'" 4 for bo bo'
  by unfold_locales (simp_all add: wire_simps be_word_be_bytes)

interpretation cu64: int_codec "pack_uint64 bo" "unpackUint64 bo'" 8 for bo bo'
  by unfold_locales (simp_all add: wire_simps be_word_be_bytes)

interpretation ci16: int_codec "pack_int16 bo" "unpackInt16 bo'" 2 for bo bo'
  by unfold_locales (simp_all add: wire_simps be_word_be_bytes)

interpretation ci32: int_codec "pack_int32 bo" "unpackInt32 bo'" 4 for bo bo'
  by unfold_locales (simp_all add: wire_simps be_word_be_bytes)

interpretation ci64: int_codec "pack_int64 bo" "unpackInt64 bo'" 8 for bo bo'
  by unfold_locales (simp_all add: wire_simps be_word_be_bytes)

end
