(* ===== verification/Stream.thy ===== *)
theory Stream
  imports DataPack
begin

text \<open>
  Message framing over a byte stream: \<^verbatim>\<open>src/stream/cistreamrw.cpp\<close>,
  \<^verbatim>\<open>src/stream/clenvalueseparator.cpp\<close> and \<^verbatim>\<open>src/comm/streamrpcchannel.cpp\<close>.
  The virtual \<^verbatim>\<open>readSomeAppend\<close> and \<^verbatim>\<open>writeSome\<close> are arguments; the locales
  \<open>byte_source\<close> and \<open>byte_sink\<close> state what a stream has to promise, and
  \<open>Sockets\<close> proves it for the pipe and the TCP streams.
\<close>

section \<open>Calls that may not return\<close>

text \<open>\<open>None\<close> is a call that never returns; a fault is a value, see \<open>Prelude\<close>.\<close>

type_synonym 'a io = "'a run option"

definition io_bind :: "'a io \<Rightarrow> ('a \<Rightarrow> 'b io) \<Rightarrow> 'b io" where
  "io_bind m f = (case m of None \<Rightarrow> None | Some r \<Rightarrow> (case r of Inl e \<Rightarrow> Some (Inl e) | Inr x \<Rightarrow> f x))"

definition ret :: "'a \<Rightarrow> 'a io" where
  "ret x = Some (Inr x)"

lemma io_bind_simps [simp]:
  "io_bind None f = None" "io_bind (Some (Inl e)) f = Some (Inl e)"
  "io_bind (Some (Inr x)) f = f x" "io_bind (ret x) f = f x"
  by (simp_all add: io_bind_def ret_def)

lemma io_bind_eq_ret: "io_bind m f = ret y \<longleftrightarrow> (\<exists>x. m = ret x \<and> f x = ret y)"
  by (auto simp: io_bind_def ret_def split: option.splits sum.splits)

lemma not_ret [simp]: "Some (Inl e) = ret x \<longleftrightarrow> False" "None = ret x \<longleftrightarrow> False" "Some (Inr y) = ret x \<longleftrightarrow> y = x"
  by (simp_all add: ret_def)

lemma ret_inject [simp]: "ret x = ret y \<longleftrightarrow> x = y"
  by (simp add: ret_def)

text \<open>
  A \<^verbatim>\<open>while\<close> loop whose body either goes round or leaves with a result.
\<close>

partial_function (option) io_loop :: "('s \<Rightarrow> ('r option \<times> 's) io) \<Rightarrow> 's \<Rightarrow> ('r \<times> 's) io" where
  "io_loop body s =
     (case body s of
        None \<Rightarrow> None
      | Some r \<Rightarrow>
          (case r of
             Inl e \<Rightarrow> Some (Inl e)
           | Inr v \<Rightarrow> (case fst v of Some x \<Rightarrow> Some (Inr (x, snd v)) | None \<Rightarrow> io_loop body (snd v))))"

lemma io_loop_leaves: "body s = ret (Some x, s') \<Longrightarrow> io_loop body s = ret (x, s')"
  by (subst io_loop.simps) (simp add: ret_def)

lemma io_loop_round: "body s = ret (None, s') \<Longrightarrow> io_loop body s = io_loop body s'"
  by (subst io_loop.simps) (simp add: ret_def)

lemma io_loop_fault: "body s = Some (Inl e) \<Longrightarrow> io_loop body s = Some (Inl e)"
  by (subst io_loop.simps) simp

section \<open>\<^verbatim>\<open>CIStreamRW\<close>\<close>

text \<open>
  \<^verbatim>\<open>readSomeAppend(data, maxCount)\<close> maps the vector and the stream to its result, the vector
  it appended to, and the stream. \<^verbatim>\<open>num -= r\<close> wraps. A source that returns more than it was
  asked for keeps the loop going, so the loop is a partial function.
\<close>

type_synonym 's reader = "u32 \<Rightarrow> bytes \<Rightarrow> 's \<Rightarrow> ((int \<times> bytes) \<times> 's) io"
type_synonym 's writer = "bytes \<Rightarrow> 's \<Rightarrow> (int \<times> 's) io"

partial_function (option) readExactNumBytesAppend ::
  "'s reader \<Rightarrow> u32 \<Rightarrow> bytes \<Rightarrow> u32 \<Rightarrow> 's \<Rightarrow> ((bool \<times> bytes) \<times> 's) io" where
  "readExactNumBytesAppend readSomeAppend m_maxSingleReadSize out num s =
     (if num > 0 then
        case readSomeAppend (if num \<ge> m_maxSingleReadSize then m_maxSingleReadSize else num) out s of
          None \<Rightarrow> None
        | Some res \<Rightarrow>
            (case res of
               Inl e \<Rightarrow> Some (Inl e)
             | Inr v \<Rightarrow>
                 if fst (fst v) \<le> 0 then Some (Inr ((False, snd (fst v)), snd v))
                 else readExactNumBytesAppend readSomeAppend m_maxSingleReadSize
                        (snd (fst v)) (num - word_of_int (fst (fst v))) (snd v))
      else Some (Inr ((True, out), s)))"

text \<open>
  \<^verbatim>\<open>writeSome(first, last)\<close> gets the bytes still to be written. Advancing \<^verbatim>\<open>first\<close> past
  \<^verbatim>\<open>last\<close> is out of range.
\<close>

partial_function (option) writeAll :: "'s writer \<Rightarrow> bytes \<Rightarrow> 's \<Rightarrow> (bool \<times> 's) io" where
  "writeAll writeSome data s =
     (if data = [] then Some (Inr (True, s))
      else case writeSome data s of
          None \<Rightarrow> None
        | Some res \<Rightarrow>
            (case res of
               Inl e \<Rightarrow> Some (Inl e)
             | Inr v \<Rightarrow>
                 if fst v \<le> 0 then Some (Inr (False, snd v))
                 else if nat (fst v) > length data then Some (Inl OutOfRange)
                 else writeAll writeSome (drop (nat (fst v)) data) (snd v)))"

section \<open>\<^verbatim>\<open>CLenValueSeparator\<close> and \<^verbatim>\<open>StreamRpcChannel\<close>\<close>

text \<open>\<open>out\<close> is cleared first, so its old content does not matter; on failure it holds what was read.\<close>

definition readMessage :: "byte_order \<Rightarrow> 's reader \<Rightarrow> u32 \<Rightarrow> 's \<Rightarrow> ((bool \<times> bytes) \<times> 's) io" where
  "readMessage bo rd mx s =
     io_bind (readExactNumBytesAppend rd mx [] 4 s) (\<lambda>((ok, btmp), s).
       if \<not> ok then ret ((False, []), s)
       else
         let iSize = san_u_be32toh bo (mem_load bo (take 4 btmp))
         in io_bind (readExactNumBytesAppend rd mx [] iSize s) (\<lambda>((ok, out), s).
              if \<not> ok then ret ((False, out), s) else ret ((True, out), s)))"

definition writeMessage :: "byte_order \<Rightarrow> 's writer \<Rightarrow> bytes \<Rightarrow> 's \<Rightarrow> (bool \<times> 's) io" where
  "writeMessage bo wr msg s =
     (let iMessageSize = san_u_htobe32 bo (word_of_nat (length msg));
          tmpMessageSize = mem_store bo 4 iMessageSize;
          b = tmpMessageSize @ msg
      in writeAll wr b s)"

text \<open>The RPC channel over a stream passes its calls on, and drops the timeout of \<^verbatim>\<open>recvDatagram\<close>.\<close>

definition stream_sendDatagram :: "byte_order \<Rightarrow> 's writer \<Rightarrow> bytes \<Rightarrow> 's \<Rightarrow> (bool \<times> 's) io" where
  "stream_sendDatagram bo wr data s = writeMessage bo wr data s"

definition stream_recvDatagram ::
  "byte_order \<Rightarrow> 's reader \<Rightarrow> u32 \<Rightarrow> nat \<Rightarrow> 's \<Rightarrow> ((bool \<times> bytes) \<times> 's) io" where
  "stream_recvDatagram bo rd mx timeoutMsec s = readMessage bo rd mx s"

text \<open>
  A sender of a list of messages, which stops at the first failure, and a receiver of \<open>n\<close>
  messages, which returns the ones it got when a read fails.
\<close>

primrec transmit :: "byte_order \<Rightarrow> 's writer \<Rightarrow> bytes list \<Rightarrow> 's \<Rightarrow> (bool \<times> 's) io" where
  "transmit bo wr [] s = ret (True, s)"
| "transmit bo wr (m # ms) s =
     io_bind (writeMessage bo wr m s) (\<lambda>(ok, s). if \<not> ok then ret (False, s) else transmit bo wr ms s)"

primrec receive :: "byte_order \<Rightarrow> 's reader \<Rightarrow> u32 \<Rightarrow> nat \<Rightarrow> 's \<Rightarrow> (bytes list \<times> 's) io" where
  "receive bo rd mx 0 s = ret ([], s)"
| "receive bo rd mx (Suc n) s =
     io_bind (readMessage bo rd mx s) (\<lambda>((ok, msg), s).
       if \<not> ok then ret ([], s)
       else io_bind (receive bo rd mx n s) (\<lambda>(msgs, s). ret (msg # msgs, s)))"

text \<open>The frame of a message: its length in network order, then the message.\<close>

definition frame :: "bytes \<Rightarrow> bytes" where
  "frame msg = be_bytes 4 (word_of_nat (length msg) :: u32) @ msg"

lemma frame_not_Nil [simp]: "frame m \<noteq> []"
  by (simp add: frame_def flip: length_greater_0_conv)

lemma writeMessage_frame: "writeMessage bo wr msg s = writeAll wr (frame msg) s"
proof -
  have "mem_store bo 4 (san_u_htobe32 bo v) = be_bytes 4 v" for v
    using pack_network(4) [of bo v] by (simp add: pack_uint32_def)
  then show ?thesis by (simp add: writeMessage_def frame_def)
qed

section \<open>What the loops leave alone\<close>

text \<open>A part \<open>F\<close> of the state that no single read, or write, changes is not changed by the loops.\<close>

section \<open>What the loops leave alone\<close>

text \<open>A part \<open>F\<close> of the state that no single read, or write, changes is not changed by the loops.\<close>

lemma readExact_keeps_aux:
  "readExactNumBytesAppend rd mx out num s = Some y \<Longrightarrow>
     (\<forall>n out s v s'. rd n out s = ret (v, s') \<longrightarrow> F s' = F s) \<longrightarrow> (\<forall>v s'. y = Inr (v, s') \<longrightarrow> F s' = F s)"
proof (induction rule: readExactNumBytesAppend.raw_induct [rotated, consumes 1])
  case (1 f rd mx out num s y)
  show ?case
  proof (intro impI allI)
    fix v s'
    assume rd: "\<forall>n out s v s'. rd n out s = ret (v, s') \<longrightarrow> F s' = F s" and y: "y = Inr (v, s')"
    show "F s' = F s"
    proof (cases "0 < num")
      case False
      then show ?thesis using 1(2) y by simp
    next
      case True
      with 1(2) y obtain v1 s1 where r: "rd (if num \<ge> mx then mx else num) out s = ret (v1, s1)"
        by (auto simp: ret_def split: option.splits sum.splits)
      then have "F s1 = F s" using rd by blast
      then show ?thesis
        using 1(1) [of rd mx "snd v1" "num - word_of_int (fst v1)" s1 y] 1(2) True r y rd
        by (auto simp: ret_def split: if_splits)
    qed
  qed
qed

lemma readExact_keeps:
  assumes "\<And>n out s v s'. rd n out s = ret (v, s') \<Longrightarrow> F s' = F s"
    and "readExactNumBytesAppend rd mx out num s = ret (v, s')"
  shows "F s' = F s"
  using readExact_keeps_aux [of rd mx out num s "Inr (v, s')" F] assms by (auto simp: ret_def)

lemma writeAll_keeps_aux:
  "writeAll wr data s = Some y \<Longrightarrow>
     (\<forall>data s v s'. wr data s = ret (v, s') \<longrightarrow> F s' = F s) \<longrightarrow> (\<forall>v s'. y = Inr (v, s') \<longrightarrow> F s' = F s)"
proof (induction rule: writeAll.raw_induct [rotated, consumes 1])
  case (1 f wr data s y)
  show ?case
  proof (intro impI allI)
    fix v s'
    assume wr: "\<forall>data s v s'. wr data s = ret (v, s') \<longrightarrow> F s' = F s" and y: "y = Inr (v, s')"
    show "F s' = F s"
    proof (cases "data = []")
      case True
      then show ?thesis using 1(2) y by simp
    next
      case False
      with 1(2) y obtain v1 s1 where r: "wr data s = ret (v1, s1)"
        by (auto simp: ret_def split: option.splits sum.splits)
      then have "F s1 = F s" using wr by blast
      then show ?thesis
        using 1(1) [of wr "drop (nat v1) data" s1 y] 1(2) False r y wr
        by (auto simp: ret_def split: if_splits)
    qed
  qed
qed

lemma writeAll_keeps:
  assumes "\<And>data s v s'. wr data s = ret (v, s') \<Longrightarrow> F s' = F s"
    and "writeAll wr data s = ret (v, s')"
  shows "F s' = F s"
  using writeAll_keeps_aux [of wr data s "Inr (v, s')" F] assms by (auto simp: ret_def)

lemma readMessage_keeps:
  assumes "\<And>n out s v s'. rd n out s = ret (v, s') \<Longrightarrow> F s' = F s"
    and "readMessage bo rd mx s = ret (v, s')"
  shows "F s' = F s"
  using assms(2) readExact_keeps [of rd F, OF assms(1)]
  by (auto simp: readMessage_def Let_def io_bind_eq_ret split: if_splits)

lemma writeMessage_keeps:
  assumes "\<And>data s v s'. wr data s = ret (v, s') \<Longrightarrow> F s' = F s"
    and "writeMessage bo wr msg s = ret (v, s')"
  shows "F s' = F s"
  using assms(2) writeAll_keeps [of wr F, OF assms(1)] by (simp add: writeMessage_frame)

section \<open>What a stream promises\<close>

text \<open>
  A source that is \<open>ok\<close> and has the bytes it is asked for \<open>pending\<close> delivers some of them, in
  order, in pieces of its own choice; asked for more than there will ever be, because the peer
  has closed, it delivers what there is or reports the end. It may rely on being asked for at most
  the size \<open>mx\<close> of its buffer.
\<close>

locale byte_source =
  fixes readSome :: "'s reader"
    and mx :: u32
    and ok :: "'s \<Rightarrow> bool"
    and pending :: "'s \<Rightarrow> bytes"
    and closed :: "'s \<Rightarrow> bool"
  assumes delivers: "ok s \<Longrightarrow> n \<noteq> 0 \<Longrightarrow> n \<le> mx \<Longrightarrow> unat n \<le> length (pending s) \<Longrightarrow>
      \<exists>d s'. readSome n out s = ret ((int (length d), out @ d), s') \<and> d \<noteq> [] \<and> length d \<le> unat n \<and>
        pending s = d @ pending s' \<and> ok s' \<and> closed s' = closed s"
    and ends: "ok s \<Longrightarrow> n \<noteq> 0 \<Longrightarrow> n \<le> mx \<Longrightarrow> length (pending s) < unat n \<Longrightarrow> closed s \<Longrightarrow>
      (\<exists>s'. readSome n out s = ret ((-1, out), s')) \<or>
      (\<exists>d s'. readSome n out s = ret ((int (length d), out @ d), s') \<and> d \<noteq> [] \<and> length d \<le> unat n \<and>
        pending s = d @ pending s' \<and> ok s' \<and> closed s' = closed s)"
begin

lemma readExact_enough:
  assumes "ok s" and "mx \<noteq> 0" and "unat num \<le> length (pending s)"
  shows "\<exists>s'. readExactNumBytesAppend readSome mx out num s =
      ret ((True, out @ take (unat num) (pending s)), s') \<and>
    pending s' = drop (unat num) (pending s) \<and> ok s' \<and> closed s' = closed s"
  using assms
proof (induction "unat num" arbitrary: num out s rule: less_induct)
  case less
  show ?case
  proof (cases "num = 0")
    case True
    then show ?thesis
      using less.prems(1) by (subst readExactNumBytesAppend.simps) (simp add: ret_def)
  next
    case False
    let ?n = "if num \<ge> mx then mx else num"
    have n0: "?n \<noteq> 0" and le: "?n \<le> mx" using less.prems(2) False by auto
    have n: "unat ?n \<le> unat num" by (simp add: word_le_nat_alt)
    have pend: "unat ?n \<le> length (pending s)" using less.prems(3) n by linarith
    obtain d s1 where r: "readSome ?n out s = ret ((int (length d), out @ d), s1)"
      and d: "d \<noteq> []" "length d \<le> unat ?n" "pending s = d @ pending s1" "ok s1" "closed s1 = closed s"
      using delivers [OF less.prems(1) n0 le pend, of out] by blast
    have len: "length d \<le> unat num" using d(2) n by linarith
    have l: "unat (word_of_nat (length d) :: u32) = length d"
      using len unsigned_less [of num, where ?'a = nat] by (simp add: unsigned_of_nat take_bit_eq_mod)
    then have "word_of_nat (length d) \<le> num" using len by (simp add: word_le_nat_alt)
    then have sub: "unat (num - word_of_nat (length d)) = unat num - length d"
      using l by (simp add: unat_sub)
    have "length d > 0" using d(1) by simp
    then have "unat (num - word_of_nat (length d)) < unat num"
      using False len by (simp add: sub unat_gt_0)
    moreover have "unat (num - word_of_nat (length d)) \<le> length (pending s1)"
      using less.prems(3) d(3) by (simp add: sub)
    ultimately obtain s2 where
      "readExactNumBytesAppend readSome mx (out @ d) (num - word_of_nat (length d)) s1 =
        ret ((True, (out @ d) @ take (unat num - length d) (pending s1)), s2)"
      and "pending s2 = drop (unat num - length d) (pending s1)" "ok s2" "closed s2 = closed s1"
      using less.hyps [OF _ d(4) less.prems(2), of "num - word_of_nat (length d)" "out @ d"] sub by auto
    then show ?thesis
      using r d False len
      by (subst readExactNumBytesAppend.simps) (simp add: ret_def word_gt_0)
  qed
qed

lemma readExact_short:
  assumes "ok s" and "closed s" and "mx \<noteq> 0" and "length (pending s) < unat num"
  shows "\<exists>out' s'. readExactNumBytesAppend readSome mx out num s = ret ((False, out'), s')"
  using assms
proof (induction "length (pending s)" arbitrary: num out s rule: less_induct)
  case less
  let ?n = "if num \<ge> mx then mx else num"
  have num: "num \<noteq> 0" using less.prems(4) by auto
  then have n0: "?n \<noteq> 0" and le: "?n \<le> mx" using less.prems(3) by auto
  consider s' where "readSome ?n out s = ret ((-1, out), s')"
    | d s1 where "readSome ?n out s = ret ((int (length d), out @ d), s1)"
      "d \<noteq> []" "length d \<le> unat ?n" "pending s = d @ pending s1" "ok s1" "closed s1 = closed s"
    using delivers [OF less.prems(1) n0 le, of out] ends [OF less.prems(1) n0 le _ less.prems(2), of out]
    by (cases "unat ?n \<le> length (pending s)") (blast, metis not_le)
  then show ?case
  proof cases
    case 1
    then show ?thesis
      using num by (subst readExactNumBytesAppend.simps) (simp add: ret_def word_gt_0)
  next
    case (2 d s1)
    note r = 2(1) and d = 2(2-)
    have len: "length d < unat num" using less.prems(4) d(3) by simp
    then have l: "unat (word_of_nat (length d) :: u32) = length d"
      using unsigned_less [of num, where ?'a = nat] by (simp add: unsigned_of_nat take_bit_eq_mod)
    then have "word_of_nat (length d) \<le> num" using len by (simp add: word_le_nat_alt)
    then have sub: "unat (num - word_of_nat (length d)) = unat num - length d"
      using l by (simp add: unat_sub)
    have shorter: "length (pending s1) < length (pending s)" using d(1,3) by simp
    obtain out' s' where
      "readExactNumBytesAppend readSome mx (out @ d) (num - word_of_nat (length d)) s1 = ret ((False, out'), s')"
      using less.hyps [OF shorter d(4) _ less.prems(3), of "num - word_of_nat (length d)" "out @ d"]
        sub len d less.prems(2,4) by (auto simp: less_diff_conv)
    then show ?thesis
      using r d(1) num by (subst readExactNumBytesAppend.simps) (simp add: ret_def word_gt_0)
  qed
qed

lemma header_decodes:
  "length msg < 2 ^ 32 \<Longrightarrow>
     unat (san_u_be32toh bo (mem_load bo (be_bytes 4 (word_of_nat (length msg) :: u32)))) = length msg"
  using unpack_network32(1) [of bo "be_bytes 4 (word_of_nat (length msg) :: u32)" 0]
  by (simp add: unpackUint32_def be_word_be_bytes unsigned_of_nat take_bit_eq_mod)

lemma readMessage_frame:
  assumes "ok s" and "mx \<noteq> 0" and "length msg < 2 ^ 32" and "pending s = frame msg @ rest"
  shows "\<exists>s'. readMessage bo readSome mx s = ret ((True, msg), s') \<and> pending s' = rest \<and> ok s' \<and>
    closed s' = closed s"
proof -
  obtain s1 where s1: "readExactNumBytesAppend readSome mx [] 4 s =
      ret ((True, be_bytes 4 (word_of_nat (length msg) :: u32)), s1)"
    "pending s1 = msg @ rest" "ok s1" "closed s1 = closed s"
    using readExact_enough [OF assms(1,2), of 4 "[]"] assms(4) by (auto simp: frame_def)
  let ?n = "san_u_be32toh bo (mem_load bo (be_bytes 4 (word_of_nat (length msg) :: u32)))"
  have n: "unat ?n = length msg" by (rule header_decodes [OF assms(3)])
  then obtain s2 where "readExactNumBytesAppend readSome mx [] ?n s1 = ret ((True, msg), s2)"
    "pending s2 = rest" "ok s2" "closed s2 = closed s1"
    using readExact_enough [OF s1(3) assms(2), of ?n "[]"] s1(2) by auto
  then show ?thesis using s1 by (simp add: readMessage_def Let_def)
qed

text \<open>A frame that is cut short by the end of the stream is never taken for a message.\<close>

lemma readMessage_truncated:
  assumes "ok s" and "closed s" and "mx \<noteq> 0" and "length msg < 2 ^ 32"
    and "frame msg = pending s @ missing" and "missing \<noteq> []"
  shows "\<exists>out s'. readMessage bo readSome mx s = ret ((False, out), s')"
proof (cases "length (pending s) < 4")
  case True
  then show ?thesis
    using readExact_short [OF assms(1-3), of 4 "[]"] by (auto simp: readMessage_def)
next
  case False
  let ?h = "be_bytes 4 (word_of_nat (length msg) :: u32)"
  have h: "take 4 (pending s) = ?h" and r: "msg = drop 4 (pending s) @ missing"
    using arg_cong [OF assms(5), of "take 4"] arg_cong [OF assms(5), of "drop 4"] False
    by (simp_all add: frame_def)
  obtain s1 where s1: "readExactNumBytesAppend readSome mx [] 4 s = ret ((True, ?h), s1)"
    "pending s1 = drop 4 (pending s)" "ok s1" "closed s1"
    using readExact_enough [OF assms(1,3), of 4 "[]"] False h assms(2) by auto
  let ?n = "san_u_be32toh bo (mem_load bo ?h)"
  have "unat ?n = length msg" by (rule header_decodes [OF assms(4)])
  then have "length (pending s1) < unat ?n"
    using s1(2) r assms(6) by (metis length_append length_greater_0_conv less_add_same_cancel1)
  then show ?thesis
    using readExact_short [OF s1(3,4) assms(3), of ?n "[]"] s1(1)
    by (auto simp: readMessage_def Let_def)
qed

lemma receive_frames:
  assumes "ok s" and "mx \<noteq> 0" and "\<forall>m \<in> set msgs. length m < 2 ^ 32"
    and "pending s = concat (map frame msgs) @ rest"
  shows "\<exists>s'. receive bo readSome mx (length msgs) s = ret (msgs, s') \<and> pending s' = rest \<and> ok s' \<and> closed s' = closed s"
  using assms
proof (induction msgs arbitrary: s)
  case (Cons m msgs)
  obtain s1 where "readMessage bo readSome mx s = ret ((True, m), s1)"
    "pending s1 = concat (map frame msgs) @ rest" "ok s1" "closed s1 = closed s"
    using readMessage_frame [OF Cons.prems(1,2), of m "concat (map frame msgs) @ rest" bo] Cons.prems(3,4) by auto
  moreover obtain s2 where "receive bo readSome mx (length msgs) s1 = ret (msgs, s2)"
    "pending s2 = rest" "ok s2" "closed s2 = closed s1"
    using Cons.IH [OF calculation(3) Cons.prems(2)] Cons.prems(3) calculation(2) by auto
  ultimately show ?case by simp
qed simp

end

text \<open>
  A sink that is \<open>ok\<close> takes a non-empty prefix of what it is given, as long as the peer has
  \<open>room\<close> for it; \<open>written\<close> are the bytes it has put on the wire.
\<close>

locale byte_sink =
  fixes writeSome :: "'s writer"
    and ok :: "'s \<Rightarrow> bool"
    and room :: "'s \<Rightarrow> nat"
    and written :: "'s \<Rightarrow> bytes"
  assumes accepts: "ok s \<Longrightarrow> data \<noteq> [] \<Longrightarrow> length data < 2 ^ 31 \<Longrightarrow> length data \<le> room s \<Longrightarrow>
      \<exists>n s'. writeSome data s = ret (int n, s') \<and> 0 < n \<and> n \<le> length data \<and>
        written s' = written s @ take n data \<and> room s - n \<le> room s' \<and> ok s'"
begin

lemma writeAll_writes:
  assumes "ok s" and "length data < 2 ^ 31" and "length data \<le> room s"
  shows "\<exists>s'. writeAll writeSome data s = ret (True, s') \<and> written s' = written s @ data \<and>
    room s - length data \<le> room s' \<and> ok s'"
  using assms
proof (induction "length data" arbitrary: data s rule: less_induct)
  case less
  show ?case
  proof (cases "data = []")
    case True
    then show ?thesis using less.prems by (subst writeAll.simps) (simp add: ret_def)
  next
    case False
    obtain n s1 where w: "writeSome data s = ret (int n, s1)" "0 < n" "n \<le> length data"
      "written s1 = written s @ take n data" "room s - n \<le> room s1" "ok s1"
      using accepts [OF less.prems(1) False less.prems(2,3)] by blast
    obtain s2 where "writeAll writeSome (drop n data) s1 = ret (True, s2)"
      "written s2 = written s1 @ drop n data" "room s1 - length (drop n data) \<le> room s2" "ok s2"
      using less.hyps [of "drop n data" s1] w less.prems(2,3) False by force
    then show ?thesis
      using w False by (subst writeAll.simps) (simp add: ret_def)
  qed
qed

lemma transmit_frames:
  assumes "ok s" and "\<forall>m \<in> set msgs. length m + 4 < 2 ^ 31"
    and "length (concat (map frame msgs)) \<le> room s"
  shows "\<exists>s'. transmit bo writeSome msgs s = ret (True, s') \<and> written s' = written s @ concat (map frame msgs) \<and> ok s'"
  using assms
proof (induction msgs arbitrary: s)
  case (Cons m msgs)
  obtain s1 where s1: "writeMessage bo writeSome m s = ret (True, s1)"
    "written s1 = written s @ frame m" "room s - length (frame m) \<le> room s1" "ok s1"
    using writeAll_writes [OF Cons.prems(1), of "frame m"] Cons.prems(2,3)
    by (auto simp: writeMessage_frame frame_def)
  have "\<forall>m \<in> set msgs. length m + 4 < 2 ^ 31" "length (concat (map frame msgs)) \<le> room s1"
    using Cons.prems(2,3) s1(3) by auto
  then obtain s2 where "transmit bo writeSome msgs s1 = ret (True, s2)"
    "written s2 = written s1 @ concat (map frame msgs)" "ok s2"
    using Cons.IH [OF s1(4)] by blast
  then show ?case using s1 by simp
qed simp

end

end
