(* ===== verification/Sockets.thy ===== *)
theory Sockets
  imports Stream
begin

text \<open>
  The read and write loops over the system's sockets and the buffered pipe channel:
  \<^verbatim>\<open>src/cppl/helper.cpp\<close>, \<^verbatim>\<open>src/cppl/bufferprocessor.cpp\<close>, \<^verbatim>\<open>src/tcp/tcphelper.cpp\<close>,
  \<^verbatim>\<open>src/comm/cpplstreamrw.cpp\<close> and \<^verbatim>\<open>src/comm/tcpstreamrw.cpp\<close>, in their Linux version.
  The system is a script of the outcomes of \<^verbatim>\<open>select\<close>, \<^verbatim>\<open>recv\<close> and \<^verbatim>\<open>send\<close>; a
  script that runs out is a call that blocks for ever.
\<close>

section \<open>The system calls\<close>

text \<open>
  One round of \<^verbatim>\<open>select\<close>: interrupted, timed out, failed, or ready with what the call that
  follows will give. The flag is what \<^verbatim>\<open>thr->isTerminated()\<close> then answers.
\<close>

datatype 'r poll = Interrupted bool | Elapsed bool | SelectFails bool | Ready bool 'r

datatype received = Arrived bytes | PeerClosed | RecvFails
datatype sent = Taken nat | PeerReset | SendFails

record socket =
  is_open :: bool
  rx :: "received poll list"
  tx :: "sent poll list"
  wire :: bytes

text \<open>\<^verbatim>\<open>San2::Cppl::ErrorCode\<close>, and \<^verbatim>\<open>San2::Tcp::TcpErrorCode\<close> with the same values.\<close>

datatype ErrorCode = SUCCESS | FAILURE | TERMINATED | TIMEOUT | PEER_DISCONNECT
  | REQUEST_DISCONNECT | ILLEGAL_CHARACTER_RECEIVED | SEGMENT_TOO_LONG | BUFFER_TO_SMALL

primrec errorCodeToInt :: "ErrorCode \<Rightarrow> int" where
  "errorCodeToInt SUCCESS = 0"
| "errorCodeToInt FAILURE = -1"
| "errorCodeToInt TERMINATED = -2"
| "errorCodeToInt TIMEOUT = -3"
| "errorCodeToInt PEER_DISCONNECT = -4"
| "errorCodeToInt REQUEST_DISCONNECT = -5"
| "errorCodeToInt ILLEGAL_CHARACTER_RECEIVED = -6"
| "errorCodeToInt SEGMENT_TOO_LONG = -7"
| "errorCodeToInt BUFFER_TO_SMALL = -8"

definition intToErrorCode :: "int \<Rightarrow> ErrorCode" where
  "intToErrorCode code =
     (if code = 0 then SUCCESS else if code = -1 then FAILURE else if code = -2 then TERMINATED
      else if code = -3 then TIMEOUT else if code = -4 then PEER_DISCONNECT
      else if code = -5 then REQUEST_DISCONNECT else if code = -6 then ILLEGAL_CHARACTER_RECEIVED
      else if code = -7 then SEGMENT_TOO_LONG else if code = -8 then BUFFER_TO_SMALL else FAILURE)"

text \<open>
  The read loop, for a buffer of \<open>n\<close> bytes: the code, the value of \<^verbatim>\<open>*bytesRead\<close> if it was
  written, and the bytes stored. \<^verbatim>\<open>*bytesRead < 0\<close> is never true of an unsigned integer, so a
  failed \<^verbatim>\<open>recv\<close> is a success that read $2^{32}-1$ bytes.
\<close>

type_synonym read_result = "ErrorCode \<times> u32 option \<times> bytes"

fun read_loop :: "u32 \<Rightarrow> received poll list \<Rightarrow> (read_result \<times> received poll list) option" where
  "read_loop n [] = None"
| "read_loop n (Interrupted t # es) = (if t then Some ((TERMINATED, None, []), es) else read_loop n es)"
| "read_loop n (Elapsed t # es) = (if t then Some ((TERMINATED, None, []), es) else read_loop n es)"
| "read_loop n (SelectFails t # es) =
     Some ((if t then TERMINATED else FAILURE, None, []), es)"
| "read_loop n (Ready t r # es) =
     (if t then Some ((TERMINATED, None, []), Ready False r # es)
      else case r of
        Arrived bs \<Rightarrow>
          let got = take (unat n) bs;
              left = drop (unat n) bs;
              es' = (if left = [] then es else Ready False (Arrived left) # es)
          in if got = [] then Some ((PEER_DISCONNECT, Some 0, []), es')
             else Some ((SUCCESS, Some (word_of_nat (length got)), got), es')
      | PeerClosed \<Rightarrow> Some ((PEER_DISCONNECT, Some 0, []), Ready False PeerClosed # es)
      | RecvFails \<Rightarrow> Some ((SUCCESS, Some (-1), []), es))"

definition cppl_nix_read :: "u32 \<Rightarrow> socket \<Rightarrow> (read_result \<times> socket) option" where
  "cppl_nix_read dataSize sock =
     (if \<not> is_open sock then Some ((FAILURE, None, []), sock)
      else map_option (\<lambda>(res, es). (res, sock\<lparr>rx := es\<rparr>)) (read_loop dataSize (rx sock)))"

definition sock_read_stream :: "u32 \<Rightarrow> socket \<Rightarrow> (read_result \<times> socket) option" where
  "sock_read_stream dataSize sock =
     (if \<not> is_open sock then Some ((FAILURE, None, []), sock)
      else map_option (\<lambda>(res, es). (res, sock\<lparr>rx := es\<rparr>)) (read_loop dataSize (rx sock)))"

text \<open>
  The write loop: \<open>totalSent\<close> (\<^verbatim>\<open>total\<close>) and \<open>bytesleft\<close> are the code's variables, \<open>len\<close> its \<^verbatim>\<open>*len\<close>.
  The result is the code, the final \<^verbatim>\<open>*len\<close>, and the bytes the system took.
\<close>

fun send_loop :: "bytes \<Rightarrow> int \<Rightarrow> int \<Rightarrow> int \<Rightarrow> sent poll list \<Rightarrow>
    ((ErrorCode \<times> int \<times> bytes) \<times> sent poll list) option" where
  "send_loop buf len totalSent bytesleft es =
     (if totalSent < len then
        (case es of
           [] \<Rightarrow> None
         | Interrupted t # es \<Rightarrow>
             (if t then Some ((TERMINATED, len, []), es) else send_loop buf len totalSent bytesleft es)
         | Elapsed t # es \<Rightarrow>
             (if t then Some ((TERMINATED, len, []), es) else send_loop buf len totalSent bytesleft es)
         | SelectFails t # es \<Rightarrow> Some ((if t then TERMINATED else FAILURE, len, []), es)
         | Ready t r # es \<Rightarrow>
             (if t then Some ((TERMINATED, len, []), es)
              else case r of
                PeerReset \<Rightarrow> Some ((PEER_DISCONNECT, len, []), es)
              | SendFails \<Rightarrow> Some ((FAILURE, totalSent, []), es)
              | Taken k \<Rightarrow>
                  let n = min (int k) bytesleft;
                      out = take (nat n) (drop (nat totalSent) buf)
                  in map_option (\<lambda>((code, len', out'), es). ((code, len', out @ out'), es))
                       (send_loop buf len (totalSent + n) (bytesleft - n) es)))
      else Some ((SUCCESS, totalSent, []), es))"

declare send_loop.simps [simp del]

definition sendall :: "bytes \<Rightarrow> int \<Rightarrow> socket \<Rightarrow> (ErrorCode \<times> socket) option" where
  "sendall buf len sock =
     map_option (\<lambda>((code, _, out), es). (code, sock\<lparr>tx := es, wire := wire sock @ out\<rparr>))
       (send_loop buf len 0 len (tx sock))"

definition cppl_nix_sendall_stream :: "bytes \<Rightarrow> int \<Rightarrow> socket \<Rightarrow> (ErrorCode \<times> socket) option" where
  "cppl_nix_sendall_stream buf len sock =
     (if \<not> is_open sock then Some (FAILURE, sock) else sendall buf len sock)"

definition sock_sendall_stream :: "bytes \<Rightarrow> int \<Rightarrow> socket \<Rightarrow> (ErrorCode \<times> socket) option" where
  "sock_sendall_stream buf len sock =
     (if \<not> is_open sock then Some (FAILURE, sock) else sendall buf len sock)"

section \<open>\<^verbatim>\<open>BufferProcessor\<close>\<close>

text \<open>
  \<open>sock\<close> is the socket of the class that derives from it. \<open>junk\<close> is what an uninitialised
  \<^verbatim>\<open>bytesRead\<close> on the stack of \<^verbatim>\<open>fillBuffer\<close> holds.
\<close>

definition mReadBufferSize :: u32 where "mReadBufferSize = 1024"

record bufproc =
  mReadBuffer :: bytes
  mReadBufferLen :: u32
  sock :: socket

text \<open>
  \<^verbatim>\<open>cppl_extract_buffer\<close>: the assertion repeats the condition of the error return below it.
  The result is the copied bytes, the shifted buffer and its length.
\<close>

definition cppl_extract_buffer :: "bytes \<Rightarrow> u32 \<Rightarrow> u32 \<Rightarrow> u32 \<Rightarrow> u32 \<Rightarrow> (int \<times> bytes \<times> bytes \<times> u32) run" where
  "cppl_extract_buffer readBuffer readBufferSize readBufferLen outputBufferSize extractCount =
     (if extractCount = 0 \<or> readBufferLen = 0 \<or> extractCount > readBufferSize \<or>
         extractCount > outputBufferSize \<or> readBufferLen > readBufferSize \<or> extractCount > readBufferLen
      then Inl AssertionFailed
      else
        let out = take (unat extractCount) readBuffer;
            remainingLen = readBufferLen - extractCount;
            shifted = take (unat remainingLen) (drop (unat extractCount) readBuffer) @ drop (unat remainingLen) readBuffer
        in Inr (0, out, shifted, readBufferLen - extractCount))"

definition cppl_append_buffer :: "bytes \<Rightarrow> u32 \<Rightarrow> u32 \<Rightarrow> bytes \<Rightarrow> u32 \<Rightarrow> (int \<times> bytes \<times> u32) run" where
  "cppl_append_buffer readBuffer readBufferSize readBufferLen appended appendLen =
     (if appendLen = 0 \<or> readBufferSize < readBufferLen + appendLen then Inl AssertionFailed
      else Inr (0, copy_at (unat readBufferLen) (take (unat appendLen) appended) readBuffer,
             readBufferLen + appendLen))"

definition extractBuffer :: "u32 \<Rightarrow> u32 \<Rightarrow> bufproc \<Rightarrow> ((ErrorCode \<times> bytes) \<times> bufproc) run" where
  "extractBuffer outputBufferSize extractCount b =
     (if extractCount > outputBufferSize then Inr ((BUFFER_TO_SMALL, []), b)
      else run_bind (cppl_extract_buffer (mReadBuffer b) mReadBufferSize (mReadBufferLen b) outputBufferSize extractCount)
        (\<lambda>(rval, out, buf, len).
          if rval \<noteq> 0 then Inr ((FAILURE, []), b)
          else Inr ((SUCCESS, out), b\<lparr>mReadBuffer := buf, mReadBufferLen := len\<rparr>)))"

text \<open>The system stores into the buffer; past its end, or from a length beyond it, is out of range.\<close>

definition fillBuffer :: "u32 \<Rightarrow> bufproc \<Rightarrow> (ErrorCode \<times> bufproc) io" where
  "fillBuffer junk b =
     (let remainingLen = mReadBufferSize - mReadBufferLen b
      in if remainingLen = 0 then ret (SUCCESS, b)
         else case cppl_nix_read remainingLen (sock b) of
           None \<Rightarrow> None
         | Some ((rval, bytesRead, data), s') \<Rightarrow>
             if unat (mReadBufferLen b) + length data > unat mReadBufferSize then Some (Inl OutOfRange)
             else ret (rval, b\<lparr>mReadBuffer := copy_at (unat (mReadBufferLen b)) data (mReadBuffer b),
                    mReadBufferLen := mReadBufferLen b + (case bytesRead of Some n \<Rightarrow> n | None \<Rightarrow> junk),
                    sock := s'\<rparr>))"

definition readSome :: "u32 \<Rightarrow> u32 \<Rightarrow> bufproc \<Rightarrow> ((ErrorCode \<times> u32 option \<times> bytes) \<times> bufproc) io" where
  "readSome junk bufferSize b =
     io_bind (if bufferSize > mReadBufferLen b then fillBuffer junk b else ret (SUCCESS, b)) (\<lambda>(rval, b).
       if rval \<noteq> SUCCESS then ret ((rval, None, []), b)
       else
         let bytesRead = (if bufferSize \<ge> mReadBufferLen b then mReadBufferLen b else bufferSize)
         in case extractBuffer bufferSize bytesRead b of
              Inl e \<Rightarrow> Some (Inl e)
            | Inr ((rval, out), b) \<Rightarrow> ret ((rval, Some bytesRead, out), b))"

section \<open>The streams\<close>

text \<open>
  \<^verbatim>\<open>return bytesRead;\<close> and \<^verbatim>\<open>return dataSize;\<close> convert an unsigned to a signed integer.
  \<open>mx\<close> is the size of \<^verbatim>\<open>rsapBuffer\<close>, \<^verbatim>\<open>m_maxSingleReadSize\<close>.
\<close>

definition cppl_readSomeAppend :: "u32 \<Rightarrow> bufproc reader" where
  "cppl_readSomeAppend junk maxCount data b =
     io_bind (readSome junk maxCount b) (\<lambda>((code, bytesRead, out), b).
       if code \<noteq> SUCCESS then ret ((-1, data), b)
       else case bytesRead of
           None \<Rightarrow> Some (Inl Indeterminate)
         | Some n \<Rightarrow> if n = 0 then ret ((-1, data), b) else ret ((sint n, data @ out), b))"

definition cppl_writeSome :: "bufproc writer" where
  "cppl_writeSome data b =
     (let dataSize = (word_of_nat (length data) :: u32)
      in case cppl_nix_sendall_stream data (sint dataSize) (sock b) of
           None \<Rightarrow> None
         | Some (code, s') \<Rightarrow> ret (if code = SUCCESS then sint dataSize else -1, b\<lparr>sock := s'\<rparr>))"

definition tcp_readSomeAppend :: "u32 \<Rightarrow> socket reader" where
  "tcp_readSomeAppend mx maxCount data s =
     (case sock_read_stream maxCount s of
        None \<Rightarrow> None
      | Some ((code, bytesRead, out), s') \<Rightarrow>
          if code \<noteq> SUCCESS then ret ((-1, data), s')
          else case bytesRead of
              None \<Rightarrow> Some (Inl Indeterminate)
            | Some n \<Rightarrow>
                if n = 0 then ret ((-1, data), s')
                else if n > mx then Some (Inl OutOfRange)
                else if unat n > length out then Some (Inl Indeterminate)
                else ret ((sint n, data @ out), s'))"

definition tcp_writeSome :: "socket writer" where
  "tcp_writeSome data s =
     (let dataSize = (word_of_nat (length data) :: u32)
      in case sock_sendall_stream data (sint dataSize) s of
           None \<Rightarrow> None
         | Some (code, s') \<Rightarrow> ret (if code = SUCCESS then sint dataSize else -1, s'))"

section \<open>Lemmas\<close>

text \<open>
  A script with no failure and no termination: interruptions and timeouts, arrivals cut up in
  any way, perhaps the end of the connection.
\<close>

fun quiet_rx :: "received poll \<Rightarrow> bool" where
  "quiet_rx (Interrupted t) = (\<not> t)"
| "quiet_rx (Elapsed t) = (\<not> t)"
| "quiet_rx (SelectFails t) = False"
| "quiet_rx (Ready t r) = (\<not> t \<and> (case r of Arrived bs \<Rightarrow> bs \<noteq> [] | PeerClosed \<Rightarrow> True | RecvFails \<Rightarrow> False))"

fun incoming :: "received poll list \<Rightarrow> bytes" where
  "incoming [] = []"
| "incoming (Ready t (Arrived bs) # es) = bs @ incoming es"
| "incoming (Ready t PeerClosed # es) = []"
| "incoming (e # es) = incoming es"

definition peer_closes :: "received poll list \<Rightarrow> bool" where
  "peer_closes es \<longleftrightarrow> (\<exists>t. Ready t PeerClosed \<in> set es)"

fun quiet_tx :: "sent poll \<Rightarrow> bool" where
  "quiet_tx (Interrupted t) = (\<not> t)"
| "quiet_tx (Elapsed t) = (\<not> t)"
| "quiet_tx (SelectFails t) = False"
| "quiet_tx (Ready t r) = (\<not> t \<and> (case r of Taken k \<Rightarrow> True | _ \<Rightarrow> False))"

fun takes :: "sent poll \<Rightarrow> bool" where
  "takes (Ready t (Taken k)) = (0 < k)"
| "takes _ = False"

definition tx_room :: "sent poll list \<Rightarrow> nat" where
  "tx_room es = length (filter takes es)"

lemma tx_room_simps [simp]:
  "tx_room [] = 0" "tx_room (e # es) = (if takes e then Suc (tx_room es) else tx_room es)"
  by (simp_all add: tx_room_def)

lemma unat_length_u32: "length d \<le> unat (n :: u32) \<Longrightarrow> unat (word_of_nat (length d) :: u32) = length d"
  using unsigned_less [of n, where ?'a = nat] by (simp add: unsigned_of_nat take_bit_eq_mod)

lemma read_loop_delivers:
  assumes "list_all quiet_rx es" and "n \<noteq> 0" and "incoming es \<noteq> []"
  shows "\<exists>d es'. read_loop n es = Some ((SUCCESS, Some (word_of_nat (length d)), d), es') \<and> d \<noteq> [] \<and>
    length d \<le> unat n \<and> incoming es = d @ incoming es' \<and> list_all quiet_rx es' \<and>
    peer_closes es' = peer_closes es"
  using assms
proof (induction n es rule: read_loop.induct)
  case (5 n t r es)
  then obtain bs where r: "r = Arrived bs" "\<not> t" "bs \<noteq> []" by (cases r) auto
  have "unat n \<noteq> 0" using 5(2) by (simp add: unat_eq_0)
  then have "take (unat n) bs \<noteq> []" using r(3) by simp
  then show ?case
    using r 5(1) by (intro exI [of _ "take (unat n) bs"]) (auto simp: Let_def peer_closes_def)
qed (auto simp: peer_closes_def)

lemma read_loop_ends:
  assumes "list_all quiet_rx es" and "incoming es = []" and "peer_closes es"
  shows "\<exists>es'. read_loop n es = Some ((PEER_DISCONNECT, Some 0, []), es')"
  using assms
proof (induction n es rule: read_loop.induct)
  case (5 n t r es)
  then show ?case by (cases r) auto
qed (auto simp: peer_closes_def)

lemma send_loop_sends:
  assumes "list_all quiet_tx es" and "0 \<le> t" and "t \<le> int (length buf)"
    and "nat (int (length buf) - t) \<le> tx_room es"
  shows "\<exists>es'. send_loop buf (int (length buf)) t (int (length buf) - t) es =
      Some ((SUCCESS, int (length buf), drop (nat t) buf), es') \<and> list_all quiet_tx es' \<and>
    tx_room es - nat (int (length buf) - t) \<le> tx_room es'"
  using assms
proof (induction es arbitrary: t)
  case Nil
  then show ?case by (subst send_loop.simps) simp
next
  case (Cons e es)
  show ?case
  proof (cases "t < int (length buf)")
    case False
    then show ?thesis using Cons.prems by (subst send_loop.simps) simp
  next
    case True
    show ?thesis
    proof (cases "\<exists>k. e = Ready False (Taken k)")
      case False
      then have "\<not> takes e" and e: "e = Interrupted False \<or> e = Elapsed False"
        using Cons.prems(1) by (cases e; auto split: sent.splits)+
      then show ?thesis
        using Cons.IH [of t] Cons.prems True by (subst send_loop.simps) auto
    next
      case k: True
      then obtain k where e: "e = Ready False (Taken k)" by blast
      define n where "n = min (int k) (int (length buf) - t)"
      have n: "0 \<le> n" "t + n \<le> int (length buf)" "k > 0 \<Longrightarrow> 0 < n" using True by (auto simp: n_def)
      have "nat (int (length buf) - (t + n)) \<le> tx_room es"
        using Cons.prems(4) n e by (auto split: if_splits)
      then obtain es' where IH: "send_loop buf (int (length buf)) (t + n) (int (length buf) - (t + n)) es =
          Some ((SUCCESS, int (length buf), drop (nat (t + n)) buf), es')" "list_all quiet_tx es'"
        "tx_room es - nat (int (length buf) - (t + n)) \<le> tx_room es'"
        using Cons.IH [of "t + n"] Cons.prems n by auto
      have "take (nat n) (drop (nat t) buf) @ drop (nat (t + n)) buf = drop (nat t) buf"
        using append_take_drop_id [of "nat n" "drop (nat t) buf"] n Cons.prems(2)
        by (simp add: nat_add_distrib add.commute)
      moreover have "tx_room (e # es) - nat (int (length buf) - t) \<le> tx_room es'"
        using IH(3) n e True by auto
      ultimately show ?thesis
        using IH(1,2) e True
        by (subst send_loop.simps) (simp add: Let_def n_def [symmetric] diff_diff_eq)
    qed
  qed
qed

section \<open>The streams keep the contracts\<close>

definition tcp_ok :: "u32 \<Rightarrow> socket \<Rightarrow> bool" where
  "tcp_ok mx s \<longleftrightarrow> is_open s \<and> list_all quiet_rx (rx s) \<and> unat mx < 2 ^ 31"

definition tcp_pending :: "socket \<Rightarrow> bytes" where "tcp_pending s = incoming (rx s)"
definition tcp_closed :: "socket \<Rightarrow> bool" where "tcp_closed s = peer_closes (rx s)"

lemma sint_length:
  assumes "length d \<le> unat (n :: u32)" and "unat n < 2 ^ 31"
  shows "sint (word_of_nat (length d) :: u32) = int (length d)"
  using assms by (simp add: signed_of_nat signed_take_bit_int_eq_self)

lemma tcp_read_delivers:
  assumes "tcp_ok mx s" and "n \<noteq> 0" and "n \<le> mx" and "tcp_pending s \<noteq> []"
  shows "\<exists>d s'. tcp_readSomeAppend mx n out s = ret ((int (length d), out @ d), s') \<and> d \<noteq> [] \<and>
    length d \<le> unat n \<and> tcp_pending s = d @ tcp_pending s' \<and> tcp_ok mx s' \<and> tcp_closed s' = tcp_closed s"
proof -
  obtain d es where r: "read_loop n (rx s) = Some ((SUCCESS, Some (word_of_nat (length d)), d), es)"
    and d: "d \<noteq> []" "length d \<le> unat n" "incoming (rx s) = d @ incoming es" "list_all quiet_rx es"
      "peer_closes es = peer_closes (rx s)"
    using read_loop_delivers [of "rx s" n] assms by (auto simp: tcp_ok_def tcp_pending_def)
  have u: "unat (word_of_nat (length d) :: u32) = length d" by (rule unat_length_u32 [OF d(2)])
  have n: "unat n < 2 ^ 31" using assms(1,3) by (simp add: tcp_ok_def word_le_nat_alt)
  have "(word_of_nat (length d) :: u32) \<noteq> 0" using d(1) u by (metis length_0_conv unat_0)
  moreover have "\<not> mx < word_of_nat (length d)"
    using assms(3) d(2) u by (simp add: not_less word_le_nat_alt)
  ultimately show ?thesis
    using r d u sint_length [OF d(2) n] assms(1)
    by (intro exI [of _ d] exI [of _ "s\<lparr>rx := es\<rparr>"])
      (simp add: tcp_readSomeAppend_def sock_read_stream_def tcp_ok_def tcp_pending_def tcp_closed_def)
qed

interpretation tcp_src: byte_source "tcp_readSomeAppend mx" mx "tcp_ok mx" tcp_pending tcp_closed for mx
proof (standard, goal_cases)
  case (1 s n out)
  then have "tcp_pending s \<noteq> []" by (auto simp: unat_eq_0)
  then show ?case using tcp_read_delivers [OF 1(1-3)] by blast
next
  case (2 s n out)
  show ?case
  proof (cases "tcp_pending s = []")
    case True
    then obtain es where "read_loop n (rx s) = Some ((PEER_DISCONNECT, Some 0, []), es)"
      using read_loop_ends [of "rx s" n] 2 by (auto simp: tcp_ok_def tcp_pending_def tcp_closed_def)
    then show ?thesis
      using 2(1) by (simp add: tcp_readSomeAppend_def sock_read_stream_def tcp_ok_def)
  next
    case False
    then show ?thesis using tcp_read_delivers [OF 2(1-3)] by blast
  qed
qed

definition tcp_sends :: "socket \<Rightarrow> bool" where
  "tcp_sends s \<longleftrightarrow> is_open s \<and> list_all quiet_tx (tx s)"

lemma sendall_sends:
  assumes "list_all quiet_tx (tx s)" and "length data \<le> tx_room (tx s)"
  shows "\<exists>s'. sendall data (int (length data)) s = Some (SUCCESS, s') \<and> wire s' = wire s @ data \<and>
    list_all quiet_tx (tx s') \<and> tx_room (tx s) - length data \<le> tx_room (tx s') \<and> is_open s' = is_open s"
  using send_loop_sends [of "tx s" 0 data] assms by (auto simp: sendall_def)

lemma sint_data: "length data < 2 ^ 31 \<Longrightarrow> sint (word_of_nat (length data) :: u32) = int (length data)"
  by (simp add: signed_of_nat signed_take_bit_int_eq_self)

interpretation tcp_snk: byte_sink tcp_writeSome tcp_sends "\<lambda>s. tx_room (tx s)" wire
proof (standard, goal_cases)
  case (1 s data)
  then obtain s' where "sendall data (int (length data)) s = Some (SUCCESS, s')"
    "wire s' = wire s @ data" "tcp_sends s'" "tx_room (tx s) - length data \<le> tx_room (tx s')"
    using sendall_sends [of s data] by (auto simp: tcp_sends_def)
  then show ?case
    using 1 by (intro exI [of _ "length data"])
      (simp add: tcp_writeSome_def sock_sendall_stream_def sint_data Let_def tcp_sends_def)
qed

definition cppl_sends :: "bufproc \<Rightarrow> bool" where
  "cppl_sends b \<longleftrightarrow> tcp_sends (sock b)"

interpretation cppl_snk: byte_sink cppl_writeSome cppl_sends "\<lambda>b. tx_room (tx (sock b))" "\<lambda>b. wire (sock b)"
proof (standard, goal_cases)
  case (1 b data)
  then obtain s' where "sendall data (int (length data)) (sock b) = Some (SUCCESS, s')"
    "wire s' = wire (sock b) @ data" "tcp_sends s'"
    "tx_room (tx (sock b)) - length data \<le> tx_room (tx s')"
    using sendall_sends [of "sock b" data] by (auto simp: tcp_sends_def cppl_sends_def)
  then show ?case
    using 1 by (intro exI [of _ "length data"])
      (simp add: cppl_writeSome_def cppl_nix_sendall_stream_def sint_data Let_def cppl_sends_def tcp_sends_def)
qed

text \<open>The buffered pipe: what is pending is the content of the buffer and what will arrive.\<close>

definition cppl_ok :: "bufproc \<Rightarrow> bool" where
  "cppl_ok b \<longleftrightarrow> length (mReadBuffer b) = 1024 \<and> unat (mReadBufferLen b) \<le> 1024 \<and>
     is_open (sock b) \<and> list_all quiet_rx (rx (sock b))"

definition cppl_pending :: "bufproc \<Rightarrow> bytes" where
  "cppl_pending b = take (unat (mReadBufferLen b)) (mReadBuffer b) @ incoming (rx (sock b))"

definition cppl_closed :: "bufproc \<Rightarrow> bool" where
  "cppl_closed b = peer_closes (rx (sock b))"

lemma fillBuffer_fills:
  assumes "cppl_ok b" and "incoming (rx (sock b)) \<noteq> []"
  shows "\<exists>b'. fillBuffer junk b = ret (SUCCESS, b') \<and> cppl_ok b' \<and> cppl_pending b' = cppl_pending b \<and>
    cppl_closed b' = cppl_closed b \<and> mReadBufferLen b' \<noteq> 0 \<and>
    (mReadBufferLen b \<noteq> 1024 \<longrightarrow> mReadBufferLen b < mReadBufferLen b')"
proof (cases "mReadBufferLen b = 1024")
  case True
  then show ?thesis using assms by (simp add: fillBuffer_def mReadBufferSize_def Let_def)
next
  case False
  let ?len = "mReadBufferLen b" and ?s = "sock b"
  let ?rem = "1024 - ?len"
  have len: "unat ?len \<le> 1024" and size: "length (mReadBuffer b) = 1024" using assms(1) by (simp_all add: cppl_ok_def)
  have rem0: "?rem \<noteq> 0" using False by simp
  have "unat ?rem = 1024 - unat ?len" using len by (simp add: unat_sub word_le_nat_alt)
  moreover obtain d es where r: "read_loop ?rem (rx ?s) = Some ((SUCCESS, Some (word_of_nat (length d)), d), es)"
    and d: "d \<noteq> []" "length d \<le> unat ?rem" "incoming (rx ?s) = d @ incoming es" "list_all quiet_rx es"
      "peer_closes es = peer_closes (rx ?s)"
    using read_loop_delivers [of "rx ?s" ?rem] assms rem0 by (auto simp: cppl_ok_def)
  ultimately have fits: "unat ?len + length d \<le> 1024" using len by linarith
  have u: "unat (word_of_nat (length d) :: u32) = length d" by (rule unat_length_u32 [OF d(2)])
  then have sum: "unat (?len + word_of_nat (length d)) = unat ?len + length d"
    using fits by (simp add: unat_add_lem [THEN iffD1])
  then have "?len < ?len + word_of_nat (length d)" using d(1) by (simp add: word_less_nat_alt)
  moreover from this have "?len + word_of_nat (length d) \<noteq> 0" by auto
  moreover have "take (unat ?len + length d) (copy_at (unat ?len) d (mReadBuffer b)) =
      take (unat ?len) (mReadBuffer b) @ d"
    using fits size by (simp add: copy_at_def)
  ultimately show ?thesis
    using r d fits sum assms(1) rem0
    by (simp add: fillBuffer_def mReadBufferSize_def Let_def cppl_nix_read_def cppl_ok_def cppl_pending_def
        cppl_closed_def)
qed

lemma extractBuffer_extracts:
  assumes "cppl_ok b" and "k \<noteq> 0" and "k \<le> mReadBufferLen b" and "k \<le> n"
  shows "\<exists>b'. extractBuffer n k b = Inr ((SUCCESS, take (unat k) (mReadBuffer b)), b') \<and> cppl_ok b' \<and>
    cppl_pending b = take (unat k) (mReadBuffer b) @ cppl_pending b' \<and> cppl_closed b' = cppl_closed b"
proof -
  let ?len = "mReadBufferLen b"
  have len: "unat ?len \<le> 1024" and size: "length (mReadBuffer b) = 1024" using assms(1) by (simp_all add: cppl_ok_def)
  have le: "unat k \<le> unat ?len" using assms(3) by (simp add: word_le_nat_alt)
  have sub: "unat (?len - k) = unat ?len - unat k" using assms(3) by (simp add: unat_sub)
  have "\<not> ?len > 1024" "\<not> k > 1024" using len le by (simp_all add: word_less_nat_alt)
  moreover have "?len \<noteq> 0" using assms(2,3) by auto
  moreover have "take (unat k) (mReadBuffer b) @ take (unat ?len - unat k) (drop (unat k) (mReadBuffer b)) =
      take (unat ?len) (mReadBuffer b)"
    using le by (metis le_add_diff_inverse take_add)
  ultimately show ?thesis
    using assms sub len size
    by (simp add: extractBuffer_def cppl_extract_buffer_def mReadBufferSize_def Let_def not_less
        cppl_ok_def cppl_pending_def cppl_closed_def)
qed

lemma cppl_read_delivers:
  assumes "cppl_ok b" and "n \<noteq> 0" and "n \<le> mReadBufferLen b \<or> incoming (rx (sock b)) \<noteq> [] \<or> mReadBufferLen b = 1024"
  shows "\<exists>d b'. cppl_readSomeAppend junk n out b = ret ((int (length d), out @ d), b') \<and> d \<noteq> [] \<and>
    length d \<le> unat n \<and> cppl_pending b = d @ cppl_pending b' \<and> cppl_ok b' \<and> cppl_closed b' = cppl_closed b"
proof -
  obtain b1 where f: "(if n > mReadBufferLen b then fillBuffer junk b else ret (SUCCESS, b)) = ret (SUCCESS, b1)"
    and b1: "cppl_ok b1" "cppl_pending b1 = cppl_pending b" "cppl_closed b1 = cppl_closed b" "mReadBufferLen b1 \<noteq> 0"
  proof (cases "n \<le> mReadBufferLen b")
    case True
    moreover have "mReadBufferLen b \<noteq> 0" using True assms(2) by auto
    ultimately show ?thesis using that [of b] assms(1) by (simp add: not_less [symmetric])
  next
    case False
    then have "incoming (rx (sock b)) \<noteq> [] \<or> mReadBufferLen b = 1024" using assms(3) by simp
    then obtain b1 where "fillBuffer junk b = ret (SUCCESS, b1)" "cppl_ok b1" "cppl_pending b1 = cppl_pending b"
      "cppl_closed b1 = cppl_closed b" "mReadBufferLen b1 \<noteq> 0"
      using fillBuffer_fills [OF assms(1), of junk] assms(1)
      by (cases "incoming (rx (sock b)) = []") (force simp: fillBuffer_def mReadBufferSize_def)+
    then show ?thesis using that False by (simp add: not_le)
  qed
  define k where "k = (if n \<ge> mReadBufferLen b1 then mReadBufferLen b1 else n)"
  have k: "k \<noteq> 0" "k \<le> mReadBufferLen b1" "k \<le> n" using b1(4) assms(2) by (auto simp: k_def)
  obtain b2 where e: "extractBuffer n k b1 = Inr ((SUCCESS, take (unat k) (mReadBuffer b1)), b2)"
    and b2: "cppl_ok b2" "cppl_pending b1 = take (unat k) (mReadBuffer b1) @ cppl_pending b2"
      "cppl_closed b2 = cppl_closed b1"
    using extractBuffer_extracts [OF b1(1) k] by blast
  have small: "unat k \<le> 1024" "length (mReadBuffer b1) = 1024"
    using b1(1) k(2) by (auto simp: cppl_ok_def word_le_nat_alt)
  then have len: "length (take (unat k) (mReadBuffer b1)) = unat k" by simp
  have "readSome junk n b = ret ((SUCCESS, Some k, take (unat k) (mReadBuffer b1)), b2)"
    unfolding readSome_def f using e by (simp add: k_def [symmetric] Let_def)
  moreover have "sint k = int (unat k)"
    using small(1) sint_length [of "replicate (unat k) (0 :: byte)" k] by simp
  ultimately have "cppl_readSomeAppend junk n out b = ret ((int (unat k), out @ take (unat k) (mReadBuffer b1)), b2)"
    using k(1) by (simp add: cppl_readSomeAppend_def)
  moreover have "unat k \<noteq> 0" using k(1) by (simp add: unat_eq_0)
  moreover have "take (unat k) (mReadBuffer b1) \<noteq> []" using len calculation(2) by (metis length_0_conv)
  ultimately show ?thesis
    using b1 b2 k(3) len by (metis word_le_nat_alt)
qed

interpretation cppl_src: byte_source "cppl_readSomeAppend junk" mx cppl_ok cppl_pending cppl_closed for junk mx
proof (standard, goal_cases)
  case (1 b n out)
  then have "n \<le> mReadBufferLen b \<or> incoming (rx (sock b)) \<noteq> []"
    by (auto simp: cppl_pending_def word_le_nat_alt)
  then show ?case using cppl_read_delivers [OF 1(1,2)] by blast
next
  case (2 b n out)
  show ?case
  proof (cases "n \<le> mReadBufferLen b \<or> incoming (rx (sock b)) \<noteq> [] \<or> mReadBufferLen b = 1024")
    case True
    then show ?thesis using cppl_read_delivers [OF 2(1,2)] by blast
  next
    case False
    then obtain es where "read_loop (1024 - mReadBufferLen b) (rx (sock b)) = Some ((PEER_DISCONNECT, Some 0, []), es)"
      using read_loop_ends [of "rx (sock b)"] 2 by (auto simp: cppl_ok_def cppl_closed_def)
    then show ?thesis
      using 2(1) False
      by (auto simp: cppl_readSomeAppend_def readSome_def fillBuffer_def mReadBufferSize_def Let_def
          cppl_nix_read_def cppl_ok_def)
  qed
qed

text \<open>Reading leaves the sending side of a pipe alone, and writing the receiving side.\<close>

definition sending_side :: "bufproc \<Rightarrow> bool \<times> sent poll list \<times> bytes" where
  "sending_side b = (is_open (sock b), tx (sock b), wire (sock b))"

definition receiving_side :: "bufproc \<Rightarrow> bytes \<times> u32 \<times> bool \<times> received poll list" where
  "receiving_side b = (mReadBuffer b, mReadBufferLen b, is_open (sock b), rx (sock b))"

lemma extractBuffer_keeps: "extractBuffer n k b = Inr (v, b') \<Longrightarrow> sending_side b' = sending_side b"
  by (auto simp: extractBuffer_def run_bind_def sending_side_def split: if_splits sum.splits)

lemma fillBuffer_keeps: "fillBuffer junk b = ret (v, b') \<Longrightarrow> sending_side b' = sending_side b"
  by (auto simp: fillBuffer_def Let_def sending_side_def cppl_nix_read_def ret_def
      split: if_splits option.splits prod.splits)

lemma cppl_read_keeps:
  assumes "cppl_readSomeAppend junk n out b = ret (v, b')"
  shows "sending_side b' = sending_side b"
proof -
  obtain v1 b1 where "readSome junk n b = ret (v1, b1)" "b' = b1"
    using assms by (auto simp: cppl_readSomeAppend_def io_bind_eq_ret split: if_splits option.splits)
  moreover have "sending_side b1 = sending_side b" if "readSome junk n b = ret (v1, b1)"
    using that
    by (auto simp: readSome_def io_bind_eq_ret Let_def split: if_splits sum.splits
        dest!: fillBuffer_keeps extractBuffer_keeps)
  ultimately show ?thesis by simp
qed

lemma cppl_write_keeps:
  "cppl_writeSome data b = ret (v, b') \<Longrightarrow> receiving_side b' = receiving_side b"
  by (auto simp: cppl_writeSome_def Let_def cppl_nix_sendall_stream_def sendall_def receiving_side_def ret_def
      split: option.splits if_splits)

section \<open>Messages over real streams\<close>

text \<open>
  C20. Framing over a pipe: any messages shorter than $2^{31} - 4$ bytes that are written to a
  pipe are all accepted, and a reader that gets the same bytes, cut up by the system in any way,
  with interruptions and timeouts in between and some of them buffered already, reads back
  exactly these messages, in order. The two ends may have different byte orders.
\<close>

lemma pipe_messages_arrive:
  assumes "cppl_sends w" and "wire (sock w) = []" and "\<forall>m \<in> set msgs. length m + 4 < 2 ^ 31"
    and "length (concat (map frame msgs)) \<le> tx_room (tx (sock w))" and "mx \<noteq> 0"
  shows "\<exists>w'. transmit bo cppl_writeSome msgs w = ret (True, w') \<and>
    (\<forall>r. cppl_ok r \<and> cppl_pending r = wire (sock w') \<longrightarrow>
      (\<exists>r'. receive bo' (cppl_readSomeAppend junk) mx (length msgs) r = ret (msgs, r')))"
proof -
  obtain w' where "transmit bo cppl_writeSome msgs w = ret (True, w')"
    and w': "wire (sock w') = concat (map frame msgs)"
    using cppl_snk.transmit_frames [OF assms(1,3,4)] assms(2) by auto
  moreover have "\<forall>m \<in> set msgs. length m < 2 ^ 32" using assms(3) by auto
  ultimately show ?thesis
    using cppl_src.receive_frames [OF _ assms(5), of _ msgs "[]" bo' junk] by fastforce
qed

lemma pipe_messages_arrive_witness:
  "\<exists>w'. transmit SAN_LITTLE_ENDIAN cppl_writeSome [[1, 2], []]
       \<lparr>mReadBuffer = [], mReadBufferLen = 0, sock = \<lparr>is_open = True, rx = [], tx = replicate 10 (Ready False (Taken 3)), wire = []\<rparr>\<rparr> = ret (True, w') \<and>
     (\<forall>r. cppl_ok r \<and> cppl_pending r = wire (sock w') \<longrightarrow>
       (\<exists>r'. receive SAN_BIG_ENDIAN (cppl_readSomeAppend 0) 2048 (Suc (Suc 0)) r = ret ([[1, 2], []], r')))"
  using pipe_messages_arrive [of "\<lparr>mReadBuffer = [], mReadBufferLen = 0, sock = \<lparr>is_open = True, rx = [], tx = replicate 10 (Ready False (Taken 3)), wire = []\<rparr>\<rparr>"
      "[[1, 2], []]" 2048 SAN_LITTLE_ENDIAN SAN_BIG_ENDIAN 0]
  by (simp add: cppl_sends_def tcp_sends_def frame_def list_all_iff tx_room_def
      del: transmit.simps receive.simps)

text \<open>The same between two ends of a TCP connection, whose reader has no buffer of its own.\<close>

lemma tcp_messages_arrive:
  assumes "tcp_sends w" and "wire w = []" and "\<forall>m \<in> set msgs. length m + 4 < 2 ^ 31"
    and "length (concat (map frame msgs)) \<le> tx_room (tx w)" and "mx \<noteq> 0"
  shows "\<exists>w'. transmit bo tcp_writeSome msgs w = ret (True, w') \<and>
    (\<forall>r. tcp_ok mx r \<and> tcp_pending r = wire w' \<longrightarrow>
      (\<exists>r'. receive bo' (tcp_readSomeAppend mx) mx (length msgs) r = ret (msgs, r')))"
proof -
  obtain w' where "transmit bo tcp_writeSome msgs w = ret (True, w')"
    and w': "wire w' = concat (map frame msgs)"
    using tcp_snk.transmit_frames [OF assms(1,3,4)] assms(2) by auto
  moreover have "\<forall>m \<in> set msgs. length m < 2 ^ 32" using assms(3) by auto
  ultimately show ?thesis
    using tcp_src.receive_frames [OF _ assms(5), of _ msgs "[]" bo'] by fastforce
qed

text \<open>
  A message cut short by the end of the connection is refused, never delivered in part, on
  either kind of stream.
\<close>

lemma truncated_message_refused:
  assumes "frame msg = received @ missing" and "missing \<noteq> []" and "length msg < 2 ^ 32" and "mx \<noteq> 0"
  shows "(cppl_ok r \<and> cppl_pending r = received \<and> cppl_closed r \<longrightarrow>
       (\<exists>out r'. readMessage bo (cppl_readSomeAppend junk) mx r = ret ((False, out), r'))) \<and>
    (tcp_ok mx s \<and> tcp_pending s = received \<and> tcp_closed s \<longrightarrow>
       (\<exists>out s'. readMessage bo (tcp_readSomeAppend mx) mx s = ret ((False, out), s')))"
  using assms cppl_src.readMessage_truncated [of r mx msg missing bo junk]
    tcp_src.readMessage_truncated [of mx s msg missing bo] by auto

text \<open>
  C27. A failing \<^verbatim>\<open>recv\<close> is not reported, because an unsigned count is compared with 0. On a
  pipe whose buffer holds at most one byte the assertion of \<^verbatim>\<open>cppl_extract_buffer\<close> stops the
  program; with more bytes buffered, though fewer than asked for and than the buffer holds, the read
  succeeds, with all of them but the last, which is lost. On a TCP stream the copy runs past the end of the
  read buffer.
\<close>

lemma failed_recv_is_fatal:
  assumes "is_open s" and "rx s = Ready False RecvFails # es" and "L < n" and "L < mReadBufferSize" and "mx \<noteq> -1"
  shows "cppl_readSomeAppend junk n out \<lparr>mReadBuffer = buf, mReadBufferLen = L, sock = s\<rparr> =
      (if L \<le> 1 then Some (Inl AssertionFailed)
       else ret ((int (unat L) - 1, out @ take (unat L - 1) buf),
         \<lparr>mReadBuffer = buf, mReadBufferLen = 0, sock = s\<lparr>rx := es\<rparr>\<rparr>)) \<and>
    tcp_readSomeAppend mx n out s = Some (Inl OutOfRange)"
proof
  have r: "read_loop k (rx s) = Some ((SUCCESS, Some (-1), []), es)" for k using assms(2) by simp
  have L: "unat L < 1024" "unat L < unat n" using assms(3,4) by (simp_all add: word_less_nat_alt mReadBufferSize_def)
  have "mReadBufferSize - L \<noteq> 0" using assms(4) by auto
  then have fill: "fillBuffer junk \<lparr>mReadBuffer = buf, mReadBufferLen = L, sock = s\<rparr> =
      ret (SUCCESS, \<lparr>mReadBuffer = buf, mReadBufferLen = L - 1, sock = s\<lparr>rx := es\<rparr>\<rparr>)"
    using assms(1) r L(1) by (simp add: fillBuffer_def Let_def cppl_nix_read_def mReadBufferSize_def copy_at_def)
  show "cppl_readSomeAppend junk n out \<lparr>mReadBuffer = buf, mReadBufferLen = L, sock = s\<rparr> =
      (if L \<le> 1 then Some (Inl AssertionFailed)
       else ret ((int (unat L) - 1, out @ take (unat L - 1) buf),
         \<lparr>mReadBuffer = buf, mReadBufferLen = 0, sock = s\<lparr>rx := es\<rparr>\<rparr>))"
  proof (cases "L \<le> 1")
    case True
    then have "unat L = 0 \<or> unat L = 1" by (auto simp: word_le_nat_alt)
    then consider "L = 0" | "L = 1" by (auto simp: word_unat_eq_iff)
    then show ?thesis
      using assms(3) fill True by cases (auto simp: cppl_readSomeAppend_def readSome_def extractBuffer_def Let_def
        cppl_extract_buffer_def mReadBufferSize_def)
  next
    case False
    then have "1 < unat L" by (simp add: word_le_nat_alt)
    then have l: "unat (L - 1) = unat L - 1" using unat_sub [of 1 L] by (simp add: word_le_nat_alt)
    then have s: "sint (L - 1) = int (unat L) - 1"
      using L(1) \<open>1 < unat L\<close> sint_data [of "replicate (unat (L - 1)) (0 :: byte)"] by simp
    have "L - 1 \<le> n" "L - 1 \<noteq> 0" "L - 1 \<le> mReadBufferSize" "L - 1 \<noteq> 0 \<and> \<not> mReadBufferSize < L - 1"
      using l L \<open>1 < unat L\<close> by (auto simp: word_le_nat_alt word_less_nat_alt mReadBufferSize_def unat_eq_0)
    then show ?thesis
      using assms(3) fill False l s by (auto simp: cppl_readSomeAppend_def readSome_def extractBuffer_def Let_def
        cppl_extract_buffer_def)
  qed
  have "mx < -1" using assms(5) by (simp add: word_order.not_eq_extremum)
  moreover have "n > 0" using assms(3) by (metis word_gt_0 word_not_simps(1))
  ultimately show "tcp_readSomeAppend mx n out s = Some (Inl OutOfRange)"
    using assms(1) r by (auto simp: tcp_readSomeAppend_def sock_read_stream_def)
qed

lemma failed_recv_is_fatal_witness:
  "cppl_readSomeAppend 0 4 [] \<lparr>mReadBuffer = [5, 6, 7], mReadBufferLen = 3,
       sock = \<lparr>is_open = True, rx = [Ready False RecvFails], tx = [], wire = []\<rparr>\<rparr> =
     ret ((2, [5, 6]), \<lparr>mReadBuffer = [5, 6, 7], mReadBufferLen = 0,
       sock = \<lparr>is_open = True, rx = [], tx = [], wire = []\<rparr>\<rparr>) \<and>
   tcp_readSomeAppend 2048 4 [] \<lparr>is_open = True, rx = [Ready False RecvFails], tx = [], wire = []\<rparr> =
     Some (Inl OutOfRange)"
  using failed_recv_is_fatal [of "\<lparr>is_open = True, rx = [Ready False RecvFails], tx = [], wire = []\<rparr>" "[]" 3 4 2048
      0 "[]" "[5, 6, 7]"]
  by (simp add: mReadBufferSize_def word_le_nat_alt)

end
