(* ===== verification/Lines.thy ===== *)
theory Lines
  imports Sockets
begin

text \<open>
  Lines of text over a buffered pipe: the reading of lines and the sending of strings of
  \<^verbatim>\<open>src/cppl/bufferprocessor.cpp\<close>. The lemmas say what a call of \<^verbatim>\<open>readLine\<close> gives for
  any pending bytes, however they arrive; the locale \<open>console\<close> is what its callers rely on.
\<close>

section \<open>Reading\<close>

primrec find_from :: "byte \<Rightarrow> nat \<Rightarrow> bytes \<Rightarrow> bool \<times> nat" where
  "find_from delimeter i [] = (False, i)"
| "find_from delimeter i (c # cs) = (if c = delimeter then (True, i) else find_from delimeter (Suc i) cs)"

definition findCharacter :: "bytes \<Rightarrow> u32 \<Rightarrow> byte \<Rightarrow> (bool \<times> u32) run" where
  "findCharacter buf len delimeter =
     (case find_from delimeter 0 (take (unat len) buf) of (found, index) \<Rightarrow>
        if \<not> found \<and> unat len > length buf then Inl OutOfRange else Inr (found, word_of_nat index))"

definition bufferFull :: "bufproc \<Rightarrow> bool" where
  "bufferFull b \<longleftrightarrow> mReadBufferSize = mReadBufferLen b"

text \<open>
  The thread's flag is a script: what \<^verbatim>\<open>isTerminated()\<close> answers at the head of each round,
  false when it has run out. The delimiter that is looked for is always a line feed. The state is the
  caller's \<^verbatim>\<open>*outputLen\<close> and \<^verbatim>\<open>output\<close>, the script and the buffer.
\<close>

type_synonym delimiting = "(u32 \<times> bytes) \<times> bool list \<times> bufproc"

definition delimeter_round :: "u32 \<Rightarrow> u32 \<Rightarrow> byte \<Rightarrow> delimiting \<Rightarrow> (ErrorCode option \<times> delimiting) io" where
  "delimeter_round junk outputSize delimeter = (\<lambda>((outputLen, output), stops, b).
     let stopped = (case stops of [] \<Rightarrow> False | t # _ \<Rightarrow> t); stops = tl stops
     in if stopped then ret (Some TERMINATED, (outputLen, output), stops, b)
        else case findCharacter (mReadBuffer b) (mReadBufferLen b) 0x0A of
          Inl e \<Rightarrow> Some (Inl e)
        | Inr (found, outputLen) \<Rightarrow>
            if found then
              let outputLen = outputLen + 1
              in case extractBuffer outputSize outputLen b of
                   Inl e \<Rightarrow> Some (Inl e)
                 | Inr ((rval, out), b) \<Rightarrow> ret (Some rval, (outputLen, copy_at 0 out output), stops, b)
            else if bufferFull b then ret (Some SEGMENT_TOO_LONG, (outputLen, output), stops, b)
            else io_bind (fillBuffer junk b) (\<lambda>(rval, b).
              if rval = FAILURE then Some (Inl AssertionFailed)
              else if rval \<noteq> SUCCESS then ret (Some rval, (outputLen, output), stops, b)
              else ret (None, (outputLen, output), stops, b)))"

definition readDelimeter :: "u32 \<Rightarrow> u32 \<Rightarrow> byte \<Rightarrow> delimiting \<Rightarrow> (ErrorCode \<times> delimiting) io" where
  "readDelimeter junk outputSize delimeter s = io_loop (delimeter_round junk outputSize delimeter) s"

text \<open>\<^verbatim>\<open>line[i] >= 0\<close> is a comparison of a signed \<^verbatim>\<open>char\<close>.\<close>

definition illegal_character :: "byte \<Rightarrow> bool" where
  "illegal_character c \<longleftrightarrow> 0 \<le> sint c \<and> sint c \<le> 9 \<or> 11 \<le> sint c \<and> sint c \<le> 31"

text \<open>\<open>line\<close> is the caller's array; \<open>lineLen0\<close> what the uninitialised \<^verbatim>\<open>lineLen\<close> holds.\<close>

type_synonym line_reader_state = "bool list \<times> bufproc"

definition readLine :: "u32 \<Rightarrow> u32 \<Rightarrow> u32 \<Rightarrow> bytes \<Rightarrow> line_reader_state \<Rightarrow> ((ErrorCode \<times> bytes) \<times> line_reader_state) io" where
  "readLine junk lineLen0 lineSize line = (\<lambda>(stops, b).
     io_bind (readDelimeter junk lineSize 0x0A ((lineLen0, line), stops, b)) (\<lambda>(rval, (lineLen, line), stops, b).
       if rval \<noteq> SUCCESS then ret ((rval, line), stops, b)
       else if lineLen = 0 then ret ((SUCCESS, line), stops, b)
       else if list_ex illegal_character (take (unat lineLen) line)
       then ret ((ILLEGAL_CHARACTER_RECEIVED, line), stops, b)
       else if line ! unat (lineLen - 1) \<noteq> 0x0A then ret ((FAILURE, line), stops, b)
       else ret ((SUCCESS, line[unat (lineLen - 1) := 0]), stops, b)))"

text \<open>A C string in an array.\<close>

definition c_string :: "bytes \<Rightarrow> string" where
  "c_string line = bytes2string (takeWhile (\<lambda>c. c \<noteq> 0) line)"

section \<open>Sending\<close>

definition send_bytes :: "bytes \<Rightarrow> int \<Rightarrow> bufproc \<Rightarrow> (ErrorCode \<times> bufproc) io" where
  "send_bytes data len b =
     (case cppl_nix_sendall_stream data len (sock b) of None \<Rightarrow> None | Some (code, s') \<Rightarrow> ret (code, b\<lparr>sock := s'\<rparr>))"

text \<open>What of a string comes before its first NUL is sent.\<close>

definition printed :: "string \<Rightarrow> string" where
  "printed nullTerminatedString = takeWhile (\<lambda>c. c \<noteq> CHR 0x00) nullTerminatedString"

definition send_string :: "string \<Rightarrow> bufproc \<Rightarrow> (ErrorCode \<times> bufproc) io" where
  "send_string nullTerminatedString b =
     (let s = printed nullTerminatedString;
          len = sint (word_of_nat (length s) :: u32)
      in if len = 0 then ret (SUCCESS, b) else send_bytes (string2bytes s) len b)"

text \<open>\<open>sends\<close> is the sending of a string, whose last step is a virtual function.\<close>

definition sendLine :: "(string \<Rightarrow> 's \<Rightarrow> (ErrorCode \<times> 's) io) \<Rightarrow> string \<Rightarrow> 's \<Rightarrow> (ErrorCode \<times> 's) io" where
  "sendLine sends nullTerminatedString s =
     io_bind (sends nullTerminatedString s) (\<lambda>(rval, s).
       if rval \<noteq> SUCCESS then ret (rval, s) else sends [CHR 0x0A] s)"

definition sendLine_empty :: "(string \<Rightarrow> 's \<Rightarrow> (ErrorCode \<times> 's) io) \<Rightarrow> 's \<Rightarrow> (ErrorCode \<times> 's) io" where
  "sendLine_empty sends s = sends [CHR 0x0A] s"

section \<open>What a read gives\<close>

text \<open>
  The outcome for the bytes \<open>p\<close> that are pending, with a buffer of 1024 bytes and an output of
  \<open>sz\<close>: the code, what is taken and what is left.
\<close>

definition delimited :: "nat \<Rightarrow> bytes \<Rightarrow> ErrorCode \<times> bytes \<times> bytes" where
  "delimited sz p =
     (let l = takeWhile (\<lambda>c. c \<noteq> 0x0A) p
      in if length l < 1024 \<and> length l < length p then
           (if length l < sz then (SUCCESS, l @ [0x0A], drop (Suc (length l)) p) else (BUFFER_TO_SMALL, [], p))
         else (if 1024 \<le> length p then SEGMENT_TOO_LONG else PEER_DISCONNECT, [], p))"

lemma find_from_eq:
  "find_from d i xs = (d \<in> set xs, i + length (takeWhile (\<lambda>c. c \<noteq> d) xs))"
  by (induction xs arbitrary: i) auto

lemma findCharacter_eq:
  assumes "cppl_ok b"
  shows "findCharacter (mReadBuffer b) (mReadBufferLen b) d =
    Inr (d \<in> set (take (unat (mReadBufferLen b)) (mReadBuffer b)),
      word_of_nat (length (takeWhile (\<lambda>c. c \<noteq> d) (take (unat (mReadBufferLen b)) (mReadBuffer b)))))"
  using assms by (auto simp: findCharacter_def find_from_eq cppl_ok_def)

lemma takeWhile_found: "d \<in> set xs \<Longrightarrow> takeWhile (\<lambda>c. c \<noteq> d) (xs @ ys) = takeWhile (\<lambda>c. c \<noteq> d) xs"
  by (induction xs) auto

lemma unat_small_Suc: "n < 1024 \<Longrightarrow> unat (word_of_nat n + 1 :: u32) = Suc n"
  by (simp add: unsigned_of_nat take_bit_nat_eq_self flip: of_nat_Suc add.commute [of 1])

lemma takeWhile_not_found: "d \<notin> set xs \<Longrightarrow> takeWhile (\<lambda>c. c \<noteq> d) xs = xs"
  by (simp add: takeWhile_eq_all_conv) metis

lemma takeWhile_shorter: "d \<in> set xs \<longleftrightarrow> length (takeWhile (\<lambda>c. c \<noteq> d) xs) < length xs"
  by (induction xs) auto

lemma take_found: "d \<in> set xs \<Longrightarrow>
    take (Suc (length (takeWhile (\<lambda>c. c \<noteq> d) xs))) xs = takeWhile (\<lambda>c. c \<noteq> d) xs @ [d]"
  by (induction xs) auto

lemma fillBuffer_ends:
  assumes "cppl_ok b" and "cppl_closed b" and "incoming (rx (sock b)) = []" and "mReadBufferLen b \<noteq> 1024"
  shows "\<exists>b'. fillBuffer junk b = ret (PEER_DISCONNECT, b')"
proof -
  obtain es where "read_loop (1024 - mReadBufferLen b) (rx (sock b)) = Some ((PEER_DISCONNECT, Some 0, []), es)"
    using read_loop_ends [of "rx (sock b)"] assms by (auto simp: cppl_ok_def cppl_closed_def)
  then show ?thesis
    using assms(1,4) by (simp add: fillBuffer_def mReadBufferSize_def Let_def cppl_nix_read_def cppl_ok_def)
qed

definition same_ends :: "bufproc \<Rightarrow> bufproc \<Rightarrow> bool" where
  "same_ends b b' \<longleftrightarrow> cppl_ok b' \<and> sending_side b' = sending_side b \<and> cppl_closed b' = cppl_closed b"

lemma delimeter_round_found:
  assumes "cppl_ok b" and "\<not> (stops \<noteq> [] \<and> hd stops)" and "0x0A \<in> set (take (unat (mReadBufferLen b)) (mReadBuffer b))"
    and "delimited (unat sz) (cppl_pending b) = (code, taken, rest)"
  shows "\<exists>n b'. delimeter_round junk sz d ((n0, output), stops, b) =
      ret (Some code, (n, copy_at 0 taken output), tl stops, b') \<and> same_ends b b' \<and> cppl_pending b' = rest \<and>
      (code = SUCCESS \<longrightarrow> unat n = length taken) \<and> (code = SUCCESS \<or> code = BUFFER_TO_SMALL)"
proof -
  let ?buf = "take (unat (mReadBufferLen b)) (mReadBuffer b)"
  let ?l = "takeWhile (\<lambda>c. c \<noteq> 0x0A) ?buf"
  define k :: u32 where "k = word_of_nat (length ?l) + 1"
  have size: "unat (mReadBufferLen b) \<le> 1024" "length (mReadBuffer b) = 1024" using assms(1) by (simp_all add: cppl_ok_def)
  have less: "length ?l < length ?buf" by (rule takeWhile_shorter [THEN iffD1, OF assms(3)])
  then have l: "length ?l < unat (mReadBufferLen b)" using size by simp
  then have k: "unat k = Suc (length ?l)" unfolding k_def using size by (intro unat_small_Suc) linarith
  have stop: "(case stops of [] \<Rightarrow> False | t # _ \<Rightarrow> t) = False" using assms(2) by (cases stops) simp_all
  have p: "takeWhile (\<lambda>c. c \<noteq> 0x0A) (cppl_pending b) = ?l" unfolding cppl_pending_def by (rule takeWhile_found [OF assms(3)])
  have "length ?l < 1024 \<and> length ?l < length (cppl_pending b)"
    using less l size by (simp add: cppl_pending_def)
  then have d: "(code, taken, rest) = (if length ?l < unat sz then (SUCCESS, ?l @ [0x0A], drop (Suc (length ?l)) (cppl_pending b))
      else (BUFFER_TO_SMALL, [], cppl_pending b))"
    using assms(4) unfolding delimited_def p by (simp add: Let_def)
  show ?thesis
  proof (cases "length ?l < unat sz")
    case True
    then have "k \<le> sz" "k \<noteq> 0" "k \<le> mReadBufferLen b" using k l by (auto simp: word_le_nat_alt)
    then obtain b' where b': "extractBuffer sz k b = Inr ((SUCCESS, take (unat k) (mReadBuffer b)), b')" "cppl_ok b'"
      "cppl_pending b = take (unat k) (mReadBuffer b) @ cppl_pending b'" "cppl_closed b' = cppl_closed b"
      using extractBuffer_extracts [OF assms(1), of k sz] by blast
    have "take (unat k) (mReadBuffer b) = take (unat k) ?buf" using k l by simp
    also have "\<dots> = ?l @ [0x0A]" using take_found [OF assms(3)] k by simp
    finally have t: "take (unat k) (mReadBuffer b) = ?l @ [0x0A]" .
    moreover have "cppl_pending b' = drop (Suc (length ?l)) (cppl_pending b)"
      using b'(3) t by (metis append_eq_conv_conj length_append_singleton)
    ultimately show ?thesis
      using b' d True k extractBuffer_keeps [OF b'(1)] stop
      by (simp add: delimeter_round_def findCharacter_eq [OF assms(1)] assms(3) Let_def k_def [symmetric] same_ends_def)
  next
    case False
    then have "k > sz" using k by (simp add: word_less_nat_alt)
    then show ?thesis
      using d False stop assms(1)
      by (simp add: delimeter_round_def findCharacter_eq [OF assms(1)] assms(3) Let_def k_def [symmetric] same_ends_def
          extractBuffer_def copy_at_def)
  qed
qed


lemma delimited_none: "0x0A \<notin> set p \<Longrightarrow> length p < 1024 \<Longrightarrow> delimited sz p = (PEER_DISCONNECT, [], p)"
  by (simp add: delimited_def takeWhile_not_found)

lemma delimeter_round_waits:
  assumes "cppl_ok b" and "\<not> (stops \<noteq> [] \<and> hd stops)" and "0x0A \<notin> set (take (unat (mReadBufferLen b)) (mReadBuffer b))"
    and "mReadBufferLen b \<noteq> 1024"
  shows "\<exists>n. delimeter_round junk sz d ((n0, output), stops, b) =
    io_bind (fillBuffer junk b) (\<lambda>(rval, b).
      if rval = FAILURE then Some (Inl AssertionFailed)
      else if rval \<noteq> SUCCESS then ret (Some rval, (n, output), tl stops, b)
      else ret (None, (n, output), tl stops, b))"
proof -
  have "(case stops of [] \<Rightarrow> False | t # _ \<Rightarrow> t) = False" using assms(2) by (cases stops) simp_all
  then show ?thesis
    using assms(1,3,4)
    by (intro exI) (simp add: delimeter_round_def findCharacter_eq Let_def bufferFull_def mReadBufferSize_def)
qed

lemma readDelimeter_gives:
  assumes "cppl_ok b" and "list_all Not stops" and "delimited (unat sz) (cppl_pending b) = (code, taken, rest)"
    and "code = PEER_DISCONNECT \<longrightarrow> cppl_closed b"
  shows "\<exists>n stops' b'. readDelimeter junk sz d ((n0, output), stops, b) =
      ret (code, (n, copy_at 0 taken output), stops', b') \<and> list_all Not stops' \<and> sending_side b' = sending_side b \<and>
      (code \<noteq> PEER_DISCONNECT \<longrightarrow> same_ends b b' \<and> cppl_pending b' = rest) \<and>
      (code = SUCCESS \<longrightarrow> unat n = length taken)"
  using assms
proof (induction "1024 - unat (mReadBufferLen b)" arbitrary: b stops n0 rule: less_induct)
  case less
  let ?buf = "take (unat (mReadBufferLen b)) (mReadBuffer b)"
  have go: "\<not> (stops \<noteq> [] \<and> hd stops)" "list_all Not (tl stops)" using less.prems(2) by (cases stops; simp)+
  have size: "unat (mReadBufferLen b) \<le> 1024" "length (mReadBuffer b) = 1024" using less.prems(1) by (simp_all add: cppl_ok_def)
  show ?case
  proof (cases "0x0A \<in> set ?buf")
    case True
    then show ?thesis
      using delimeter_round_found [OF less.prems(1) go(1) True less.prems(3), of junk d n0 "output"] go(2)
      unfolding readDelimeter_def same_ends_def by (fastforce intro: io_loop_leaves)
  next
    case nl: False
    show ?thesis
    proof (cases "mReadBufferLen b = 1024")
      case True
      then have "?buf = mReadBuffer b" using size by simp
      then have p: "takeWhile (\<lambda>c. c \<noteq> 0x0A) (cppl_pending b) =
          mReadBuffer b @ takeWhile (\<lambda>c. c \<noteq> 0x0A) (incoming (rx (sock b)))" "length (cppl_pending b) \<ge> 1024"
        using nl size by (auto simp: cppl_pending_def takeWhile_append)
      then have "\<not> length (takeWhile (\<lambda>c. c \<noteq> 0x0A) (cppl_pending b)) < 1024" using size by simp
      then have d: "code = SEGMENT_TOO_LONG" "taken = []" "rest = cppl_pending b"
        using less.prems(3) p(2) by (simp_all add: delimited_def Let_def)
      have "(case stops of [] \<Rightarrow> False | t # _ \<Rightarrow> t) = False" using go(1) by (cases stops) simp_all
      moreover have "bufferFull b" using True by (simp add: bufferFull_def mReadBufferSize_def)
      moreover obtain i where "findCharacter (mReadBuffer b) (mReadBufferLen b) 0x0A = Inr (False, i)"
        using findCharacter_eq [OF less.prems(1)] nl by auto
      ultimately have "\<exists>n. delimeter_round junk sz d ((n0, output), stops, b) = ret (Some SEGMENT_TOO_LONG, (n, output), tl stops, b)"
        by (intro exI) (simp add: delimeter_round_def Let_def)
      then show ?thesis
        using go(2) less.prems(1) unfolding readDelimeter_def d
        by (fastforce intro: io_loop_leaves simp: same_ends_def copy_at_def)
    next
      case False
      obtain n where round: "delimeter_round junk sz d ((n0, output), stops, b) =
          io_bind (fillBuffer junk b) (\<lambda>(rval, b).
            if rval = FAILURE then Some (Inl AssertionFailed)
            else if rval \<noteq> SUCCESS then ret (Some rval, (n, output), tl stops, b)
            else ret (None, (n, output), tl stops, b))"
        using delimeter_round_waits [OF less.prems(1) go(1) nl False] by blast
      show ?thesis
      proof (cases "incoming (rx (sock b)) = []")
        case True
        then have p: "cppl_pending b = ?buf" by (simp add: cppl_pending_def)
        have short: "unat (mReadBufferLen b) < 1024" using size(1) False by (simp add: order.strict_iff_order word_unat_eq_iff)
        then have "delimited (unat sz) ?buf = (PEER_DISCONNECT, [], ?buf)" by (intro delimited_none nl) simp
        then have d: "code = PEER_DISCONNECT" "taken = []" using less.prems(3) unfolding p by simp_all
        then obtain b' where f: "fillBuffer junk b = ret (PEER_DISCONNECT, b')"
          using fillBuffer_ends [OF less.prems(1) _ True False] less.prems(4) by blast
        then have "delimeter_round junk sz d ((n0, output), stops, b) = ret (Some PEER_DISCONNECT, (n, output), tl stops, b')"
          unfolding round by simp
        then show ?thesis
          using go(2) fillBuffer_keeps [OF f] unfolding readDelimeter_def d
          by (fastforce intro: io_loop_leaves simp: copy_at_def)
      next
        case more: False
        obtain b' where f: "fillBuffer junk b = ret (SUCCESS, b')" "cppl_ok b'" "cppl_pending b' = cppl_pending b"
          "cppl_closed b' = cppl_closed b" "mReadBufferLen b < mReadBufferLen b'"
          using fillBuffer_fills [OF less.prems(1) more, of junk] False by blast
        then have loop: "readDelimeter junk sz d ((n0, output), stops, b) = readDelimeter junk sz d ((n, output), tl stops, b')"
          unfolding readDelimeter_def by (intro io_loop_round) (simp add: round)
        have "unat (mReadBufferLen b') \<le> 1024" using f(2) by (simp add: cppl_ok_def)
        then have "1024 - unat (mReadBufferLen b') < 1024 - unat (mReadBufferLen b)" using f(5) by (simp add: word_less_nat_alt)
        from less.hyps [OF this f(2) go(2), of n]
        show ?thesis using f fillBuffer_keeps [OF f(1)] less.prems(3,4) unfolding loop same_ends_def by simp
      qed
    qed
  qed
qed


section \<open>A console\<close>

text \<open>A line that \<^verbatim>\<open>readLine\<close> takes, into an array of \<open>sz\<close> bytes.\<close>

definition plain_line :: "nat \<Rightarrow> string \<Rightarrow> bool" where
  "plain_line sz l \<longleftrightarrow> length l < sz \<and> length l < 1024 \<and>
     list_all (\<lambda>c. \<not> illegal_character c \<and> c \<noteq> 0x0A) (string2bytes l)"

definition lines_of :: "string list \<Rightarrow> bytes" where
  "lines_of ls = concat (map (\<lambda>l. string2bytes l @ [0x0A]) ls)"

text \<open>
  What the callers of \<^verbatim>\<open>send\<close> and \<^verbatim>\<open>readLine\<close> rely on: a text for which there is room goes out
  completely, and a plain line comes in as it was written, or the end of the connection is
  reported; neither touches the other direction.
\<close>

locale console =
  fixes sends :: "string \<Rightarrow> 's \<Rightarrow> (ErrorCode \<times> 's) io"
    and reads :: "'s \<Rightarrow> ((ErrorCode \<times> string) \<times> 's) io"
    and sz :: nat and ok :: "'s \<Rightarrow> bool" and pending :: "'s \<Rightarrow> bytes" and closed :: "'s \<Rightarrow> bool"
    and said :: "'s \<Rightarrow> bytes" and room :: "'s \<Rightarrow> nat"
  assumes send_goes: "ok s \<Longrightarrow> length (printed str) \<le> room s \<Longrightarrow>
      \<exists>s'. sends str s = ret (SUCCESS, s') \<and> ok s' \<and> pending s' = pending s \<and> closed s' = closed s \<and>
        said s' = said s @ string2bytes (printed str) \<and> room s - length (printed str) \<le> room s'"
    and read_gives: "ok s \<Longrightarrow> pending s = string2bytes l @ 0x0A # rest \<Longrightarrow> plain_line sz l \<Longrightarrow>
      \<exists>s'. reads s = ret ((SUCCESS, l), s') \<and> ok s' \<and> pending s' = rest \<and> closed s' = closed s \<and>
        said s' = said s \<and> room s' = room s"
    and read_ends: "ok s \<Longrightarrow> pending s = [] \<Longrightarrow> closed s \<Longrightarrow>
      \<exists>l s'. reads s = ret ((PEER_DISCONNECT, l), s') \<and> said s' = said s"
begin

lemma sendLine_goes:
  assumes "ok s" and "Suc (length (printed str)) \<le> room s"
  shows "\<exists>s'. sendLine sends str s = ret (SUCCESS, s') \<and> ok s' \<and> pending s' = pending s \<and> closed s' = closed s \<and>
    said s' = said s @ string2bytes (printed str @ [CHR 0x0A]) \<and> room s - Suc (length (printed str)) \<le> room s'"
proof -
  obtain s1 where s1: "sends str s = ret (SUCCESS, s1)" "ok s1" "pending s1 = pending s" "closed s1 = closed s"
    "said s1 = said s @ string2bytes (printed str)" "room s - length (printed str) \<le> room s1"
    using send_goes [of s str] assms by auto
  moreover have "printed [CHR 0x0A] = [CHR 0x0A]" by (simp add: printed_def)
  ultimately obtain s2 where "sends [CHR 0x0A] s1 = ret (SUCCESS, s2)" "ok s2" "pending s2 = pending s1"
    "closed s2 = closed s1" "said s2 = said s1 @ string2bytes [CHR 0x0A]" "room s1 - 1 \<le> room s2"
    using send_goes [of s1 "[CHR 0x0A]"] assms(2) by fastforce
  then show ?thesis using s1 by (simp add: sendLine_def string2bytes_def)
qed

end

section \<open>The pipe is a console\<close>

text \<open>The caller's array, the script of the flag and the buffered pipe. \<open>lineSize\<close> is the size of the array.\<close>

type_synonym pipe_console = "bytes \<times> bool list \<times> bufproc"

definition pipe_say :: "string \<Rightarrow> pipe_console \<Rightarrow> (ErrorCode \<times> pipe_console) io" where
  "pipe_say str = (\<lambda>(line, stops, b). io_bind (send_string str b) (\<lambda>(rval, b). ret (rval, line, stops, b)))"

definition pipe_readLine :: "u32 \<Rightarrow> u32 \<Rightarrow> u32 \<Rightarrow> pipe_console \<Rightarrow> ((ErrorCode \<times> string) \<times> pipe_console) io" where
  "pipe_readLine junk lineLen0 lineSize = (\<lambda>(line, stops, b).
     io_bind (readLine junk lineLen0 lineSize line (stops, b)) (\<lambda>((rval, line), stops, b).
       ret ((rval, c_string line), line, stops, b)))"

definition pipe_ok :: "u32 \<Rightarrow> pipe_console \<Rightarrow> bool" where
  "pipe_ok lineSize = (\<lambda>(line, stops, b). length line = unat lineSize \<and> list_all Not stops \<and> cppl_ok b \<and> cppl_sends b)"

definition pipe_pending :: "pipe_console \<Rightarrow> bytes" where "pipe_pending = (\<lambda>(line, stops, b). cppl_pending b)"
definition pipe_closed :: "pipe_console \<Rightarrow> bool" where "pipe_closed = (\<lambda>(line, stops, b). cppl_closed b)"
definition pipe_said :: "pipe_console \<Rightarrow> bytes" where "pipe_said = (\<lambda>(line, stops, b). wire (sock b))"
definition pipe_room :: "pipe_console \<Rightarrow> nat" where
  "pipe_room = (\<lambda>(line, stops, b). min (tx_room (tx (sock b))) (2 ^ 31 - 1))"

lemmas pipe_console_defs = pipe_ok_def pipe_pending_def pipe_closed_def pipe_said_def pipe_room_def

lemma send_string_goes:
  assumes "cppl_ok b" and "cppl_sends b" and "length (printed str) \<le> tx_room (tx (sock b))" and "length (printed str) < 2 ^ 31"
  shows "\<exists>b'. send_string str b = ret (SUCCESS, b') \<and> cppl_ok b' \<and> cppl_sends b' \<and> receiving_side b' = receiving_side b \<and>
    wire (sock b') = wire (sock b) @ string2bytes (printed str) \<and>
    tx_room (tx (sock b)) - length (printed str) \<le> tx_room (tx (sock b'))"
proof (cases "printed str = []")
  case True
  then show ?thesis using assms by (simp add: send_string_def string2bytes_def)
next
  case False
  obtain s' where s': "sendall (string2bytes (printed str)) (int (length (printed str))) (sock b) = Some (SUCCESS, s')"
    "wire s' = wire (sock b) @ string2bytes (printed str)" "list_all quiet_tx (tx s')"
    "tx_room (tx (sock b)) - length (printed str) \<le> tx_room (tx s')" "is_open s' = is_open (sock b)"
    using sendall_sends [of "sock b" "string2bytes (printed str)"] assms by (auto simp: cppl_sends_def tcp_sends_def)
  moreover have "rx s' = rx (sock b)" using s'(1) by (auto simp: sendall_def)
  ultimately show ?thesis
    using assms False sint_data [of "string2bytes (printed str)"]
    by (auto simp: send_string_def send_bytes_def cppl_nix_sendall_stream_def Let_def cppl_sends_def tcp_sends_def cppl_ok_def
        receiving_side_def)
qed

lemma delimited_plain:
  "plain_line sz l \<Longrightarrow> delimited sz (string2bytes l @ 0x0A # rest) = (SUCCESS, string2bytes l @ [0x0A], rest)"
proof -
  assume "plain_line sz l"
  then have "takeWhile (\<lambda>c. c \<noteq> 0x0A) (string2bytes l @ 0x0A # rest) = string2bytes l" "length l < sz" "length l < 1024"
    by (auto simp: plain_line_def list_all_iff takeWhile_append)
  then show ?thesis by (simp add: delimited_def Let_def)
qed

lemma readLine_plain:
  assumes "cppl_ok b" and "list_all Not stops" and "cppl_pending b = string2bytes l @ 0x0A # rest"
    and "plain_line (unat sz) l" and "length line = unat sz"
  shows "\<exists>stops' b'. readLine junk lineLen0 sz line (stops, b) =
      ret ((SUCCESS, copy_at 0 (string2bytes l @ [0]) line), stops', b') \<and> list_all Not stops' \<and>
      sending_side b' = sending_side b \<and> same_ends b b' \<and> cppl_pending b' = rest"
proof -
  let ?line = "copy_at 0 (string2bytes l @ [0x0A]) line"
  have l: "length l < unat sz" "length l < 1024" using assms(4) by (simp_all add: plain_line_def)
  obtain n stops' b' where r: "readDelimeter junk sz 0x0A ((lineLen0, line), stops, b) = ret (SUCCESS, (n, ?line), stops', b')"
    "list_all Not stops'" "sending_side b' = sending_side b" "same_ends b b'" "cppl_pending b' = rest"
    "unat n = Suc (length l)"
    using readDelimeter_gives [OF assms(1,2), of sz SUCCESS "string2bytes l @ [0x0A]" rest junk "0x0A" lineLen0 line]
      delimited_plain [OF assms(4), of rest] assms(3) by auto
  have "n \<noteq> 0" using r(6) by auto
  then have n: "unat (n - 1) = length l" using r(6) by (simp add: unat_minus_one)
  have "take (unat n) ?line = string2bytes l @ [0x0A]" using r(6) by (simp add: copy_at_def)
  moreover have "\<not> illegal_character 0x0A" by (simp add: illegal_character_def)
  ultimately have "\<not> list_ex illegal_character (take (unat n) ?line)"
    using assms(4) by (auto simp: plain_line_def list_all_iff list_ex_iff)
  moreover have "?line ! length l = 0x0A" "?line[length l := 0] = copy_at 0 (string2bytes l @ [0]) line"
    by (simp_all add: copy_at_def nth_append list_update_append)
  ultimately show ?thesis using r(1-5) n \<open>n \<noteq> 0\<close> by (simp add: readLine_def)
qed

lemma c_string_plain: "plain_line sz l \<Longrightarrow> c_string (copy_at 0 (string2bytes l @ [0]) line) = l"
proof -
  assume "plain_line sz l"
  moreover have "illegal_character 0" by (simp add: illegal_character_def)
  ultimately have "takeWhile (\<lambda>c. c \<noteq> 0) (copy_at 0 (string2bytes l @ [0]) line) = string2bytes l"
    by (auto simp: plain_line_def list_all_iff copy_at_def takeWhile_append)
  then show ?thesis by (simp add: c_string_def)
qed


lemma pipe_reads:
  assumes "pipe_ok sz p" and "pipe_pending p = string2bytes l @ 0x0A # rest" and "plain_line (unat sz) l"
  shows "\<exists>p'. pipe_readLine junk lineLen0 sz p = ret ((SUCCESS, l), p') \<and> pipe_ok sz p' \<and> pipe_pending p' = rest \<and>
    pipe_closed p' = pipe_closed p \<and> pipe_said p' = pipe_said p \<and> pipe_room p' = pipe_room p"
proof -
  obtain line stops b where p: "p = (line, stops, b)" by (cases p) auto
  have ok: "cppl_ok b" "list_all Not stops" "cppl_pending b = string2bytes l @ 0x0A # rest" "length line = unat sz" "cppl_sends b"
    using assms unfolding p by (simp_all add: pipe_console_defs)
  obtain stops' b' where r: "readLine junk lineLen0 sz line (stops, b) =
      ret ((SUCCESS, copy_at 0 (string2bytes l @ [0]) line), stops', b')" "list_all Not stops'"
      "sending_side b' = sending_side b" "same_ends b b'" "cppl_pending b' = rest"
    using readLine_plain [OF ok(1-3) assms(3) ok(4), of junk lineLen0] by blast
  have "length l < unat sz" using assms(3) by (simp add: plain_line_def)
  then have "length (copy_at 0 (string2bytes l @ [0]) line) = unat sz" using ok(4) by simp
  then show ?thesis
    using r ok c_string_plain [OF assms(3), of line] unfolding p
    by (simp add: pipe_readLine_def pipe_console_defs same_ends_def sending_side_def cppl_sends_def tcp_sends_def)
qed

lemma pipe_read_ends:
  assumes "pipe_ok sz p" and "pipe_pending p = []" and "pipe_closed p"
  shows "\<exists>l p'. pipe_readLine junk lineLen0 sz p = ret ((PEER_DISCONNECT, l), p') \<and> pipe_said p' = pipe_said p"
proof -
  obtain line stops b where p: "p = (line, stops, b)" by (cases p) auto
  have d: "delimited (unat sz) (cppl_pending b) = (PEER_DISCONNECT, [], [])"
    using assms(2) unfolding p by (simp add: pipe_console_defs delimited_none)
  obtain n stops' b' where "readDelimeter junk sz 0x0A ((lineLen0, line), stops, b) =
      ret (PEER_DISCONNECT, (n, copy_at 0 [] line), stops', b')" "sending_side b' = sending_side b"
    using readDelimeter_gives [OF _ _ d, of stops junk "0x0A" lineLen0 line] assms unfolding p
    by (auto simp: pipe_console_defs)
  then show ?thesis
    unfolding p by (simp add: pipe_readLine_def readLine_def pipe_console_defs sending_side_def)
qed

interpretation pipe_io: console pipe_say "pipe_readLine junk lineLen0 sz" "unat sz" "pipe_ok sz" pipe_pending pipe_closed
    pipe_said pipe_room for junk lineLen0 sz
proof (standard, goal_cases)
  case (1 p str)
  obtain line stops b where p: "p = (line, stops, b)" by (cases p) auto
  have "length (printed str) < 2 ^ 31" using 1(2) unfolding p by (simp add: pipe_console_defs)
  then obtain b' where "send_string str b = ret (SUCCESS, b')" "cppl_ok b'" "cppl_sends b'"
    "receiving_side b' = receiving_side b" "wire (sock b') = wire (sock b) @ string2bytes (printed str)"
    "tx_room (tx (sock b)) - length (printed str) \<le> tx_room (tx (sock b'))"
    using send_string_goes [of b str] 1 unfolding p by (auto simp: pipe_console_defs)
  then show ?case
    using 1(1) unfolding p
    by (auto simp: pipe_say_def pipe_console_defs cppl_pending_def cppl_closed_def receiving_side_def)
next
  case (2 p l rest)
  then show ?case by (rule pipe_reads)
next
  case (3 p)
  then show ?case by (rule pipe_read_ends)
qed

text \<open>
  What is refused: a line that does not fit the array, or the buffer, and a control character.
\<close>

lemma readLine_refuses:
  assumes "cppl_ok b" and "list_all Not stops"
  shows "\<lbrakk>cppl_pending b = l @ 0x0A # rest; 0x0A \<notin> set l; unat sz \<le> length l; length l < 1024\<rbrakk> \<Longrightarrow>
      \<exists>stops' b'. readLine junk lineLen0 sz line (stops, b) = ret ((BUFFER_TO_SMALL, line), stops', b') \<and>
        cppl_pending b' = cppl_pending b"
    and "\<lbrakk>cppl_pending b = l @ rest; 0x0A \<notin> set l; 1024 \<le> length l\<rbrakk> \<Longrightarrow>
      \<exists>stops' b'. readLine junk lineLen0 sz line (stops, b) = ret ((SEGMENT_TOO_LONG, line), stops', b') \<and>
        cppl_pending b' = cppl_pending b"
proof -
  have t: "0x0A \<notin> set l \<Longrightarrow> takeWhile (\<lambda>c. c \<noteq> 0x0A) (l @ r) = l @ takeWhile (\<lambda>c. c \<noteq> 0x0A) r" for l r :: bytes
    by (induction l) auto
  show "\<exists>stops' b'. readLine junk lineLen0 sz line (stops, b) = ret ((BUFFER_TO_SMALL, line), stops', b') \<and>
        cppl_pending b' = cppl_pending b"
    if "cppl_pending b = l @ 0x0A # rest" "0x0A \<notin> set l" "unat sz \<le> length l" "length l < 1024"
  proof -
    have "delimited (unat sz) (cppl_pending b) = (BUFFER_TO_SMALL, [], cppl_pending b)"
      using that by (simp add: delimited_def t)
    from readDelimeter_gives [OF assms this, of junk "0x0A" lineLen0 line] show ?thesis
      by (fastforce simp: readLine_def copy_at_def)
  qed
  show "\<exists>stops' b'. readLine junk lineLen0 sz line (stops, b) = ret ((SEGMENT_TOO_LONG, line), stops', b') \<and>
        cppl_pending b' = cppl_pending b"
    if "cppl_pending b = l @ rest" "0x0A \<notin> set l" "1024 \<le> length l"
  proof -
    have "delimited (unat sz) (cppl_pending b) = (SEGMENT_TOO_LONG, [], cppl_pending b)"
      using that by (simp add: delimited_def t)
    from readDelimeter_gives [OF assms this, of junk "0x0A" lineLen0 line] show ?thesis
      by (fastforce simp: readLine_def copy_at_def)
  qed
qed

end
