(* ===== verification/Rpc.thy ===== *)
theory Rpc
  imports Sockets
begin

text \<open>
  Remote procedure calls: \<^verbatim>\<open>src/rpc/cirpcchannel.cpp\<close>, \<^verbatim>\<open>src/rpc/crpcexecutor.cpp\<close>,
  \<^verbatim>\<open>src/rpc/crpcinvoker.cpp\<close>. The datagram channel is an argument; \<open>rpc_transport\<close> is its
  contract, proved for \<^verbatim>\<open>StreamRpcChannel\<close> over a pipe. The lemmas show that function ids and
  payloads survive the transport and that the executor's loop serves exactly the requests it got.
\<close>

section \<open>\<^verbatim>\<open>CIRpcChannel\<close>\<close>

definition SAN_RPC_MAX_FID :: u32 where "SAN_RPC_MAX_FID = 65000"

type_synonym 's sender = "bytes \<Rightarrow> 's \<Rightarrow> (bool \<times> 's) io"
type_synonym 's receiver = "'s \<Rightarrow> ((bool \<times> bytes) \<times> 's) io"

definition sendData :: "byte_order \<Rightarrow> 's sender \<Rightarrow> u32 \<Rightarrow> bytes \<Rightarrow> 's \<Rightarrow> (bool \<times> 's) io" where
  "sendData bo sendDatagram funcId data s =
     (if funcId > SAN_RPC_MAX_FID then ret (False, s)
      else
        let fid = san_u_htobe16 bo (ucast funcId);
            b = mem_store bo 2 fid @ data
        in sendDatagram b s)"

text \<open>The reference parameters \<^verbatim>\<open>funcIdOut\<close> and \<^verbatim>\<open>out\<close> keep their value on failure, or hold the short datagram.\<close>

definition recvData :: "byte_order \<Rightarrow> 's receiver \<Rightarrow> u32 \<Rightarrow> 's \<Rightarrow> ((bool \<times> u32 \<times> bytes) \<times> 's) io" where
  "recvData bo recvDatagram funcIdOut s =
     io_bind (recvDatagram s) (\<lambda>((ok, out), s).
       if \<not> ok then ret ((False, funcIdOut, out), s)
       else if length out < 2 then ret ((False, funcIdOut, out), s)
       else ret ((True, ucast (san_u_be16toh bo (mem_load bo (take 2 out))), drop 2 out), s))"

section \<open>\<^verbatim>\<open>CRpcExecutor\<close>\<close>

text \<open>
  A registered function is an object that keeps state between calls; that state is a part of
  the application state \<open>'a\<close>. A call may wait, or fail an assertion.
\<close>

record 'a funcIn =
  in_getUniqueId :: u32
  in_unpack :: "bytes \<Rightarrow> 'a \<Rightarrow> bool \<times> 'a"
  in_call :: "'a \<Rightarrow> (bool \<times> 'a) io"

record 'a syncFuncIn = "'a funcIn" +
  in_getResponse :: "'a \<Rightarrow> bytes"

record 'a executor =
  m_functions :: "u32 \<Rightarrow> 'a funcIn option"
  m_syncFunctions :: "u32 \<Rightarrow> 'a syncFuncIn option"

definition no_functions :: "'a executor" where
  "no_functions = \<lparr>m_functions = (\<lambda>_. None), m_syncFunctions = (\<lambda>_. None)\<rparr>"

definition exec_registerFunction :: "'a funcIn \<Rightarrow> 'a executor \<Rightarrow> bool \<times> 'a executor" where
  "exec_registerFunction f ex =
     (case m_functions ex (in_getUniqueId f) of
        Some _ \<Rightarrow> (False, ex)
      | None \<Rightarrow> (True, ex\<lparr>m_functions := (m_functions ex)(in_getUniqueId f \<mapsto> f)\<rparr>))"

definition exec_registerSyncFunction :: "'a syncFuncIn \<Rightarrow> 'a executor \<Rightarrow> bool \<times> 'a executor" where
  "exec_registerSyncFunction f ex =
     (case m_syncFunctions ex (in_getUniqueId f) of
        Some _ \<Rightarrow> (False, ex)
      | None \<Rightarrow> (True, ex\<lparr>m_syncFunctions := (m_syncFunctions ex)(in_getUniqueId f \<mapsto> f)\<rparr>))"

datatype RpcError = RpcSuccess | RpcFailure | RpcTerminated | RpcTimeout | FunctionNotFound
  | UnpackError | PackError

text \<open>An asynchronous function takes precedence; what the call returns is ignored.\<close>

definition executeFunction ::
  "byte_order \<Rightarrow> 's sender \<Rightarrow> 'a executor \<Rightarrow> u32 \<Rightarrow> bytes \<Rightarrow> 'a \<Rightarrow> 's \<Rightarrow> (RpcError \<times> 'a \<times> 's) io" where
  "executeFunction bo sendDatagram ex uniqueId inp a s =
     (case m_functions ex uniqueId of
        Some func \<Rightarrow>
          (case in_unpack func inp a of (ok, a) \<Rightarrow>
             if \<not> ok then ret (UnpackError, a, s)
             else io_bind (in_call func a) (\<lambda>(_, a). ret (RpcSuccess, a, s)))
      | None \<Rightarrow>
          (case m_syncFunctions ex uniqueId of
             Some syncFunc \<Rightarrow>
               (case in_unpack syncFunc inp a of (ok, a) \<Rightarrow>
                  if \<not> ok then ret (UnpackError, a, s)
                  else io_bind (in_call syncFunc a) (\<lambda>(_, a).
                         io_bind (sendData bo sendDatagram uniqueId (in_getResponse syncFunc a) s) (\<lambda>(sent, s).
                           ret (if sent then RpcSuccess else RpcFailure, a, s))))
           | None \<Rightarrow> ret (FunctionNotFound, a, s)))"

text \<open>
  \<^verbatim>\<open>run\<close> until the thread is terminated or a receive fails; an error of a function is logged
  and the loop goes on. \<open>terminated\<close> is the flag of the executor, a \<^verbatim>\<open>CThread\<close> of its own: its
  constructor clears it and nothing in the program sets it.
\<close>

definition executor_terminated :: "'a \<Rightarrow> bool" where
  "executor_terminated = (\<lambda>_. False)"

partial_function (option) exec_run ::
  "byte_order \<Rightarrow> 's sender \<Rightarrow> 's receiver \<Rightarrow> ('a \<Rightarrow> bool) \<Rightarrow> 'a executor \<Rightarrow> u32 \<Rightarrow> 'a \<Rightarrow> 's \<Rightarrow> ('a \<times> 's) io" where
  "exec_run bo send rcv terminated ex functionId a s =
     (if terminated a then Some (Inr (a, s))
      else case recvData bo rcv functionId s of
          None \<Rightarrow> None
        | Some r \<Rightarrow>
            (case r of
               Inl e \<Rightarrow> Some (Inl e)
             | Inr v \<Rightarrow>
                 if \<not> fst (fst v) then Some (Inr (a, snd v))
                 else case executeFunction bo send ex (fst (snd (fst v))) (snd (snd (fst v))) a (snd v) of
                     None \<Rightarrow> None
                   | Some r2 \<Rightarrow>
                       (case r2 of
                          Inl e \<Rightarrow> Some (Inl e)
                        | Inr w \<Rightarrow>
                            exec_run bo send rcv terminated ex (fst (snd (fst v))) (fst (snd w)) (snd (snd w)))))"

section \<open>\<^verbatim>\<open>CRpcInvoker\<close>\<close>

text \<open>A call object on the client's side: its id, what it packs, how it takes a response.\<close>

record 'f funcOut =
  out_getUniqueId :: u32
  out_pack :: "'f \<Rightarrow> bool \<times> bytes"

record 'f syncFuncOut = "'f funcOut" +
  out_parseResponse :: "bytes \<Rightarrow> 'f \<Rightarrow> bool \<times> 'f"

definition invokeFunction :: "byte_order \<Rightarrow> 's sender \<Rightarrow> 'f funcOut \<Rightarrow> 'f \<Rightarrow> 's \<Rightarrow> (bool \<times> 's) io" where
  "invokeFunction bo sendDatagram func f s =
     (case out_pack func f of (ok, b) \<Rightarrow>
        if \<not> ok then ret (False, s) else sendData bo sendDatagram (out_getUniqueId func) b s)"

text \<open>The id that comes with the response is stored but not compared with the id of the call.\<close>

definition invokeSyncFunction ::
  "byte_order \<Rightarrow> 's sender \<Rightarrow> 's receiver \<Rightarrow> 'f syncFuncOut \<Rightarrow> 'f \<Rightarrow> 's \<Rightarrow> ((bool \<times> 'f) \<times> 's) io" where
  "invokeSyncFunction bo sendDatagram recvDatagram syncFunc f s =
     (case out_pack syncFunc f of (ok, b) \<Rightarrow>
        if \<not> ok then ret ((False, f), s)
        else
          io_bind (sendData bo sendDatagram (out_getUniqueId syncFunc) b s) (\<lambda>(sent, s).
            if \<not> sent then ret ((False, f), s)
            else
              io_bind (recvData bo recvDatagram (out_getUniqueId syncFunc) s) (\<lambda>((ok, uniqueId, b), s).
                if \<not> ok then ret ((False, f), s) else ret (out_parseResponse syncFunc b f, s))))"

record 'f invoker =
  i_functions :: "u32 \<Rightarrow> 'f funcOut option"
  i_syncFunctions :: "u32 \<Rightarrow> 'f syncFuncOut option"

definition invoker_registerFunction :: "'f funcOut \<Rightarrow> 'f invoker \<Rightarrow> bool \<times> 'f invoker" where
  "invoker_registerFunction f iv =
     (if i_syncFunctions iv (out_getUniqueId f) \<noteq> None then (False, iv)
      else case i_functions iv (out_getUniqueId f) of
        Some _ \<Rightarrow> (False, iv)
      | None \<Rightarrow> (True, iv\<lparr>i_functions := (i_functions iv)(out_getUniqueId f \<mapsto> f)\<rparr>))"

definition invoker_registerSyncFunction :: "'f syncFuncOut \<Rightarrow> 'f invoker \<Rightarrow> bool \<times> 'f invoker" where
  "invoker_registerSyncFunction f iv =
     (if i_functions iv (out_getUniqueId f) \<noteq> None then (False, iv)
      else case i_syncFunctions iv (out_getUniqueId f) of
        Some _ \<Rightarrow> (False, iv)
      | None \<Rightarrow> (True, iv\<lparr>i_syncFunctions := (i_syncFunctions iv)(out_getUniqueId f \<mapsto> f)\<rparr>))"

section \<open>Requests on the wire\<close>

text \<open>The datagram of a call: the function id in network order, then the payload.\<close>

definition rpc_datagram :: "u32 \<Rightarrow> bytes \<Rightarrow> bytes" where
  "rpc_datagram fid data = be_bytes 2 (ucast fid :: u16) @ data"

lemma length_rpc_datagram [simp]: "length (rpc_datagram fid data) = length data + 2"
  by (simp add: rpc_datagram_def)

lemma sendData_datagram:
  "sendData bo sd fid data s = (if fid > SAN_RPC_MAX_FID then ret (False, s) else sd (rpc_datagram fid data) s)"
proof -
  have "mem_store bo 2 (san_u_htobe16 bo v) = be_bytes 2 v" for v
    using pack_network(2) [of bo v] by (simp add: pack_uint16_def)
  then show ?thesis by (simp add: sendData_def rpc_datagram_def)
qed

lemma fid_roundtrip: "fid \<le> SAN_RPC_MAX_FID \<Longrightarrow> ucast (ucast fid :: u16) = (fid :: u32)"
  by (rule word_unat_eq_iff [THEN iffD2])
    (simp add: SAN_RPC_MAX_FID_def word_le_nat_alt unsigned_ucast_eq take_bit_eq_mod unat_mod_distrib)

lemma recvData_datagram:
  assumes "rcv s = ret ((True, rpc_datagram fid data), s')" and "fid \<le> SAN_RPC_MAX_FID"
  shows "recvData bo rcv f0 s = ret ((True, fid, data), s')"
proof -
  have "san_u_be16toh bo (mem_load bo (be_bytes 2 v)) = (v :: u16)" for v
    using unpack_network16(1) [of bo "be_bytes 2 v" 0] by (simp add: unpackUint16_def be_word_be_bytes)
  then show ?thesis
    using assms fid_roundtrip [OF assms(2)] by (simp add: recvData_def rpc_datagram_def)
qed

lemma recvData_fails:
  "rcv s = ret ((False, out), s') \<Longrightarrow> recvData bo rcv f0 s = ret ((False, f0, out), s')"
  by (simp add: recvData_def)

section \<open>The contract of a transport\<close>

text \<open>
  \<open>ready s ms k\<close>: the channel will deliver the datagrams \<open>ms\<close> and then end, and takes
  \<open>k\<close> more bytes; \<open>output s\<close> are the bytes it has put on the wire.
\<close>

locale rpc_transport =
  fixes sd :: "'s sender"
    and rcv :: "'s receiver"
    and ready :: "'s \<Rightarrow> bytes list \<Rightarrow> nat \<Rightarrow> bool"
    and outp :: "'s \<Rightarrow> bytes"
  assumes recv_next: "ready s (m # ms) k \<Longrightarrow>
      \<exists>s'. rcv s = ret ((True, m), s') \<and> ready s' ms k \<and> outp s' = outp s"
    and recv_end: "ready s [] k \<Longrightarrow> \<exists>out s'. rcv s = ret ((False, out), s') \<and> outp s' = outp s"
    and send_next: "ready s ms k \<Longrightarrow> length m + 4 < 2 ^ 31 \<Longrightarrow> length m + 4 \<le> k \<Longrightarrow>
      \<exists>s'. sd m s = ret (True, s') \<and> ready s' ms (k - (length m + 4)) \<and> outp s' = outp s @ frame m"

text \<open>
  What the executor should do with a list of requests: call each function on the application's
  state, and answer the synchronous ones. A request that is unknown or does not unpack is passed
  over.
\<close>

definition serve1 :: "'a executor \<Rightarrow> u32 \<Rightarrow> bytes \<Rightarrow> 'a \<Rightarrow> (bytes list \<times> 'a) io" where
  "serve1 ex fid inp a =
     (case (m_functions ex fid, m_syncFunctions ex fid) of
        (Some func, _) \<Rightarrow>
          (case in_unpack func inp a of
             (True, a) \<Rightarrow> io_bind (in_call func a) (\<lambda>(_, a). ret ([], a))
           | (False, a) \<Rightarrow> ret ([], a))
      | (None, Some func) \<Rightarrow>
          (case in_unpack func inp a of
             (True, a) \<Rightarrow> io_bind (in_call func a) (\<lambda>(_, a). ret ([rpc_datagram fid (in_getResponse func a)], a))
           | (False, a) \<Rightarrow> ret ([], a))
      | (None, None) \<Rightarrow> ret ([], a))"

primrec serve :: "'a executor \<Rightarrow> (u32 \<times> bytes) list \<Rightarrow> 'a \<Rightarrow> (bytes list \<times> 'a) io" where
  "serve ex [] a = ret ([], a)"
| "serve ex (req # reqs) a =
     io_bind (serve1 ex (fst req) (snd req) a) (\<lambda>(rs, a).
       io_bind (serve ex reqs a) (\<lambda>(rs', a). ret (rs @ rs', a)))"

definition requests :: "(u32 \<times> bytes) list \<Rightarrow> bytes list" where
  "requests reqs = map (\<lambda>(fid, data). rpc_datagram fid data) reqs"

context rpc_transport
begin

lemma executeFunction_serves:
  assumes "serve1 ex fid inp a = ret (rs, a')" and "ready s ms k" and "fid \<le> SAN_RPC_MAX_FID"
    and "\<forall>r \<in> set rs. length r + 4 < 2 ^ 31" and "length (concat (map frame rs)) \<le> k"
  shows "\<exists>e s'. executeFunction bo sd ex fid inp a s = ret (e, a', s') \<and>
    ready s' ms (k - length (concat (map frame rs))) \<and> outp s' = outp s @ concat (map frame rs)"
proof (cases "m_functions ex fid")
  case (Some func)
  then show ?thesis
    using assms(1,2) by (auto simp: serve1_def executeFunction_def io_bind_eq_ret split: prod.splits bool.splits)
next
  case async: None
  show ?thesis
  proof (cases "m_syncFunctions ex fid")
    case None
    then show ?thesis using async assms(1,2) by (simp add: serve1_def executeFunction_def)
  next
    case (Some func)
    obtain ok a1 where u: "in_unpack func inp a = (ok, a1)" by (cases "in_unpack func inp a")
    show ?thesis
    proof (cases ok)
      case False
      then show ?thesis using u Some async assms(1,2) by (simp add: serve1_def executeFunction_def)
    next
      case True
      then obtain v where c: "in_call func a1 = ret (v, a')"
        and rs: "rs = [rpc_datagram fid (in_getResponse func a')]"
        using u Some async assms(1) by (auto simp: serve1_def io_bind_eq_ret)
      have len: "length (rpc_datagram fid (in_getResponse func a')) + 4 < 2 ^ 31"
        "length (rpc_datagram fid (in_getResponse func a')) + 4 \<le> k"
        using assms(4,5) rs by (simp_all add: frame_def)
      obtain s' where "sd (rpc_datagram fid (in_getResponse func a')) s = ret (True, s')"
        "ready s' ms (k - (length (rpc_datagram fid (in_getResponse func a')) + 4))"
        "outp s' = outp s @ frame (rpc_datagram fid (in_getResponse func a'))"
        using send_next [OF assms(2) len] by blast
      then show ?thesis
        using u Some async True c rs leD [OF assms(3)]
        by (simp add: executeFunction_def sendData_datagram frame_def)
    qed
  qed
qed

text \<open>\<open>I\<close> is an invariant of the application's state that keeps the thread from ending.\<close>

lemma exec_run_serves:
  assumes "serve ex reqs a = ret (rs, a')" and "ready s (requests reqs) k"
    and "\<forall>(fid, _) \<in> set reqs. fid \<le> SAN_RPC_MAX_FID"
    and "\<forall>r \<in> set rs. length r + 4 < 2 ^ 31" and "length (concat (map frame rs)) \<le> k"
    and "I a" and running: "\<And>a. I a \<Longrightarrow> \<not> terminated a"
    and keeps: "\<And>fid inp a rs a'. I a \<Longrightarrow> serve1 ex fid inp a = ret (rs, a') \<Longrightarrow> I a'"
  shows "\<exists>s'. exec_run bo sd rcv terminated ex fid0 a s = ret (a', s') \<and>
    outp s' = outp s @ concat (map frame rs)"
  using assms(1-6)
proof (induction reqs arbitrary: a rs s k fid0)
  case Nil
  then have "ready s [] k" by (simp add: requests_def)
  then obtain out s' where "rcv s = ret ((False, out), s')" "outp s' = outp s"
    using recv_end by blast
  then show ?case
    using Nil.prems(1) running [OF Nil.prems(6)]
    by (subst exec_run.simps) (simp add: recvData_fails, simp add: ret_def)
next
  case (Cons req reqs)
  obtain fid data where req: "req = (fid, data)" by (cases req)
  then have fid: "fid \<le> SAN_RPC_MAX_FID" using Cons.prems(3) by simp
  obtain rs1 rs2 a1 where s1: "serve1 ex fid data a = ret (rs1, a1)"
    and s2: "serve ex reqs a1 = ret (rs2, a')" and rs: "rs = rs1 @ rs2"
    using Cons.prems(1) req by (auto simp: io_bind_eq_ret)
  obtain t where t: "rcv s = ret ((True, rpc_datagram fid data), t)" "ready t (requests reqs) k" "outp t = outp s"
    using recv_next [of s "rpc_datagram fid data" "requests reqs" k] Cons.prems(2) req
    by (auto simp: requests_def)
  obtain e u where u: "executeFunction bo sd ex fid data a t = ret (e, a1, u)"
    "ready u (requests reqs) (k - length (concat (map frame rs1)))" "outp u = outp t @ concat (map frame rs1)"
    using executeFunction_serves [OF s1 t(2) fid, of bo] Cons.prems(4,5) rs by auto
  have "length (concat (map frame rs2)) \<le> k - length (concat (map frame rs1))"
    using Cons.prems(5) rs by simp
  then obtain v where "exec_run bo sd rcv terminated ex fid a1 u = ret (a', v)"
    "outp v = outp u @ concat (map frame rs2)"
    using Cons.IH [OF s2 u(2), of fid] Cons.prems(3,4,5) keeps [OF Cons.prems(6) s1] rs by auto
  moreover have "recvData bo rcv fid0 s = Some (Inr ((True, fid, data), t))"
    using recvData_datagram [of rcv s fid data t bo fid0] t(1) fid by (simp add: ret_def)
  moreover have "executeFunction bo sd ex fid data a t = Some (Inr (e, a1, u))"
    using u(1) by (simp add: ret_def)
  ultimately show ?case
    using t(3) u(3) rs running [OF Cons.prems(6)] by (subst exec_run.simps) simp
qed

text \<open>Functions without responses: a fault of one of them is a fault of the loop.\<close>

lemma exec_run_faults:
  assumes "serve ex reqs a = Some (Inl e)" and "ready s (requests reqs) k" and "m_syncFunctions ex = Map.empty"
    and "\<forall>(fid, _) \<in> set reqs. fid \<le> SAN_RPC_MAX_FID"
  shows "exec_run bo sd rcv (\<lambda>_. False) ex fid0 a s = Some (Inl e)"
  using assms(1,2,4)
proof (induction reqs arbitrary: a s k fid0)
  case (Cons req reqs)
  obtain fid data where req: "req = (fid, data)" by (cases req)
  then have fid: "fid \<le> SAN_RPC_MAX_FID" using Cons.prems(3) by simp
  obtain t where t: "rcv s = ret ((True, rpc_datagram fid data), t)" "ready t (requests reqs) k"
    using recv_next [of s "rpc_datagram fid data" "requests reqs" k] Cons.prems(2) req by (auto simp: requests_def)
  have r: "recvData bo rcv fid0 s = Some (Inr ((True, fid, data), t))"
    using recvData_datagram [of rcv s fid data t bo fid0] t(1) fid by (simp add: ret_def)
  consider "serve1 ex fid data a = Some (Inl e)"
    | rs1 a1 where "serve1 ex fid data a = ret (rs1, a1)" "serve ex reqs a1 = Some (Inl e)"
    using Cons.prems(1) req by (auto simp: io_bind_def ret_def split: option.splits sum.splits)
  then show ?case
  proof cases
    case 1
    then have "executeFunction bo sd ex fid data a t = Some (Inl e)"
      using assms(3) by (auto simp: executeFunction_def serve1_def io_bind_def ret_def split: option.splits sum.splits if_splits prod.splits bool.splits)
    then show ?thesis using r by (subst exec_run.simps) simp
  next
    case 2
    obtain e' where "executeFunction bo sd ex fid data a t = ret (e', a1, t)"
      using 2(1) assms(3)
      by (auto simp: executeFunction_def serve1_def io_bind_eq_ret split: option.splits if_splits prod.splits bool.splits)
    then show ?thesis using r Cons.IH [OF 2(2) t(2)] Cons.prems(3) by (subst exec_run.simps) (simp add: ret_def)
  qed
qed (simp add: ret_def)

end

section \<open>\<^verbatim>\<open>StreamRpcChannel\<close> over a pipe is a transport\<close>

definition pipe_send :: "byte_order \<Rightarrow> bufproc sender" where
  "pipe_send bo = stream_sendDatagram bo cppl_writeSome"

definition pipe_recv :: "byte_order \<Rightarrow> u32 \<Rightarrow> u32 \<Rightarrow> nat \<Rightarrow> bufproc receiver" where
  "pipe_recv bo junk mx timeoutMsec = stream_recvDatagram bo (cppl_readSomeAppend junk) mx timeoutMsec"

definition pipe_ready :: "u32 \<Rightarrow> bufproc \<Rightarrow> bytes list \<Rightarrow> nat \<Rightarrow> bool" where
  "pipe_ready mx b ms k \<longleftrightarrow> mx \<noteq> 0 \<and> cppl_ok b \<and> cppl_closed b \<and> cppl_sends b \<and>
     cppl_pending b = concat (map frame ms) \<and> (\<forall>m \<in> set ms. length m < 2 ^ 32) \<and> k \<le> tx_room (tx (sock b))"

definition pipe_output :: "bufproc \<Rightarrow> bytes" where
  "pipe_output b = wire (sock b)"

interpretation pipe: rpc_transport "pipe_send bo" "pipe_recv bo junk mx t" "pipe_ready mx" pipe_output
  for bo junk mx t
proof (standard, goal_cases)
  case (1 b m ms k)
  then obtain b' where r: "readMessage bo (cppl_readSomeAppend junk) mx b = ret ((True, m), b')"
    "cppl_pending b' = concat (map frame ms)" "cppl_ok b'" "cppl_closed b'"
    using cppl_src.readMessage_frame [of b mx m "concat (map frame ms)" bo junk] by (auto simp: pipe_ready_def)
  then have "sending_side b' = sending_side b"
    using readMessage_keeps [of "cppl_readSomeAppend junk" sending_side] cppl_read_keeps by blast
  then show ?case
    using 1 r by (intro exI [of _ b'])
      (simp add: pipe_recv_def stream_recvDatagram_def pipe_ready_def pipe_output_def cppl_sends_def tcp_sends_def
        sending_side_def)
next
  case (2 b k)
  then obtain out b' where r: "readMessage bo (cppl_readSomeAppend junk) mx b = ret ((False, out), b')"
    using cppl_src.readMessage_truncated [of b mx "[]" "frame []" bo junk] by (auto simp: pipe_ready_def)
  then have "sending_side b' = sending_side b"
    using readMessage_keeps [of "cppl_readSomeAppend junk" sending_side] cppl_read_keeps by blast
  then show ?case using r
    by (auto simp: pipe_recv_def stream_recvDatagram_def pipe_output_def sending_side_def)
next
  case (3 b ms k m)
  then have "length (frame m) < 2 ^ 31" "length (frame m) \<le> tx_room (tx (sock b))" "cppl_sends b"
    by (auto simp: frame_def pipe_ready_def)
  then obtain b' where w: "writeMessage bo cppl_writeSome m b = ret (True, b')"
    "wire (sock b') = wire (sock b) @ frame m" "cppl_sends b'"
    "tx_room (tx (sock b)) - length (frame m) \<le> tx_room (tx (sock b'))"
    using cppl_snk.writeAll_writes [of b "frame m"] by (auto simp: writeMessage_frame)
  then have "receiving_side b' = receiving_side b"
    using writeMessage_keeps [of cppl_writeSome receiving_side] cppl_write_keeps by blast
  then show ?case
    using 3 w by (intro exI [of _ b'])
      (auto simp: pipe_send_def stream_sendDatagram_def pipe_ready_def pipe_output_def receiving_side_def
        cppl_ok_def cppl_closed_def cppl_pending_def frame_def)
qed

text \<open>
  C6. The executor's loop refines the dispatch of whole requests, down to the bytes of the
  pipe: whatever pieces the requests arrive in, the functions are called in the order of the
  requests, each on the state the previous one left; exactly the synchronous functions that
  unpacked their argument are answered, in order and with the id of the request; unknown and
  malformed requests are passed over; and the loop ends when the peer closes.
\<close>

lemma executor_serves_pipe:
  assumes "serve ex reqs a = ret (responses, a')" and "pipe_ready mx b (requests reqs) room"
    and "\<forall>(fid, _) \<in> set reqs. fid \<le> SAN_RPC_MAX_FID"
    and "\<forall>r \<in> set responses. length r + 4 < 2 ^ 31"
    and "length (concat (map frame responses)) \<le> room"
  shows "\<exists>b'. exec_run bo (pipe_send bo) (pipe_recv bo junk mx t) (\<lambda>_. False) ex fid0 a b = ret (a', b') \<and>
    pipe_output b' = pipe_output b @ concat (map frame responses)"
  using pipe.exec_run_serves [OF assms, of "\<lambda>_. True" "\<lambda>_. False"] by simp

text \<open>One function that adds a byte and one that answers with the last bytes it got.\<close>

definition sample_executor :: "bytes executor" where
  "sample_executor =
     \<lparr>m_functions = [1 \<mapsto> \<lparr>in_getUniqueId = 1, in_unpack = (\<lambda>b a. (b \<noteq> [], a @ b)), in_call = (\<lambda>a. ret (True, a))\<rparr>],
      m_syncFunctions = [7 \<mapsto> \<lparr>in_getUniqueId = 7, in_unpack = (\<lambda>b a. (True, a)), in_call = (\<lambda>a. ret (True, a)),
        in_getResponse = rev\<rparr>]\<rparr>"

definition sample_pipe :: "bytes \<Rightarrow> bufproc" where
  "sample_pipe received =
     \<lparr>mReadBuffer = replicate 1024 0, mReadBufferLen = 0,
      sock = \<lparr>is_open = True, rx = [Interrupted False, Ready False (Arrived received), Ready False PeerClosed],
        tx = replicate 20 (Ready False (Taken 3)), wire = []\<rparr>\<rparr>"

lemma executor_serves_pipe_witness:
  "\<exists>b'. exec_run SAN_LITTLE_ENDIAN (pipe_send SAN_LITTLE_ENDIAN) (pipe_recv SAN_LITTLE_ENDIAN 0 2000 5000) (\<lambda>_. False)
       sample_executor 0 [5] (sample_pipe (concat (map frame (requests [(1, [6]), (9, [0]), (7, [])])))) = ret ([5, 6], b') \<and>
     pipe_output b' = frame (rpc_datagram 7 [6, 5])"
  using executor_serves_pipe [of sample_executor "[(1, [6]), (9, [0]), (7, [])]" "[5]" "[rpc_datagram 7 [6, 5]]" "[5, 6]" 2000
      "sample_pipe (concat (map frame (requests [(1, [6]), (9, [0]), (7, [])])))" 20 SAN_LITTLE_ENDIAN 0 5000 0]
  by (simp add: sample_executor_def sample_pipe_def serve1_def pipe_ready_def cppl_ok_def cppl_closed_def cppl_sends_def
      tcp_sends_def cppl_pending_def requests_def rpc_datagram_def frame_def peer_closes_def list_all_iff tx_room_def
      SAN_RPC_MAX_FID_def pipe_output_def ex_bool_eq)

end
