(* ===== verification/Portmap.thy ===== *)
theory Portmap
  imports Prelude
begin

text \<open>
  The table from ports to application queues, \<^verbatim>\<open>src/node/cportmap.cpp\<close>. A pointer to a
  queue is a value of a type \<open>'q\<close> with equality. \<open>port_table\<close> is the contract the node and
  its service channels rely on.
\<close>

section \<open>The class\<close>

definition SAN2_BEGIN_EPHEMERAL_PORT :: u16 where
  "SAN2_BEGIN_EPHEMERAL_PORT = 40000"

record 'q portmap =
  mapPorts :: "u16 \<Rightarrow> 'q option"
  m_ephemeralPort :: u16

definition CPortmap :: "'q portmap" where
  "CPortmap = \<lparr>mapPorts = (\<lambda>_. None), m_ephemeralPort = SAN2_BEGIN_EPHEMERAL_PORT\<rparr>"

text \<open>\<^verbatim>\<open>std::map::insert\<close> keeps an existing entry and says whether it inserted.\<close>

definition registerPort :: "u16 \<Rightarrow> 'q \<Rightarrow> 'q portmap \<Rightarrow> bool \<times> 'q portmap" where
  "registerPort port applicationQueue m =
     (case mapPorts m port of
        Some _ \<Rightarrow> (False, m)
      | None \<Rightarrow> (True, m\<lparr>mapPorts := (mapPorts m)(port \<mapsto> applicationQueue)\<rparr>))"

definition unregisterPort :: "u16 \<Rightarrow> 'q portmap \<Rightarrow> bool \<times> 'q portmap" where
  "unregisterPort port m =
     (mapPorts m port \<noteq> None, m\<lparr>mapPorts := (mapPorts m)(port := None)\<rparr>)"

definition getPortQueue :: "u16 \<Rightarrow> 'q portmap \<Rightarrow> 'q option" where
  "getPortQueue port m = mapPorts m port"

definition freePorts :: "'q \<Rightarrow> 'q portmap \<Rightarrow> 'q portmap" where
  "freePorts applicationQueue m =
     m\<lparr>mapPorts := (\<lambda>port. if mapPorts m port = Some applicationQueue then None else mapPorts m port)\<rparr>"

lemma word16_step: "(p :: u16) < s \<Longrightarrow> unat (p + 1) = unat p + 1"
  using unsigned_less [of s, where ?'a = nat] by (auto simp: word_less_nat_alt unat_plus_if')

text \<open>
  One loop of \<^verbatim>\<open>getEphemeralPort\<close>: from \<open>port\<close> up to, not including, \<open>stop\<close>. The result is
  \<^verbatim>\<open>registered\<close> with the port at which the loop ended.
\<close>

function scanPorts :: "'q \<Rightarrow> u16 \<Rightarrow> u16 \<Rightarrow> 'q portmap \<Rightarrow> (bool \<times> u16) \<times> 'q portmap" where
  "scanPorts applicationQueue port stop m =
     (if port < stop then
        case registerPort port applicationQueue m of
          (registered, m') \<Rightarrow>
            if registered then ((True, port), m') else scanPorts applicationQueue (port + 1) stop m'
      else ((False, port), m))"
  by pat_completeness auto

termination
  by (relation "measure (\<lambda>(_, port, stop, _). unat stop - unat port)")
    (auto simp: word16_step word_less_nat_alt diff_less_mono2)

declare scanPorts.simps [simp del]

text \<open>\<^verbatim>\<open>port + 1 > 65535\<close> is an \<^verbatim>\<open>int\<close> comparison; the assignment keeps 16 bits.\<close>

definition advance :: "u16 \<Rightarrow> 'q portmap \<Rightarrow> 'q portmap" where
  "advance port m =
     m\<lparr>m_ephemeralPort := (if uint port + 1 > 65535 then SAN2_BEGIN_EPHEMERAL_PORT else port + 1)\<rparr>"

definition getEphemeralPort :: "'q \<Rightarrow> 'q portmap \<Rightarrow> u16 \<times> 'q portmap" where
  "getEphemeralPort applicationQueue m =
     (case scanPorts applicationQueue (m_ephemeralPort m) 65535 m of
        ((registered, port), m1) \<Rightarrow>
          if registered then (port, advance port m1)
          else
            case scanPorts applicationQueue SAN2_BEGIN_EPHEMERAL_PORT (m_ephemeralPort m1) m1 of
              ((registered, port), m2) \<Rightarrow>
                if registered then (port, advance port m2) else (0, m2))"

lemmas portmap_ops = registerPort_def unregisterPort_def getPortQueue_def freePorts_def

section \<open>Lemmas\<close>

text \<open>The class invariant: the cursor stays in the ephemeral range or just past its end.\<close>

definition portmap_inv :: "'q portmap \<Rightarrow> bool" where
  "portmap_inv m \<longleftrightarrow> SAN2_BEGIN_EPHEMERAL_PORT \<le> m_ephemeralPort m"

definition free_in :: "'q portmap \<Rightarrow> u16 \<Rightarrow> u16 \<Rightarrow> bool" where
  "free_in m lo hi \<longleftrightarrow> (\<exists>p. lo \<le> p \<and> p < hi \<and> mapPorts m p = None)"

lemma le_step: "(p :: u16) < s \<Longrightarrow> p \<le> r \<longleftrightarrow> r = p \<or> p + 1 \<le> r"
  by (auto simp: word16_step word_le_nat_alt word_unat_eq_iff)

text \<open>The loop takes the first free port of its range and nothing else.\<close>

lemma scanPorts_spec:
  "scanPorts q p s m =
     (if free_in m p s
      then let r = (LEAST r. p \<le> r \<and> mapPorts m r = None)
           in ((True, r), m\<lparr>mapPorts := (mapPorts m)(r \<mapsto> q)\<rparr>)
      else ((False, max p s), m))"
proof (induction q p s m rule: scanPorts.induct)
  case (1 q p s m)
  show ?case
  proof (cases "p < s")
    case False
    then have "\<not> free_in m p s" by (auto simp: free_in_def)
    then show ?thesis using False by (simp add: scanPorts.simps max_def)
  next
    case less: True
    show ?thesis
    proof (cases "mapPorts m p")
      case None
      have "(LEAST r. p \<le> r \<and> mapPorts m r = None) = p"
        by (rule Least_equality) (auto simp: None)
      moreover have "free_in m p s" using None less by (auto simp: free_in_def)
      ultimately show ?thesis using None less by (simp add: scanPorts.simps registerPort_def)
    next
      case (Some a)
      have "free_in m (p + 1) s = free_in m p s"
        using Some by (auto simp: free_in_def le_step [OF less])
      moreover have "(p + 1 \<le> r \<and> mapPorts m r = None) \<longleftrightarrow> (p \<le> r \<and> mapPorts m r = None)" for r
        using Some by (auto simp: le_step [OF less])
      moreover have "max (p + 1) s = max p s"
        using less le_step [OF less, of s] by (auto simp: max_def)
      ultimately show ?thesis
        using 1 [OF less, of False m] Some less
        by (subst scanPorts.simps) (simp add: registerPort_def)
    qed
  qed
qed

lemma getEphemeralPort_spec:
  assumes "portmap_inv m"
  shows "getEphemeralPort q m =
     (if free_in m (m_ephemeralPort m) 65535 \<or> free_in m SAN2_BEGIN_EPHEMERAL_PORT (m_ephemeralPort m)
      then let start = (if free_in m (m_ephemeralPort m) 65535 then m_ephemeralPort m
                       else SAN2_BEGIN_EPHEMERAL_PORT);
               r = (LEAST r. start \<le> r \<and> mapPorts m r = None)
           in (r, advance r (m\<lparr>mapPorts := (mapPorts m)(r \<mapsto> q)\<rparr>))
      else (0, m))"
  by (simp add: getEphemeralPort_def scanPorts_spec Let_def)

lemma free_least:
  assumes "free_in m lo hi" and "r = (LEAST r. lo \<le> r \<and> mapPorts m r = None)"
  shows "lo \<le> r \<and> r < hi \<and> mapPorts m r = None"
proof -
  from assms(1) obtain p where p: "lo \<le> p" "p < hi" "mapPorts m p = None" by (auto simp: free_in_def)
  then have "lo \<le> r \<and> mapPorts m r = None"
    using LeastI [of "\<lambda>r. lo \<le> r \<and> mapPorts m r = None" p] assms(2) by simp
  moreover have "r \<le> p"
    using Least_le [of "\<lambda>r. lo \<le> r \<and> mapPorts m r = None" p] assms(2) p by simp
  ultimately show ?thesis using p(2) by auto
qed

lemma free_in_split:
  "lo \<le> mid \<Longrightarrow> free_in m lo hi \<Longrightarrow> free_in m mid hi \<or> free_in m lo mid"
  by (auto simp: free_in_def not_less [symmetric])

lemma portmap_inv_advance [simp]: "p < 65535 \<Longrightarrow> SAN2_BEGIN_EPHEMERAL_PORT \<le> p \<Longrightarrow> portmap_inv (advance p m)"
  using le_step [of p 65535] word16_step [of p 65535]
  by (simp add: portmap_inv_def advance_def word_le_nat_alt)

lemma mapPorts_advance [simp]: "mapPorts (advance p m) = mapPorts m"
  by (simp add: advance_def)

text \<open>Either a port of the ephemeral range is found, or all of them are taken.\<close>

lemma getEphemeralPort_cases:
  assumes "portmap_inv m"
  obtains (found) p where "getEphemeralPort q m = (p, advance p (m\<lparr>mapPorts := (mapPorts m)(p \<mapsto> q)\<rparr>))"
      "SAN2_BEGIN_EPHEMERAL_PORT \<le> p" "p < 65535" "mapPorts m p = None"
    | (none) "getEphemeralPort q m = (0, m)" "\<not> free_in m SAN2_BEGIN_EPHEMERAL_PORT 65535"
proof (cases "free_in m (m_ephemeralPort m) 65535")
  case True
  then show ?thesis
    using found free_least [OF True refl] assms getEphemeralPort_spec [OF assms, of q]
    by (auto simp: Let_def portmap_inv_def)
next
  case False
  note c = this
  show ?thesis
  proof (cases "free_in m SAN2_BEGIN_EPHEMERAL_PORT (m_ephemeralPort m)")
    case True
    have "m_ephemeralPort m \<le> 65535"
      using unsigned_less [of "m_ephemeralPort m", where ?'a = nat] by (simp add: word_le_nat_alt)
    moreover have "getEphemeralPort q m = (let r = (LEAST r. SAN2_BEGIN_EPHEMERAL_PORT \<le> r \<and> mapPorts m r = None)
        in (r, advance r (m\<lparr>mapPorts := (mapPorts m)(r \<mapsto> q)\<rparr>)))"
      using getEphemeralPort_spec [OF assms, of q] True c by simp
    ultimately show ?thesis
      using free_least [OF True refl] unfolding Let_def by (blast intro: found less_le_trans)
  next
    case False
    then show ?thesis
      using none c getEphemeralPort_spec [OF assms, of q] assms free_in_split [of _ "m_ephemeralPort m" m 65535]
      by (auto simp: portmap_inv_def)
  qed
qed

text \<open>
  C23. \<^verbatim>\<open>getEphemeralPort\<close> never hands out a port that is in use, and leaves every other
  port alone: a port it returns was free, belongs to the caller afterwards, lies in the ephemeral
  range 40000--65534, and the class invariant is kept.
\<close>

lemma ephemeral_port_is_fresh:
  assumes "portmap_inv m" and "getEphemeralPort q m = (p, m')" and "p \<noteq> 0"
  shows "mapPorts m p = None \<and> mapPorts m' = (mapPorts m)(p \<mapsto> q) \<and>
     SAN2_BEGIN_EPHEMERAL_PORT \<le> p \<and> p < 65535 \<and> portmap_inv m'"
  using assms(2,3)
  by (cases rule: getEphemeralPort_cases [OF assms(1), of q])
    auto

lemma ephemeral_port_is_fresh_witness:
  "(let m = snd (registerPort 40000 True CPortmap) in
    mapPorts (snd (getEphemeralPort False m)) = (mapPorts m)(40001 \<mapsto> False))"
proof -
  let ?m = "snd (registerPort 40000 True CPortmap)"
  have inv: "portmap_inv ?m"
    by (simp add: portmap_inv_def CPortmap_def registerPort_def)
  have g: "getEphemeralPort False ?m = (40001, snd (getEphemeralPort False ?m))"
    by (simp add: getEphemeralPort_def CPortmap_def registerPort_def SAN2_BEGIN_EPHEMERAL_PORT_def
        scanPorts.simps)
  show ?thesis using ephemeral_port_is_fresh [OF inv g] by simp
qed

text \<open>
  The search is complete: the answer 0 (no port) comes exactly when each of the ports
  40000--65534 is taken, wherever the cursor stands, and then nothing changes.
\<close>

lemma ephemeral_port_exhausted:
  assumes "portmap_inv m"
  shows "(fst (getEphemeralPort q m) = 0 \<longleftrightarrow>
       (\<forall>p. SAN2_BEGIN_EPHEMERAL_PORT \<le> p \<and> p < 65535 \<longrightarrow> mapPorts m p \<noteq> None)) \<and>
     (fst (getEphemeralPort q m) = 0 \<longrightarrow> snd (getEphemeralPort q m) = m)"
  by (cases rule: getEphemeralPort_cases [OF assms, of q])
    (auto simp: free_in_def SAN2_BEGIN_EPHEMERAL_PORT_def)

section \<open>The contract\<close>

text \<open>
  What the node and the channels of the applications rely on: registering never takes a port
  away from its owner, an ephemeral port is registered like any other, and freeing takes away
  exactly the ports of the given queue.
\<close>

datatype 'q port_op = Register u16 'q | Ephemeral 'q | Free 'q

primrec op_owner :: "'q port_op \<Rightarrow> 'q" where
  "op_owner (Register p q) = q"
| "op_owner (Ephemeral q) = q"
| "op_owner (Free q) = q"

locale port_table =
  fixes reg :: "u16 \<Rightarrow> 'q \<Rightarrow> 't \<Rightarrow> bool \<times> 't"
    and eph :: "'q \<Rightarrow> 't \<Rightarrow> u16 \<times> 't"
    and free :: "'q \<Rightarrow> 't \<Rightarrow> 't"
    and owner :: "u16 \<Rightarrow> 't \<Rightarrow> 'q option"
    and inv :: "'t \<Rightarrow> bool"
  assumes reg_inv: "inv t \<Longrightarrow> inv (snd (reg p q t))"
    and eph_inv: "inv t \<Longrightarrow> inv (snd (eph q t))"
    and free_inv: "inv t \<Longrightarrow> inv (free q t)"
    and reg_owner: "owner p' (snd (reg p q t)) = (if p' = p \<and> owner p t = None then Some q else owner p' t)"
    and eph_owner: "inv t \<Longrightarrow> owner p (snd (eph q t)) = owner p t \<or>
        owner p t = None \<and> owner p (snd (eph q t)) = Some q"
    and free_owner: "owner p (free q t) = (if owner p t = Some q then None else owner p t)"
begin

primrec apply_op :: "'q port_op \<Rightarrow> 't \<Rightarrow> 't" where
  "apply_op (Register p q) t = snd (reg p q t)"
| "apply_op (Ephemeral q) t = snd (eph q t)"
| "apply_op (Free q) t = free q t"

lemma apply_op_inv: "inv t \<Longrightarrow> inv (apply_op a t)"
  by (cases a) (simp_all add: reg_inv eph_inv free_inv)

lemma fold_inv: "inv t \<Longrightarrow> inv (fold apply_op ops t)"
  by (induction ops arbitrary: t) (simp_all add: apply_op_inv)

lemma apply_op_keeps:
  assumes "inv t" and "q \<noteq> op_owner a"
  shows "owner p (apply_op a t) = Some q \<longleftrightarrow> owner p t = Some q"
  using assms eph_owner [OF assms(1), of p "op_owner a"]
  by (cases a) (auto simp: reg_owner free_owner)

lemma others_keep:
  assumes "inv t" and "\<forall>a \<in> set ops. op_owner a \<noteq> q"
  shows "owner p (fold apply_op ops t) = Some q \<longleftrightarrow> owner p t = Some q"
  using assms
  by (induction ops arbitrary: t) (auto simp: apply_op_inv apply_op_keeps [OF _ not_sym])

end

interpretation pt: port_table registerPort getEphemeralPort freePorts getPortQueue portmap_inv
proof (standard, goal_cases)
  case (5 t p q)
  show ?case
    by (cases rule: getEphemeralPort_cases [OF 5, of q]) (auto simp: getPortQueue_def)
next
  case (2 t q)
  show ?case
    by (cases rule: getEphemeralPort_cases [OF 2, of q]) (auto simp: 2)
qed (auto simp: portmap_ops portmap_inv_def split: option.splits)

text \<open>One call on the port table, as a service channel makes it.\<close>

definition port_call :: "'q port_op \<Rightarrow> 'q portmap \<Rightarrow> 'q portmap" where
  "port_call = pt.apply_op"

lemma port_call_simps [simp]:
  "port_call (Register p q) m = snd (registerPort p q m)"
  "port_call (Ephemeral q) m = snd (getEphemeralPort q m)"
  "port_call (Free q) m = freePorts q m"
  by (simp_all add: port_call_def)

text \<open>
  C8. Applications are isolated: whatever sequence of registrations, ephemeral requests and
  frees the other applications make, a queue keeps exactly the ports it had; and once an
  application's ports are freed, as its channel does on exit, nothing the others do
  brings a port back to its queue.
\<close>

lemma port_isolation:
  assumes "portmap_inv m" and "\<forall>a \<in> set ops. op_owner a \<noteq> q"
  shows "(getPortQueue p (fold port_call ops m) = Some q \<longleftrightarrow> getPortQueue p m = Some q) \<and>
    getPortQueue p (fold port_call ops (freePorts q m)) \<noteq> Some q"
  unfolding port_call_def
  using pt.others_keep [OF assms, of p] pt.others_keep [OF pt.free_inv [OF assms(1)] assms(2), of p q]
  by (simp add: pt.free_owner)

lemma port_isolation_witness:
  "getPortQueue 7 (fold port_call [Register 7 2, Ephemeral 3, Free 2]
     (snd (registerPort 7 (1 :: int) CPortmap))) = Some 1"
  using port_isolation [of "snd (registerPort 7 (1 :: int) CPortmap)" "[Register 7 2, Ephemeral 3, Free 2]" 1 7]
  by (simp add: portmap_inv_def CPortmap_def registerPort_def getPortQueue_def)

end
