(* ===== verification/BoundedQueue.thy ===== *)
theory BoundedQueue
  imports Prelude
begin

text \<open>
  The blocking bounded queue \<^verbatim>\<open>CProducerConsumer\<close> of
  \<^verbatim>\<open>src/utils/cproducerconsumer.hpp\<close>: the code between acquiring the mutex and
  giving it up, either by returning or by waiting on a condition variable. A step relation
  interleaves any number of threads; the lemmas show that no interleaving exceeds the bound,
  loses, duplicates or reorders an item.
\<close>

section \<open>The operations\<close>

text \<open>
  \<^verbatim>\<open>unsigned int cnt = m_que.size()\<close> keeps 32 bits of the size; the maximum is an
  \<^verbatim>\<open>unsigned long\<close>.
\<close>

definition isEmpty :: "'a list \<Rightarrow> bool" where
  "isEmpty m_que \<longleftrightarrow> (word_of_nat (length m_que) :: u32) = 0"

definition isFull :: "u64 \<Rightarrow> 'a list \<Rightarrow> bool" where
  "isFull m_maxQueueSize m_que \<longleftrightarrow> ucast (word_of_nat (length m_que) :: u32) = m_maxQueueSize"

text \<open>
  The six blocking calls: \<^verbatim>\<open>try_push\<close>, \<^verbatim>\<open>push(item, thr, timeout)\<close>, \<^verbatim>\<open>push(item)\<close>,
  \<^verbatim>\<open>try_pop\<close>, \<^verbatim>\<open>pop(out, thr, timeout)\<close> and \<^verbatim>\<open>pop(out)\<close>. A piece of a call
  ends with the thread waiting on a condition variable, or with a return code, the queue and,
  for a pop that succeeded, the item stored through \<^verbatim>\<open>out\<close>.
\<close>

datatype 'a call = TryPush 'a | PushTimed 'a | Push 'a | TryPop | PopTimed | Pop

datatype 'a piece = Waits | Returns int "'a option"

definition push_item :: "'a \<Rightarrow> 'a list \<Rightarrow> 'a piece \<times> 'a list" where
  "push_item item q = (Returns 0 None, q @ [item])"

definition pop_item :: "'a list \<Rightarrow> 'a piece \<times> 'a list" where
  "pop_item q = (Returns 0 (Some (hd q)), tl q)"

text \<open>The head of the loop, reached with the mutex held; \<open>stopped\<close> is \<^verbatim>\<open>thr->isTerminated()\<close>.\<close>

fun loop_head :: "u64 \<Rightarrow> bool \<Rightarrow> 'a call \<Rightarrow> 'a list \<Rightarrow> 'a piece \<times> 'a list" where
  "loop_head mx stopped (TryPush item) q =
     (if isFull mx q then (Waits, q) else if stopped then (Returns (-1) None, q) else push_item item q)"
| "loop_head mx stopped (PushTimed item) q =
     (if isFull mx q then (Waits, q) else if stopped then (Returns (-1) None, q) else push_item item q)"
| "loop_head mx stopped (Push item) q = (if isFull mx q then (Waits, q) else push_item item q)"
| "loop_head mx stopped TryPop q =
     (if isEmpty q then (Waits, q) else if stopped then (Returns (-1) None, q) else pop_item q)"
| "loop_head mx stopped PopTimed q =
     (if isEmpty q then (Waits, q) else if stopped then (Returns (-1) None, q) else pop_item q)"
| "loop_head mx stopped Pop q = (if isEmpty q then (Waits, q) else pop_item q)"

text \<open>
  What follows a wait, which ends by a timeout (\<open>timedout\<close>), a notification or spuriously.
\<close>

fun after_wait :: "u64 \<Rightarrow> bool \<Rightarrow> bool \<Rightarrow> 'a call \<Rightarrow> 'a list \<Rightarrow> 'a piece \<times> 'a list" where
  "after_wait mx timedout stopped (TryPush item) q =
     (if timedout then (Returns (-2) None, q) else if stopped then (Returns (-1) None, q)
      else loop_head mx stopped (TryPush item) q)"
| "after_wait mx timedout stopped (PushTimed item) q =
     (if stopped then (Returns (-1) None, q) else loop_head mx stopped (PushTimed item) q)"
| "after_wait mx timedout stopped (Push item) q = loop_head mx stopped (Push item) q"
| "after_wait mx timedout stopped TryPop q =
     (if timedout then (Returns (-2) None, q) else if stopped then (Returns (-1) None, q)
      else loop_head mx stopped TryPop q)"
| "after_wait mx timedout stopped PopTimed q =
     (if stopped then (Returns (-1) None, q) else loop_head mx stopped PopTimed q)"
| "after_wait mx timedout stopped Pop q = loop_head mx stopped Pop q"

text \<open>
  A whole call, as its thread sees it: each wait ends with whether it timed out, whether the
  thread has been terminated and the queue as the others left it. A call whose wait never ends
  has no result.
\<close>

type_synonym 'a wake = "bool \<times> bool \<times> 'a list"

fun resume :: "u64 \<Rightarrow> 'a call \<Rightarrow> 'a piece \<times> 'a list \<Rightarrow> 'a wake list \<Rightarrow>
    ((int \<times> 'a option) \<times> 'a list \<times> 'a wake list) option" where
  "resume mx cl (Returns c out, q) ws = Some ((c, out), q, ws)"
| "resume mx cl (Waits, q) [] = None"
| "resume mx cl (Waits, q) ((timedout, stopped, q') # ws) = resume mx cl (after_wait mx timedout stopped cl q') ws"

definition run_call :: "u64 \<Rightarrow> bool \<Rightarrow> 'a call \<Rightarrow> 'a list \<Rightarrow> 'a wake list \<Rightarrow>
    ((int \<times> 'a option) \<times> 'a list \<times> 'a wake list) option" where
  "run_call mx stopped cl q ws = resume mx cl (loop_head mx stopped cl q) ws"

section \<open>Interleavings\<close>

text \<open>
  \<open>waiting\<close> holds the threads blocked inside a call; \<open>pushed\<close> and \<open>popped\<close> record, in the
  order of the critical sections, the items of the calls that returned 0.
\<close>

record ('t, 'a) monitor =
  m_que :: "'a list"
  waiting :: "'t \<Rightarrow> 'a call option"
  pushed :: "'a list"
  popped :: "'a list"

definition monitor_init :: "('t, 'a) monitor" where
  "monitor_init = \<lparr>m_que = [], waiting = (\<lambda>_. None), pushed = [], popped = []\<rparr>"

fun call_item :: "'a call \<Rightarrow> 'a option" where
  "call_item (TryPush x) = Some x"
| "call_item (PushTimed x) = Some x"
| "call_item (Push x) = Some x"
| "call_item _ = None"

definition finish :: "'t \<Rightarrow> 'a call \<Rightarrow> 'a piece \<times> 'a list \<Rightarrow> ('t, 'a) monitor \<Rightarrow> ('t, 'a) monitor" where
  "finish t cl r s =
     (case r of
        (Waits, q) \<Rightarrow> s\<lparr>m_que := q, waiting := (waiting s)(t \<mapsto> cl)\<rparr>
      | (Returns c out, q) \<Rightarrow>
          s\<lparr>m_que := q, waiting := (waiting s)(t := None),
            pushed := pushed s @ (if c = 0 then (case call_item cl of Some x \<Rightarrow> [x] | None \<Rightarrow> []) else []),
            popped := popped s @ (case out of Some x \<Rightarrow> [x] | None \<Rightarrow> [])\<rparr>)"

inductive monitor_step :: "u64 \<Rightarrow> ('t, 'a) monitor \<Rightarrow> ('t, 'a) monitor \<Rightarrow> bool" for mx where
  enter: "waiting s t = None \<Longrightarrow> monitor_step mx s (finish t cl (loop_head mx stopped cl (m_que s)) s)"
| wake: "waiting s t = Some cl \<Longrightarrow>
    monitor_step mx s (finish t cl (after_wait mx timedout stopped cl (m_que s)) s)"

inductive monitor_reachable :: "u64 \<Rightarrow> ('t, 'a) monitor \<Rightarrow> bool" for mx where
  init: "monitor_reachable mx monitor_init"
| step: "monitor_reachable mx s \<Longrightarrow> monitor_step mx s s' \<Longrightarrow> monitor_reachable mx s'"

inductive_cases monitor_stepE: "monitor_step mx s s'"

section \<open>Lemmas\<close>

lemma isEmpty_iff: "length q < 2 ^ 32 \<Longrightarrow> isEmpty q \<longleftrightarrow> q = []"
  unfolding isEmpty_def by (subst word_of_nat_eq_0_iff) (auto dest: dvd_imp_le)

lemma isFull_iff: "isFull mx q \<longleftrightarrow> length q mod 2 ^ 32 = unat mx"
proof -
  have "unat (ucast (word_of_nat (length q) :: u32) :: u64) = length q mod 2 ^ 32"
    by (simp add: unsigned_ucast_eq unsigned_of_nat take_bit_eq_mod)
  then show ?thesis unfolding isFull_def by (metis word_unat_eq_iff)
qed

definition within_bound :: "u64 \<Rightarrow> 'a list \<Rightarrow> bool" where
  "within_bound mx q \<longleftrightarrow> length q \<le> unat mx"

text \<open>What a piece of a call may do to the queue.\<close>

definition fifo_effect :: "'a call \<Rightarrow> 'a list \<Rightarrow> 'a piece \<times> 'a list \<Rightarrow> bool" where
  "fifo_effect cl q r \<longleftrightarrow>
     r = (Waits, q) \<or> (\<exists>c. c \<noteq> 0 \<and> r = (Returns c None, q)) \<or>
     (\<exists>x. call_item cl = Some x \<and> r = (Returns 0 None, q @ [x])) \<or>
     (\<exists>x q'. call_item cl = None \<and> q = x # q' \<and> r = (Returns 0 (Some x), q'))"

lemma loop_head_fifo: "fifo_effect cl q (loop_head mx stopped cl q)"
proof -
  have "isEmpty q \<or> (\<exists>x q'. q = x # q')" by (cases q) (simp_all add: isEmpty_def)
  then show ?thesis
    by (cases cl) (auto simp: fifo_effect_def push_item_def pop_item_def)
qed

lemma after_wait_fifo: "fifo_effect cl q (after_wait mx timedout stopped cl q)"
  using loop_head_fifo [of cl q mx stopped] by (cases cl) (auto simp: fifo_effect_def)

lemma loop_head_bound:
  assumes "unat mx < 2 ^ 32" and "within_bound mx q"
  shows "within_bound mx (snd (loop_head mx stopped cl q))"
proof -
  have "isFull mx q \<longleftrightarrow> length q = unat mx"
    using assms by (simp add: isFull_iff within_bound_def)
  then show ?thesis using assms(2)
    by (cases cl) (auto simp: within_bound_def push_item_def pop_item_def)
qed

lemma after_wait_bound:
  assumes "unat mx < 2 ^ 32" and "within_bound mx q"
  shows "within_bound mx (snd (after_wait mx timedout stopped cl q))"
  using assms(2) loop_head_bound [OF assms, of stopped cl]
  by (cases cl) (auto simp del: loop_head.simps)

lemma finish_fifo:
  assumes "fifo_effect cl (m_que s) r" and "pushed s = popped s @ m_que s"
  shows "pushed (finish t cl r s) = popped (finish t cl r s) @ m_que (finish t cl r s)"
  using assms by (auto simp: fifo_effect_def finish_def)

lemma m_que_finish: "m_que (finish t cl r s) = snd r"
  by (auto simp: finish_def split: prod.split piece.split)

lemma monitor_step_fifo:
  "monitor_step mx s s' \<Longrightarrow> pushed s = popped s @ m_que s \<Longrightarrow> pushed s' = popped s' @ m_que s'"
  by (elim monitor_stepE) (auto intro!: finish_fifo loop_head_fifo after_wait_fifo)

lemma monitor_step_bound:
  "monitor_step mx s s' \<Longrightarrow> unat mx < 2 ^ 32 \<Longrightarrow> within_bound mx (m_que s) \<Longrightarrow> within_bound mx (m_que s')"
  by (elim monitor_stepE) (auto simp: m_que_finish intro: loop_head_bound after_wait_bound)

text \<open>A pop finds the head of a queue that is not empty, a push adds to one that is not full.\<close>

lemma run_call_try_pop [simp]:
  "length (x # q) < 2 ^ 32 \<Longrightarrow> run_call mx False TryPop (x # q) ws = Some ((0, Some x), q, ws)"
  using isEmpty_iff [of "x # q"] by (simp add: run_call_def pop_item_def)

lemma run_call_push [simp]:
  "\<not> isFull mx q \<Longrightarrow> run_call mx False (PushTimed x) q ws = Some ((0, None), q @ [x], ws)"
  by (simp add: run_call_def push_item_def)

text \<open>
  C7. Whatever the interleaving of the threads, their timeouts, spurious wake-ups and
  terminations: the items popped followed by the items in the queue are the items pushed, in
  order, so nothing is lost, duplicated or overtaken; and a queue created for fewer than
  $2^{32}$ items never holds more than its maximum.
\<close>

lemma queue_fifo_and_bounded:
  assumes "monitor_reachable mx s" and "unat mx < 2 ^ 32"
  shows "pushed s = popped s @ m_que s \<and> length (m_que s) \<le> unat mx"
proof -
  from assms(1) have "pushed s = popped s @ m_que s \<and> within_bound mx (m_que s)"
    by (induction rule: monitor_reachable.induct)
      (auto simp: monitor_init_def within_bound_def intro: monitor_step_fifo
        monitor_step_bound [OF _ assms(2), unfolded within_bound_def])
  then show ?thesis by (simp add: within_bound_def)
qed

lemma queue_fifo_and_bounded_witness:
  "pushed (finish (1 :: nat) (Push 8) (loop_head 1 False (Push (8 :: nat)) [7])
       (finish 0 (TryPush 7) (loop_head 1 False (TryPush 7) []) monitor_init)) = [7]"
proof -
  define s where "s = finish (0 :: nat) (TryPush (7 :: nat)) (loop_head 1 False (TryPush 7) []) monitor_init"
  define t where "t = finish (1 :: nat) (Push 8) (loop_head 1 False (Push (8 :: nat)) [7]) s"
  have s: "m_que s = [7]" "waiting s 1 = None" "popped s = []"
    by (simp_all add: s_def finish_def monitor_init_def push_item_def isFull_iff)
  have "monitor_reachable 1 s"
    using monitor_reachable.step [OF monitor_reachable.init monitor_step.enter [of monitor_init 0 1 "TryPush 7" False]]
    by (simp add: monitor_init_def s_def del: loop_head.simps)
  moreover have "monitor_step 1 s t"
    using monitor_step.enter [of s 1 1 "Push 8" False] s by (simp add: t_def del: loop_head.simps)
  ultimately have "monitor_reachable 1 t" by (rule monitor_reachable.step)
  moreover have "m_que t = [7]" "popped t = []" by (simp_all add: t_def finish_def isFull_iff s)
  ultimately show ?thesis using queue_fifo_and_bounded [of 1 t] unfolding s_def t_def by simp
qed

end
