(* ===== verification/Hex.thy ===== *)
theory Hex
  imports DataPack
begin

text \<open>
  Hexadecimal text: \<^verbatim>\<open>src/utils/hex.cpp\<close>, \<^verbatim>\<open>src/utils/address.cpp\<close> and the decoder of
  the SRP library, \<^verbatim>\<open>src/crypto/dsrp/conversion.cpp\<close>. The lemmas show that printing and
  parsing are inverse, which texts are accepted, and that the two decoders agree.
\<close>

section \<open>Bytes to text\<close>

definition hexTable :: "string list" where
  "hexTable = [
   ''00'', ''01'', ''02'', ''03'', ''04'', ''05'', ''06'', ''07'', ''08'', ''09'', ''0A'', ''0B'', ''0C'', ''0D'', ''0E'', ''0F'',
   ''10'', ''11'', ''12'', ''13'', ''14'', ''15'', ''16'', ''17'', ''18'', ''19'', ''1A'', ''1B'', ''1C'', ''1D'', ''1E'', ''1F'',
   ''20'', ''21'', ''22'', ''23'', ''24'', ''25'', ''26'', ''27'', ''28'', ''29'', ''2A'', ''2B'', ''2C'', ''2D'', ''2E'', ''2F'',
   ''30'', ''31'', ''32'', ''33'', ''34'', ''35'', ''36'', ''37'', ''38'', ''39'', ''3A'', ''3B'', ''3C'', ''3D'', ''3E'', ''3F'',
   ''40'', ''41'', ''42'', ''43'', ''44'', ''45'', ''46'', ''47'', ''48'', ''49'', ''4A'', ''4B'', ''4C'', ''4D'', ''4E'', ''4F'',
   ''50'', ''51'', ''52'', ''53'', ''54'', ''55'', ''56'', ''57'', ''58'', ''59'', ''5A'', ''5B'', ''5C'', ''5D'', ''5E'', ''5F'',
   ''60'', ''61'', ''62'', ''63'', ''64'', ''65'', ''66'', ''67'', ''68'', ''69'', ''6A'', ''6B'', ''6C'', ''6D'', ''6E'', ''6F'',
   ''70'', ''71'', ''72'', ''73'', ''74'', ''75'', ''76'', ''77'', ''78'', ''79'', ''7A'', ''7B'', ''7C'', ''7D'', ''7E'', ''7F'',
   ''80'', ''81'', ''82'', ''83'', ''84'', ''85'', ''86'', ''87'', ''88'', ''89'', ''8A'', ''8B'', ''8C'', ''8D'', ''8E'', ''8F'',
   ''90'', ''91'', ''92'', ''93'', ''94'', ''95'', ''96'', ''97'', ''98'', ''99'', ''9A'', ''9B'', ''9C'', ''9D'', ''9E'', ''9F'',
   ''A0'', ''A1'', ''A2'', ''A3'', ''A4'', ''A5'', ''A6'', ''A7'', ''A8'', ''A9'', ''AA'', ''AB'', ''AC'', ''AD'', ''AE'', ''AF'',
   ''B0'', ''B1'', ''B2'', ''B3'', ''B4'', ''B5'', ''B6'', ''B7'', ''B8'', ''B9'', ''BA'', ''BB'', ''BC'', ''BD'', ''BE'', ''BF'',
   ''C0'', ''C1'', ''C2'', ''C3'', ''C4'', ''C5'', ''C6'', ''C7'', ''C8'', ''C9'', ''CA'', ''CB'', ''CC'', ''CD'', ''CE'', ''CF'',
   ''D0'', ''D1'', ''D2'', ''D3'', ''D4'', ''D5'', ''D6'', ''D7'', ''D8'', ''D9'', ''DA'', ''DB'', ''DC'', ''DD'', ''DE'', ''DF'',
   ''E0'', ''E1'', ''E2'', ''E3'', ''E4'', ''E5'', ''E6'', ''E7'', ''E8'', ''E9'', ''EA'', ''EB'', ''EC'', ''ED'', ''EE'', ''EF'',
   ''F0'', ''F1'', ''F2'', ''F3'', ''F4'', ''F5'', ''F6'', ''F7'', ''F8'', ''F9'', ''FA'', ''FB'', ''FC'', ''FD'', ''FE'', ''FF'']"

definition byteToString :: "byte \<Rightarrow> string" where
  "byteToString b = hexTable ! unat b"

section \<open>Text to bytes\<close>

text \<open>The C library's character tests, in the "C" locale.\<close>

definition isxdigit :: "char \<Rightarrow> bool" where
  "isxdigit c \<longleftrightarrow> c \<in> set ''0123456789abcdefABCDEF''"

definition isspace :: "char \<Rightarrow> bool" where
  "isspace c \<longleftrightarrow> (let n = of_char c :: nat in n = 32 \<or> 9 \<le> n \<and> n \<le> 13)"

definition xdigit_val :: "char \<Rightarrow> nat" where
  "xdigit_val c =
     (let n = of_char c :: nat in if n \<le> 57 then n - 48 else if n \<le> 70 then n - 55 else n - 87)"

text \<open>
  \<^verbatim>\<open>strtoul(buf, &pend, 16)\<close> on the characters before the terminating NUL: the value and how
  many characters were consumed. White space, a sign and a \<^verbatim>\<open>0x\<close> prefix are skipped
  (the prefix only when a digit follows it); a minus sign negates in \<^verbatim>\<open>unsigned long\<close>.
\<close>

definition strtoul16 :: "string \<Rightarrow> nat \<times> nat" where
  "strtoul16 buf =
     (let ws = length (takeWhile isspace buf);
          r = drop ws buf;
          sg = (if r \<noteq> [] \<and> (hd r = CHR ''+'' \<or> hd r = CHR ''-'') then 1 else 0);
          neg = (r \<noteq> [] \<and> hd r = CHR ''-'');
          r = drop sg r;
          pre = (if length r \<ge> 3 \<and> r ! 0 = CHR ''0'' \<and> (r ! 1 = CHR ''x'' \<or> r ! 1 = CHR ''X'') \<and> isxdigit (r ! 2)
                 then 2 else 0);
          ds = takeWhile isxdigit (drop pre r);
          v = foldl (\<lambda>a c. a * 16 + xdigit_val c) 0 ds
      in if ds = [] then (0, 0)
         else (if neg then 2 ^ 64 - v else v, ws + sg + pre + length ds))"

text \<open>
  The loop over pairs of \<^verbatim>\<open>hexToBytes\<close>: \<open>data\<close> is the result vector, \<open>i\<close> the next index;
  the remaining text always holds two characters for every remaining index.
\<close>

fun hex_loop :: "string \<Rightarrow> bytes \<Rightarrow> nat \<Rightarrow> bool \<times> bytes" where
  "hex_loop (a # b # cs) data i =
     (if \<not> isxdigit a then (False, data)
      else let (x, n) = strtoul16 [a, b]
           in if n \<noteq> 2 then (False, data)
              else hex_loop cs (data[i := word_of_nat x]) (Suc i))"
| "hex_loop cs data i = (True, data)"

definition hexToBytes :: "string \<Rightarrow> bool \<times> bytes" where
  "hexToBytes str =
     (if str = [] then (True, [])
      else let lengthOverflow = length str mod 2;
               len = lengthOverflow + length str div 2;
               data = replicate len 0
           in if lengthOverflow = 1
              then let (x, n) = strtoul16 [CHR ''0'', hd str]
                   in if n \<noteq> 2 then (False, data)
                      else hex_loop (tl str) (data[0 := word_of_nat x]) 1
              else hex_loop str data 0)"

section \<open>Addresses\<close>

definition sanAddressSize :: nat where "sanAddressSize = 32"
definition sanHashSize :: nat where "sanHashSize = 20"

text \<open>\<open>None\<close> is the result \<^verbatim>\<open>false\<close>, which leaves the reference parameter as it was.\<close>

definition string2address :: "string \<Rightarrow> bytes option" where
  "string2address strAddress =
     (let (ok, b) = hexToBytes strAddress
      in if \<not> ok then None else if length b \<noteq> sanAddressSize then None else Some b)"

definition address2string :: "bytes \<Rightarrow> string" where
  "address2string sanAddress = concat (map byteToString sanAddress)"

definition string2appid :: "string \<Rightarrow> bytes option" where
  "string2appid strAppId =
     (let (ok, b) = hexToBytes strAppId
      in if \<not> ok then None else if length b \<noteq> sanHashSize then None else Some b)"

definition appid2string :: "bytes \<Rightarrow> string" where
  "appid2string sanAppId = concat (map byteToString sanAppId)"

definition exapndHexSanAddress :: "string \<Rightarrow> bool \<times> string" where
  "exapndHexSanAddress strAddress =
     (if length strAddress = sanAddressSize * 2 then (True, strAddress)
      else if length strAddress > sanAddressSize * 2 then (False, strAddress)
      else (True, replicate (sanAddressSize * 2 - length strAddress) CHR ''0'' @ strAddress))"

definition getExpandedAddress :: "string \<Rightarrow> bytes option" where
  "getExpandedAddress strAddress =
     (let (ok, s) = exapndHexSanAddress strAddress in if ok then string2address s else None)"

section \<open>The decoder of the SRP library\<close>

definition hexnormalize :: "byte \<Rightarrow> byte option" where
  "hexnormalize c =
     (if 48 \<le> c \<and> c \<le> 57 then Some (c - 48)
      else if 65 \<le> c \<and> c \<le> 70 then Some (c - 55)
      else if 97 \<le> c \<and> c \<le> 102 then Some (c - 87)
      else None)"

fun hextobyte_loop :: "string \<Rightarrow> bytes option" where
  "hextobyte_loop (a # b # cs) =
     (case (hexnormalize (byte_of_char a), hexnormalize (byte_of_char b)) of
        (Some c1, Some c2) \<Rightarrow> map_option ((#) (c1 * 16 + c2)) (hextobyte_loop cs)
      | _ \<Rightarrow> None)"
| "hextobyte_loop cs = Some []"

definition hextobyte :: "string \<Rightarrow> bytes run" where
  "hextobyte hexstring =
     (if length hexstring mod 2 \<noteq> 0 then Inl (Thrown ''Hex string must have even number of characters.'')
      else case hextobyte_loop hexstring of
        None \<Rightarrow> Inl (Thrown ''Invalid character detected - hex string can only consist of 0..9 a..f A..F; Didnt you forgot to trim newline?'')
      | Some result \<Rightarrow> Inr result)"

text \<open>\<^verbatim>\<open>hexstring2bytes(in.c_str())\<close>: the text ends at the first NUL.\<close>

definition hexstring2bytes :: "string \<Rightarrow> bytes run" where
  "hexstring2bytes s = hextobyte (takeWhile (\<lambda>c. c \<noteq> CHR 0x00) s)"

section \<open>Digits\<close>

definition hexdig :: "nat \<Rightarrow> char" where
  "hexdig k = ''0123456789ABCDEF'' ! k"

lemma hexTable_eq: "hexTable = map (\<lambda>k. [hexdig (k div 16), hexdig (k mod 16)]) [0..<256]"
  by code_simp

lemma byteToString_eq: "byteToString b = [hexdig (unat b div 16), hexdig (unat b mod 16)]"
proof -
  have "unat b < 256" using unsigned_less [of b] by simp
  then show ?thesis by (simp add: byteToString_def hexTable_eq)
qed

lemma hexdig_ok: "k < 16 \<Longrightarrow> isxdigit (hexdig k) \<and> xdigit_val (hexdig k) = k"
proof -
  have "\<forall>k\<in>set [0..<16]. isxdigit (hexdig k) \<and> xdigit_val (hexdig k) = k" by code_simp
  then show "k < 16 \<Longrightarrow> isxdigit (hexdig k) \<and> xdigit_val (hexdig k) = k" by simp
qed

lemma isxdigit_code:
  "isxdigit c \<longleftrightarrow> (let n = of_char c :: nat in 48 \<le> n \<and> n \<le> 57 \<or> 65 \<le> n \<and> n \<le> 70 \<or> 97 \<le> n \<and> n \<le> 102)"
proof
  show "isxdigit c \<Longrightarrow> let n = of_char c :: nat in 48 \<le> n \<and> n \<le> 57 \<or> 65 \<le> n \<and> n \<le> 70 \<or> 97 \<le> n \<and> n \<le> 102"
    by (auto simp: isxdigit_def)
next
  let ?n = "of_char c :: nat"
  have all: "\<forall>n\<in>set ([48..<58] @ [65..<71] @ [97..<103]). isxdigit (char_of (n :: nat))"
    by (simp add: isxdigit_def char_of_def bit_0)
  assume "let n = of_char c :: nat in 48 \<le> n \<and> n \<le> 57 \<or> 65 \<le> n \<and> n \<le> 70 \<or> 97 \<le> n \<and> n \<le> 102"
  moreover have "m \<in> set ([48..<58] @ [65..<71] @ [97..<103])"
    if "48 \<le> m \<and> m \<le> 57 \<or> 65 \<le> m \<and> m \<le> 70 \<or> 97 \<le> m \<and> m \<le> 102" for m :: nat
    using that by (simp only: set_append set_upt) auto
  ultimately have "?n \<in> set ([48..<58] @ [65..<71] @ [97..<103])" unfolding Let_def by blast
  then show "isxdigit c" using bspec [OF all, of ?n] by simp
qed

lemma isxdigit_not_NUL: "isxdigit c \<Longrightarrow> c \<noteq> CHR 0x00"
  by (auto simp: isxdigit_def)

lemma xdigit_val_less: "isxdigit c \<Longrightarrow> xdigit_val c < 16"
  by (auto simp: isxdigit_code xdigit_val_def Let_def)

lemma isxdigit_no_prefix: "isxdigit c \<Longrightarrow> \<not> isspace c \<and> c \<noteq> CHR ''+'' \<and> c \<noteq> CHR ''-''"
  by (auto simp: isxdigit_def isspace_def)

lemma strtoul16_pair:
  "isxdigit a \<Longrightarrow> strtoul16 [a, b] =
     (if isxdigit b then (16 * xdigit_val a + xdigit_val b, 2) else (xdigit_val a, 1))"
  using isxdigit_no_prefix [of a] by (simp add: strtoul16_def Let_def)

section \<open>What the decoders compute\<close>

text \<open>The abstract decoder: two digits for every byte, or nothing.\<close>

fun hex_pairs :: "string \<Rightarrow> bytes option" where
  "hex_pairs [] = Some []"
| "hex_pairs [a] = None"
| "hex_pairs (a # b # cs) =
     (if isxdigit a \<and> isxdigit b
      then map_option ((#) (word_of_nat (16 * xdigit_val a + xdigit_val b))) (hex_pairs cs)
      else None)"

lemma hex_pairs_None_iff: "hex_pairs s = None \<longleftrightarrow> odd (length s) \<or> \<not> list_all isxdigit s"
  by (induction s rule: hex_pairs.induct) auto

lemma hex_pairs_length: "hex_pairs s = Some bs \<Longrightarrow> length s = 2 * length bs"
  by (induction s arbitrary: bs rule: hex_pairs.induct) (auto split: if_splits)

lemma hex_pairs_print: "hex_pairs (concat (map byteToString bs)) = Some bs"
proof (induction bs)
  case Nil
  then show ?case by simp
next
  case (Cons b bs)
  have "unat b < 256" using unsigned_less [of b] by simp
  then have "unat b div 16 < 16" "unat b mod 16 < 16" by auto
  with Cons show ?case by (simp add: byteToString_eq hexdig_ok)
qed

lemma hex_loop_spec:
  "even (length cs) \<Longrightarrow> length data = i + length cs div 2 \<Longrightarrow>
   (case hex_pairs cs of Some bs \<Rightarrow> hex_loop cs data i = (True, take i data @ bs)
    | None \<Rightarrow> \<not> fst (hex_loop cs data i))"
proof (induction cs data i rule: hex_loop.induct)
  case (1 a b cs data i)
  show ?case
  proof (cases "isxdigit a \<and> isxdigit b")
    case False
    then show ?thesis using strtoul16_pair [of a b] by (auto simp: Let_def)
  next
    case True
    let ?v = "word_of_nat (16 * xdigit_val a + xdigit_val b) :: byte"
    have i: "i < length data" using 1(3) by simp
    have "case hex_pairs cs of Some bs \<Rightarrow>
            hex_loop cs (data[i := ?v]) (Suc i) = (True, take (Suc i) (data[i := ?v]) @ bs)
          | None \<Rightarrow> \<not> fst (hex_loop cs (data[i := ?v]) (Suc i))"
      using 1 True by (auto simp: strtoul16_pair)
    then show ?thesis
      using True i by (cases "hex_pairs cs") (simp_all add: strtoul16_pair take_Suc_conv_app_nth)
  qed
qed simp_all

lemma hexToBytes_odd:
  assumes "odd (length str)" shows "hexToBytes str = hexToBytes (CHR ''0'' # str)"
proof -
  from assms obtain c cs where str: "str = c # cs" by (cases str) auto
  have "isxdigit CHR ''0''" by (simp add: isxdigit_def)
  moreover have "length cs mod 2 = 0" "length str mod 2 = 1" using assms str by auto
  moreover have "Suc (length cs) div 2 = length cs div 2" using assms str by simp
  ultimately show ?thesis
    using str by (simp add: hexToBytes_def Let_def case_prod_unfold)
qed

lemma hexToBytes_spec:
  "case hex_pairs (if odd (length s) then CHR ''0'' # s else s) of
     Some bs \<Rightarrow> hexToBytes s = (True, bs) | None \<Rightarrow> \<not> fst (hexToBytes s)"
proof -
  have even: "case hex_pairs t of Some bs \<Rightarrow> hexToBytes t = (True, bs) | None \<Rightarrow> \<not> fst (hexToBytes t)"
    if "even (length t)" for t
    using hex_loop_spec [of t "replicate (length t div 2) 0" 0] that
    by (auto simp: hexToBytes_def Let_def even_iff_mod_2_eq_zero split: option.splits)
  show ?thesis using even [of s] even [of "CHR ''0'' # s"] hexToBytes_odd [of s]
    by (cases "odd (length s)") (auto split: option.splits)
qed

lemma hexToBytes_print [simp]: "hexToBytes (concat (map byteToString bs)) = (True, bs)"
proof -
  have "even (length (concat (map byteToString bs)))"
    using hex_pairs_length [OF hex_pairs_print] by simp
  then show ?thesis
    using hexToBytes_spec [of "concat (map byteToString bs)"] by (simp add: hex_pairs_print)
qed

lemma hexnormalize_char:
  "hexnormalize (byte_of_char c) = (if isxdigit c then Some (word_of_nat (xdigit_val c)) else None)"
proof -
  let ?n = "of_char c :: nat"
  have n: "?n < 256" by simp
  have "byte_of_char c = word_of_nat ?n" by (simp add: byte_of_char_def)
  moreover have "k \<le> (word_of_nat ?n :: byte) \<longleftrightarrow> unat k \<le> ?n" for k
    using n by (simp add: word_le_nat_alt unsigned_of_nat take_bit_eq_mod)
  moreover have "(word_of_nat ?n :: byte) \<le> k \<longleftrightarrow> ?n \<le> unat k" for k
    using n by (simp add: word_le_nat_alt unsigned_of_nat take_bit_eq_mod)
  ultimately show ?thesis
    by (auto simp: hexnormalize_def isxdigit_code xdigit_val_def Let_def)
qed

lemma hextobyte_loop_eq: "even (length s) \<Longrightarrow> hextobyte_loop s = hex_pairs s"
  by (induction s rule: hex_pairs.induct) (auto simp: hexnormalize_char mult.commute)

section \<open>Addresses and the two decoders\<close>

lemma length_address2string: "length (address2string a) = 2 * length a"
  by (simp add: address2string_def hex_pairs_length [OF hex_pairs_print])

lemma string2address_length: "string2address s = Some a \<Longrightarrow> length a = 32"
  by (auto simp: string2address_def sanAddressSize_def split: prod.splits if_splits)

lemma string2appid_length: "string2appid s = Some a \<Longrightarrow> length a = 20"
  by (auto simp: string2appid_def sanHashSize_def split: prod.splits if_splits)

lemma string2address_print: "length a = 32 \<Longrightarrow> string2address (address2string a) = Some a"
  by (simp add: string2address_def address2string_def sanAddressSize_def)

lemma string2appid_print: "length a = 20 \<Longrightarrow> string2appid (appid2string a) = Some a"
  by (simp add: string2appid_def appid2string_def sanHashSize_def)

lemma getExpandedAddress_drop:
  assumes "length a = 32" and "take k (address2string a) = replicate k CHR ''0''"
  shows "getExpandedAddress (drop k (address2string a)) = Some a"
proof -
  have len: "length (address2string a) = 64" using assms(1) by (simp add: length_address2string)
  have k: "k \<le> 64" using arg_cong [OF assms(2), of length] len by simp
  then have k0: "64 - k = 64 \<longleftrightarrow> k = 0" by arith
  have "replicate k CHR ''0'' @ drop k (address2string a) = address2string a"
    using assms(2) append_take_drop_id [of k "address2string a"] by simp
  then have "exapndHexSanAddress (drop k (address2string a)) = (True, address2string a)"
    using k k0 len by (cases "k = 0") (simp_all add: exapndHexSanAddress_def sanAddressSize_def not_less)
  then show ?thesis by (simp add: getExpandedAddress_def string2address_print assms(1))
qed

lemma hextobyte_iff:
  "hextobyte s = Inr b \<longleftrightarrow> even (length s) \<and> hexToBytes s = (True, b)"
  using hexToBytes_spec [of s]
  by (auto simp: hextobyte_def hextobyte_loop_eq even_iff_mod_2_eq_zero split: option.splits)

lemma hexstring2bytes_print: "hexstring2bytes (concat (map byteToString bs)) = Inr bs"
proof -
  have "list_all isxdigit (concat (map byteToString bs))"
    using hex_pairs_print [of bs] hex_pairs_None_iff [of "concat (map byteToString bs)"] by simp
  then have tw: "takeWhile (\<lambda>c. c \<noteq> CHR 0x00) (concat (map byteToString bs)) = concat (map byteToString bs)"
    unfolding takeWhile_eq_all_conv list_all_iff by (metis isxdigit_not_NUL)
  have "even (length (concat (map byteToString bs)))"
    using hex_pairs_length [OF hex_pairs_print] by simp
  then show ?thesis unfolding hexstring2bytes_def hextobyte_iff tw by simp
qed

text \<open>
  An address is printed as 64 digits, and is read back from them, also when some or all
  of its leading zeros are left out, as a user may.
\<close>

lemma address_roundtrip:
  assumes "length a = 32" and "take k (address2string a) = replicate k CHR ''0''"
  shows "length (address2string a) = 64 \<and> getExpandedAddress (drop k (address2string a)) = Some a"
  using getExpandedAddress_drop [OF assms] length_address2string [of a] assms(1) by simp

text \<open>
  The two decoders of hexadecimal text. The one for addresses accepts exactly the strings of
  digits and gives the bytes of their pairs, a digit 0 put before an odd number of them; the one of
  the SRP library throws on an odd number and otherwise agrees with it.
\<close>

lemma hex_decoders_agree:
  "(case hex_pairs (if odd (length s) then CHR ''0'' # s else s) of
      Some bs \<Rightarrow> hexToBytes s = (True, bs) | None \<Rightarrow> \<not> fst (hexToBytes s)) \<and>
   (hextobyte s = Inr b \<longleftrightarrow> even (length s) \<and> hexToBytes s = (True, b))"
  using hexToBytes_spec [of s] hextobyte_iff [of s b] by simp

end
