(* ===== verification/Capsule.thy ===== *)
theory Capsule
  imports Hex
begin

text \<open>
  The capsule, the packet of the network: \<^verbatim>\<open>src/network/ccapsule.cpp\<close> and
  \<^verbatim>\<open>src/network/nettypedef.hpp\<close>. The lemmas show the wire format, that \<^verbatim>\<open>unpack\<close> inverts
  \<^verbatim>\<open>pack\<close> across hosts, which inputs \<^verbatim>\<open>unpack\<close> refuses, and what of a received
  header is not carried on.
\<close>

section \<open>Constants of the network\<close>

definition sanDefaultAddress :: bytes where
  "sanDefaultAddress = replicate sanAddressSize 0"

definition sanDefaultApplicationId :: bytes where
  "sanDefaultApplicationId = replicate sanHashSize 0"

definition sanTestMessageApplicationId :: bytes where
  "sanTestMessageApplicationId =
     [95,103,20,66,235,217,66,62,164,152,26,129,132,0,211,90,0,128,182,176]"

definition SAN_FLAGPOS_DX_POSITION :: nat where "SAN_FLAGPOS_DX_POSITION = 0"
definition SAN_FLAGPOS_DS_POSITION :: nat where "SAN_FLAGPOS_DS_POSITION = 1"

section \<open>The class\<close>

text \<open>
  \<^verbatim>\<open>CCapsule\<close> has no constructor: a new object holds whatever its memory held. Operations
  that create one take that content as an argument.
\<close>

record capsule =
  m_flagDX :: bool
  m_flagDS :: bool
  m_interfaceAddress :: bytes
  m_srcAddress :: bytes
  m_dstAddress :: bytes
  m_appId :: bytes
  m_hop :: u16
  m_data :: bytes

text \<open>The array members have a fixed size.\<close>

definition wf_capsule :: "capsule \<Rightarrow> bool" where
  "wf_capsule c \<longleftrightarrow> length (m_interfaceAddress c) = sanAddressSize \<and>
     length (m_srcAddress c) = sanAddressSize \<and> length (m_dstAddress c) = sanAddressSize \<and>
     length (m_appId c) = sanHashSize"

definition setSourceAddress :: "bytes \<Rightarrow> capsule \<Rightarrow> capsule" where
  "setSourceAddress a c = c\<lparr>m_srcAddress := a\<rparr>"

definition setDestinationAddress :: "bytes \<Rightarrow> capsule \<Rightarrow> capsule" where
  "setDestinationAddress a c = c\<lparr>m_dstAddress := a\<rparr>"

definition setHop :: "u16 \<Rightarrow> capsule \<Rightarrow> capsule" where
  "setHop h c = c\<lparr>m_hop := h\<rparr>"

definition setDX :: "bool \<Rightarrow> capsule \<Rightarrow> capsule" where
  "setDX b c = c\<lparr>m_flagDX := b\<rparr>"

definition setDS :: "bool \<Rightarrow> capsule \<Rightarrow> capsule" where
  "setDS b c = c\<lparr>m_flagDS := b\<rparr>"

definition setApplicationId :: "bytes \<Rightarrow> capsule \<Rightarrow> capsule" where
  "setApplicationId a c = c\<lparr>m_appId := a\<rparr>"

definition setFromInterfaceAddress :: "bytes \<Rightarrow> capsule \<Rightarrow> capsule" where
  "setFromInterfaceAddress a c = c\<lparr>m_interfaceAddress := a\<rparr>"

definition setData :: "bytes \<Rightarrow> capsule \<Rightarrow> capsule" where
  "setData d c = c\<lparr>m_data := d\<rparr>"

definition setDSdata :: "byte_order \<Rightarrow> u16 \<Rightarrow> u16 \<Rightarrow> bytes \<Rightarrow> capsule \<Rightarrow> capsule" where
  "setDSdata bo dstport srcport data c =
     (setDS True c)\<lparr>m_data := pack_uint16 bo dstport @ pack_uint16 bo srcport @ data\<rparr>"

definition hop2bytes :: "byte_order \<Rightarrow> u16 \<Rightarrow> bytes" where
  "hop2bytes bo hop = mem_store bo 2 (san_u_htobe16 bo hop)"

definition constructFlags :: "capsule \<Rightarrow> byte" where
  "constructFlags c =
     setFlag (setFlag 0 SAN_FLAGPOS_DX_POSITION (m_flagDX c)) SAN_FLAGPOS_DS_POSITION (m_flagDS c)"

definition parseFlags :: "byte \<Rightarrow> capsule \<Rightarrow> capsule" where
  "parseFlags flags c =
     c\<lparr>m_flagDX := getFlag flags SAN_FLAGPOS_DX_POSITION,
       m_flagDS := getFlag flags SAN_FLAGPOS_DS_POSITION\<rparr>"

definition capsule_pack :: "byte_order \<Rightarrow> capsule \<Rightarrow> bytes" where
  "capsule_pack bo c =
     m_dstAddress c @ m_srcAddress c @ hop2bytes bo (m_hop c) @ [constructFlags c] @ m_appId c @ m_data c"

definition headerSize :: nat where
  "headerSize = 2 * sanAddressSize + 2 + 1 + sanHashSize"

text \<open>\<open>unpack\<close> overwrites the object it is called on; it returns false before any write.\<close>

definition capsule_unpack :: "byte_order \<Rightarrow> capsule \<Rightarrow> bytes \<Rightarrow> bool \<times> capsule" where
  "capsule_unpack bo c capsule =
     (if length capsule < headerSize then (False, c)
      else
        let c = c\<lparr>m_dstAddress := take sanAddressSize capsule\<rparr>;
            c = c\<lparr>m_srcAddress := take sanAddressSize (drop sanAddressSize capsule)\<rparr>;
            c = c\<lparr>m_hop := san_u_be16toh bo (mem_load bo (take 2 (drop (2 * sanAddressSize) capsule)))\<rparr>;
            c = parseFlags (capsule ! (2 * sanAddressSize + 2)) c;
            from = 2 * sanAddressSize + 2 + 1;
            c = c\<lparr>m_appId := take sanHashSize (drop from capsule)\<rparr>;
            from = from + sanHashSize;
            c = c\<lparr>m_data := drop from capsule\<rparr>
        in (True, c))"

text \<open>\<^verbatim>\<open>getPortsDS(dstport, srcport)\<close>: \<open>None\<close> is \<^verbatim>\<open>false\<close>, with the parameters left alone.\<close>

definition getPortsDS :: "byte_order \<Rightarrow> capsule \<Rightarrow> (u16 \<times> u16) option" where
  "getPortsDS bo c =
     (if \<not> m_flagDS c then None
      else if length (m_data c) < 4 then None
      else Some (unpackUint16 bo (m_data c) 0, unpackUint16 bo (m_data c) 2))"

lemmas capsule_setters [step_simps] =
  setSourceAddress_def setDestinationAddress_def setHop_def setDX_def setDS_def
  setApplicationId_def setFromInterfaceAddress_def setData_def setDSdata_def


section \<open>Lemmas\<close>

lemmas size_defs = sanAddressSize_def sanHashSize_def headerSize_def

lemma hop2bytes_network [wire_simps]: "hop2bytes bo h = be_bytes 2 h"
  using pack_network(2) [of bo h] by (simp add: hop2bytes_def pack_uint16_def)

lemma hop_load: "length bs = 2 \<Longrightarrow> san_u_be16toh bo (mem_load bo bs) = be_word bs"
  using unpack_network16(1) [of bo bs 0] by (simp add: unpackUint16_def)

lemma constructFlags_cases:
  "constructFlags c = (if m_flagDX c then 1 else 0) + (if m_flagDS c then 2 else 0)"
  by (simp add: constructFlags_def setFlag_def SAN_FLAGPOS_DX_POSITION_def SAN_FLAGPOS_DS_POSITION_def)

lemma parse_constructFlags: "parseFlags (constructFlags c) d = d\<lparr>m_flagDX := m_flagDX c, m_flagDS := m_flagDS c\<rparr>"
  by (simp add: parseFlags_def constructFlags_def SAN_FLAGPOS_DX_POSITION_def SAN_FLAGPOS_DS_POSITION_def
      getFlag_bit bit_setFlag)

lemma length_capsule_pack [wire_simps]:
  "wf_capsule c \<Longrightarrow> length (capsule_pack bo c) = headerSize + length (m_data c)"
  by (simp add: capsule_pack_def wf_capsule_def size_defs wire_simps)

lemma capsule_unpack_pack:
  assumes "wf_capsule c"
  shows "capsule_unpack bo' d (capsule_pack bo c) = (True, c\<lparr>m_interfaceAddress := m_interfaceAddress d\<rparr>)"
proof -
  have h: "length (m_dstAddress c) = 32" "length (m_srcAddress c) = 32" "length (m_appId c) = 20"
    using assms by (simp_all add: wf_capsule_def size_defs)
  have hop: "san_u_be16toh bo' (mem_load bo' (be_bytes 2 (m_hop c))) = m_hop c"
    by (simp add: hop_load be_word_be_bytes)
  show ?thesis
    using h hop
    by (simp add: capsule_unpack_def length_capsule_pack [OF assms] Let_def)
      (simp add: capsule_pack_def size_defs wire_simps nth_append parse_constructFlags)
qed

lemma capsule_unpack_fails_iff:
  "fst (capsule_unpack bo c b) \<longleftrightarrow> headerSize \<le> length b"
  by (simp add: capsule_unpack_def Let_def)
lemma capsule_unpack_wf:
  "wf_capsule c \<Longrightarrow> wf_capsule (snd (capsule_unpack bo c b))"
  by (auto simp: capsule_unpack_def wf_capsule_def Let_def parseFlags_def size_defs)

lemma flags_masked:
  "constructFlags (parseFlags f c) = f AND 3"
  apply (rule word8_eqI)
  apply (simp add: parseFlags_def constructFlags_def SAN_FLAGPOS_DX_POSITION_def SAN_FLAGPOS_DS_POSITION_def
      getFlag_bit bit_setFlag bit_simps)
  done

text \<open>Packing what was unpacked restores the bytes, but for the unassigned flag bits, which are cleared.\<close>

lemma capsule_pack_unpack:
  assumes "headerSize \<le> length b"
  shows "capsule_pack bo (snd (capsule_unpack bo' c b)) = b[66 := b ! 66 AND 3]"
proof -
  have len: "87 \<le> length b" using assms by (simp add: size_defs)
  have hop: "hop2bytes bo (san_u_be16toh bo' (mem_load bo' (take 2 (drop 64 b)))) = take 2 (drop 64 b)"
    using len by (simp add: hop2bytes_network hop_load be_bytes_be_word)
  have "b[66 := x] = take 64 b @ take 2 (drop 64 b) @ [x] @ drop 67 b" for x
    using len by (simp add: upd_conv_take_nth_drop take_add [symmetric] flip: append_assoc)
  moreover have "take 64 b = take 32 b @ take 32 (drop 32 b)"
     using take_add [of 32 32 b] by simp
  moreover have "drop 67 b = take 20 (drop 67 b) @ drop 87 b"
    using append_take_drop_id [of 20 "drop 67 b"] by (simp add: add.commute)
  ultimately show ?thesis
    using len hop flags_masked [of "b ! 66"]
    by (simp add: capsule_unpack_def capsule_pack_def Let_def size_defs)
      (simp add: constructFlags_def parseFlags_def)
qed

lemma getPortsDS_setDSdata [simp]:
  "getPortsDS bo' (setDSdata bo d s x c) = Some (d, s)"
  by (simp add: getPortsDS_def setDSdata_def setDS_def cu16.dec_front cu16.dec_two [of bo d 2] cu16.enc_width)

text \<open>
  C25. A packed capsule, read on a host of either byte order, gives back every field but the
  interface it came from, which does not travel; its length is that of the header and the data.
\<close>

lemma capsule_roundtrip:
  assumes "wf_capsule c"
  shows "capsule_unpack bo' d (capsule_pack bo c) = (True, c\<lparr>m_interfaceAddress := m_interfaceAddress d\<rparr>) \<and>
    length (capsule_pack bo c) = 87 + length (m_data c)"
  using assms by (simp add: capsule_unpack_pack length_capsule_pack headerSize_def sanAddressSize_def sanHashSize_def)

text \<open>A capsule from one port to another.\<close>

lemma capsule_roundtrip_witness:
  "fst (capsule_unpack SAN_BIG_ENDIAN undefined (capsule_pack SAN_LITTLE_ENDIAN
     \<lparr>m_flagDX = False, m_flagDS = True, m_interfaceAddress = replicate 32 0, m_srcAddress = replicate 32 1,
      m_dstAddress = replicate 32 2, m_appId = replicate 20 3, m_hop = 258, m_data = [0, 80, 1, 2, 7]\<rparr>))"
  using capsule_roundtrip [of "\<lparr>m_flagDX = False, m_flagDS = True, m_interfaceAddress = replicate 32 0, m_srcAddress = replicate 32 1,
      m_dstAddress = replicate 32 2, m_appId = replicate 20 3, m_hop = 258, m_data = [0, 80, 1, 2, 7]\<rparr>"
      SAN_BIG_ENDIAN undefined SAN_LITTLE_ENDIAN]
  by (simp add: wf_capsule_def size_defs)

text \<open>
  C26. Any bytes at all are either refused, with the object left alone, or parsed; packing what was
  parsed gives the bytes back, but for the unassigned bits of the flags, which are cleared.
\<close>

lemma any_bytes_parse_or_fail:
  "(if length b < 87 then capsule_unpack bo c b = (False, c)
    else fst (capsule_unpack bo c b) \<and> capsule_pack bo' (snd (capsule_unpack bo c b)) = b[66 := b ! 66 AND 3])"
  using capsule_pack_unpack [of b bo' bo c] capsule_unpack_fails_iff [of bo c b]
  by (auto simp: size_defs capsule_unpack_def)

end
