(* ===== verification/StrUtils.thy ===== *)
theory StrUtils
  imports Hex
begin

text \<open>
  String helpers, \<^verbatim>\<open>src/utils/cstringutils.cpp\<close>, and the configuration file reader,
  \<^verbatim>\<open>src/utils/config.cpp\<close>. A \<^verbatim>\<open>std::string\<close> position \<^verbatim>\<open>npos\<close> is \<open>None\<close>.
\<close>

section \<open>\<^verbatim>\<open>CStringUtils\<close>\<close>

text \<open>The fields between delimiters, empty ones left out.\<close>

fun fields :: "char \<Rightarrow> string \<Rightarrow> string \<Rightarrow> string list" where
  "fields d cur [] = [cur]"
| "fields d cur (c # cs) = (if c = d then cur # fields d [] cs else fields d (cur @ [c]) cs)"

definition split_string :: "string \<Rightarrow> char \<Rightarrow> string list" where
  "split_string inputString delimiter = filter (\<lambda>f. f \<noteq> []) (fields delimiter [] inputString)"

text \<open>\<^verbatim>\<open>operator<<\<close> of an unsigned integer prints decimal digits.\<close>

definition digit_char :: "nat \<Rightarrow> char" where
  "digit_char n = char_of (48 + n)"

fun decimal :: "nat \<Rightarrow> string" where
  "decimal n = (if n < 10 then [digit_char n] else decimal (n div 10) @ [digit_char (n mod 10)])"

declare decimal.simps [simp del]

definition uintToString :: "u32 \<Rightarrow> string" where
  "uintToString num = decimal (unat num)"

definition ulongToString :: "u64 \<Rightarrow> string" where
  "ulongToString num = decimal (unat num)"

text \<open>
  \<^verbatim>\<open>operator>>\<close> into an unsigned integer: white space, an optional sign, digits. No digit gives
  0 and fails, too large a number gives the maximum and fails, a minus sign wraps.
\<close>

definition is_digit :: "char \<Rightarrow> bool" where
  "is_digit c \<longleftrightarrow> 48 \<le> (of_char c :: nat) \<and> (of_char c :: nat) \<le> 57"

definition digits_value :: "string \<Rightarrow> nat" where
  "digits_value ds = foldl (\<lambda>v c. 10 * v + (of_char c - 48)) 0 ds"

definition stringToUint :: "string \<Rightarrow> bool \<times> u32" where
  "stringToUint sNum =
     (let s = dropWhile isspace sNum;
          neg = (s \<noteq> [] \<and> hd s = CHR ''-'');
          s = (if s \<noteq> [] \<and> (hd s = CHR ''-'' \<or> hd s = CHR ''+'') then tl s else s);
          ds = takeWhile is_digit s;
          v = digits_value ds
      in if ds = [] then (False, 0)
         else if v \<ge> 2 ^ 32 then (False, -1)
         else (True, if neg then - word_of_nat v else word_of_nat v))"

definition ltrim :: "string \<Rightarrow> string" where
  "ltrim s = dropWhile isspace s"

definition rtrim :: "string \<Rightarrow> string" where
  "rtrim s = rev (dropWhile isspace (rev s))"

definition trim :: "string \<Rightarrow> string" where
  "trim s = ltrim (rtrim s)"

section \<open>\<^verbatim>\<open>ConfigFile\<close>\<close>

definition tolower_char :: "char \<Rightarrow> char" where
  "tolower_char c = (let n = (of_char c :: nat) in if 65 \<le> n \<and> n \<le> 90 then char_of (n + 32) else c)"

definition tolower :: "string \<Rightarrow> string" where
  "tolower s = map tolower_char s"

definition blank :: "char \<Rightarrow> bool" where
  "blank c \<longleftrightarrow> c = CHR 0x09 \<or> c = CHR '' ''"

definition removeComment :: "string \<Rightarrow> string" where
  "removeComment line = takeWhile (\<lambda>c. c \<noteq> CHR '';'') line"

definition onlyWhitespace :: "string \<Rightarrow> bool" where
  "onlyWhitespace line \<longleftrightarrow> list_all (\<lambda>c. c = CHR '' '') line"

text \<open>\<open>sepPos\<close> is the position of the first \<^verbatim>\<open>=\<close>, so that the line splits there.\<close>

definition extractKey :: "nat \<Rightarrow> string \<Rightarrow> string" where
  "extractKey sepPos line = takeWhile (\<lambda>c. \<not> blank c) (take sepPos line)"

definition extractValue :: "nat \<Rightarrow> string \<Rightarrow> string" where
  "extractValue sepPos line =
     (let value = dropWhile blank (drop (sepPos + 1) line)
      in rev (dropWhile blank (rev value)))"

definition find_sep :: "string \<Rightarrow> nat" where
  "find_sep line = length (takeWhile (\<lambda>c. c \<noteq> CHR ''='') line)"

type_synonym contents = "string \<Rightarrow> string option"

definition keyExists :: "contents \<Rightarrow> string \<Rightarrow> bool" where
  "keyExists m key \<longleftrightarrow> m (tolower key) \<noteq> None"

definition extractContents :: "string \<Rightarrow> contents \<Rightarrow> contents" where
  "extractContents line m =
     (let line = dropWhile blank line;
          separatorPosition = find_sep line;
          key = tolower (extractKey separatorPosition line);
          val = extractValue separatorPosition line
      in m(key \<mapsto> val))"

definition validLine :: "string \<Rightarrow> bool" where
  "validLine line =
     (let temp = dropWhile blank line
      in if temp \<noteq> [] \<and> hd temp = CHR ''='' then False
         else list_ex (\<lambda>c. c \<noteq> CHR '' '')
                (drop (if CHR ''='' \<in> set temp then find_sep temp + 1 else 0) temp))"

definition parseLine :: "string \<Rightarrow> contents \<Rightarrow> bool \<times> contents" where
  "parseLine line m =
     (if CHR ''='' \<notin> set line then (False, m)
      else if \<not> validLine line then (False, m)
      else (True, extractContents line m))"

text \<open>
  The loop of \<^verbatim>\<open>load\<close> over the lines of the file; a strict load stops at the first line that
  does not parse, keeping what it read. The file is its content, or \<open>None\<close> when it cannot be opened.
\<close>

fun load_lines :: "bool \<Rightarrow> string list \<Rightarrow> contents \<Rightarrow> bool \<times> contents" where
  "load_lines strictParsing [] m = (True, m)"
| "load_lines strictParsing (line # ls) m =
     (let temp = removeComment line
      in if line = [] \<or> onlyWhitespace temp then load_lines strictParsing ls m
         else case parseLine temp m of (r, m') \<Rightarrow>
           if \<not> r \<and> strictParsing then (False, m') else load_lines strictParsing ls m')"

definition getlines :: "string \<Rightarrow> string list" where
  "getlines s = (let ls = fields (CHR 0x0A) [] s in if last ls = [] then butlast ls else ls)"

definition config_load :: "string option \<Rightarrow> bool \<Rightarrow> contents \<Rightarrow> bool \<times> contents" where
  "config_load file strictParsing m =
     (case file of None \<Rightarrow> (False, m) | Some s \<Rightarrow> load_lines strictParsing (getlines s) m)"

definition getValue :: "contents \<Rightarrow> string \<Rightarrow> string" where
  "getValue m key = (case m (tolower key) of None \<Rightarrow> [] | Some v \<Rightarrow> v)"

section \<open>Lemmas\<close>

lemma digit_char_value: "n < 10 \<Longrightarrow> (of_char (digit_char n) :: nat) = 48 + n"
  by (simp add: digit_char_def)

lemma is_digit_digit_char: "n < 10 \<Longrightarrow> is_digit (digit_char n)"
  by (simp add: is_digit_def digit_char_value)

lemma decimal_digits: "list_all is_digit (decimal n)"
proof (induction n rule: decimal.induct)
  case (1 n)
  then show ?case by (subst decimal.simps) (simp add: is_digit_digit_char)
qed

lemma decimal_not_Nil [simp]: "decimal n \<noteq> []"
  by (subst decimal.simps) simp

lemma digits_value_decimal: "digits_value (decimal n) = n"
proof (induction n rule: decimal.induct)
  case (1 n)
  show ?case
  proof (cases "n < 10")
    case True
    then show ?thesis by (subst decimal.simps) (simp add: digits_value_def digit_char_value)
  next
    case False
    then show ?thesis
      using 1 by (subst decimal.simps) (simp add: digits_value_def digit_char_value)
  qed
qed

lemma stringToUint_uintToString: "stringToUint (uintToString n) = (True, n)"
proof -
  let ?d = "uintToString n"
  have digits: "list_all is_digit ?d" "?d \<noteq> []" by (simp_all add: uintToString_def decimal_digits)
  then have h: "is_digit (hd ?d)" by (cases ?d) simp_all
  then have "\<not> isspace (hd ?d)" "hd ?d \<noteq> CHR ''-''" "hd ?d \<noteq> CHR ''+''"
    by (auto simp: is_digit_def isspace_def)
  moreover have "\<forall>c \<in> set ?d. is_digit c" using digits(1) by (simp add: list_all_iff)
  moreover have "dropWhile isspace ?d = ?d" using calculation(1) digits(2) by (cases ?d) simp_all
  moreover have "digits_value ?d = unat n" by (simp add: uintToString_def digits_value_decimal)
  ultimately show ?thesis
    using digits(2) unsigned_less [of n, where ?'a = nat]
    by (simp add: stringToUint_def Let_def not_le takeWhile_eq_all_conv [THEN iffD2])
qed

text \<open>Lines of the form \<^verbatim>\<open>key=value\<close> that the reader takes as they are.\<close>

definition plain_key :: "string \<Rightarrow> bool" where
  "plain_key k \<longleftrightarrow> k \<noteq> [] \<and> tolower k = k \<and> list_all (\<lambda>c. \<not> blank c \<and> c \<notin> set '';='' \<and> c \<noteq> CHR 0x0A) k"

definition plain_value :: "string \<Rightarrow> bool" where
  "plain_value v \<longleftrightarrow> v \<noteq> [] \<and> \<not> blank (hd v) \<and> \<not> blank (last v) \<and>
     CHR '';'' \<notin> set v \<and> CHR 0x0A \<notin> set v"

definition setting :: "string \<times> string \<Rightarrow> string" where
  "setting kv = fst kv @ ''='' @ snd kv"

definition config_file :: "(string \<times> string) list \<Rightarrow> string" where
  "config_file kvs = concat (map (\<lambda>kv. setting kv @ [CHR 0x0A]) kvs)"

lemma fields_cut: "d \<notin> set xs \<Longrightarrow> fields d cur (xs @ d # ys) = (cur @ xs) # fields d [] ys"
  by (induction xs arbitrary: cur) auto

lemma getlines_config_file:
  assumes "\<forall>kv \<in> set kvs. CHR 0x0A \<notin> set (setting kv)"
  shows "getlines (config_file kvs) = map setting kvs"
proof -
  have "fields (CHR 0x0A) [] (config_file kvs) = map setting kvs @ [[]]"
    using assms by (induction kvs) (simp_all add: config_file_def fields_cut)
  then show ?thesis by (simp add: getlines_def)
qed

lemma find_sep_setting: "CHR ''='' \<notin> set k \<Longrightarrow> find_sep (k @ CHR ''='' # v) = length k"
  by (induction k) (auto simp: find_sep_def)

lemma dropWhile_hd: "xs \<noteq> [] \<Longrightarrow> \<not> P (hd xs) \<Longrightarrow> dropWhile P xs = xs"
  by (cases xs) simp_all

lemma parse_setting:
  assumes "plain_key k" and "plain_value v"
  shows "removeComment (setting (k, v)) = setting (k, v)" and "setting (k, v) \<noteq> []"
    and "\<not> onlyWhitespace (setting (k, v))" and "parseLine (setting (k, v)) m = (True, m(k \<mapsto> v))"
proof -
  have k: "k \<noteq> []" "tolower k = k" "CHR ''='' \<notin> set k" "CHR '';'' \<notin> set k" "\<forall>c \<in> set k. \<not> blank c"
    using assms(1) by (auto simp: plain_key_def list_all_iff)
  have v: "v \<noteq> []" "\<not> blank (hd v)" "\<not> blank (last v)" "CHR '';'' \<notin> set v"
    using assms(2) by (auto simp: plain_value_def)
  show "removeComment (setting (k, v)) = setting (k, v)"
    unfolding removeComment_def using k v
    by (intro takeWhile_eq_all_conv [THEN iffD2]) (auto simp: setting_def)
  show "setting (k, v) \<noteq> []" by (simp add: setting_def)
  show "\<not> onlyWhitespace (setting (k, v))" by (simp add: setting_def onlyWhitespace_def)
  have hdk: "\<not> blank (hd k)" "hd k \<noteq> CHR ''=''" using k by (cases k; auto)+
  then have front: "dropWhile blank (k @ CHR ''='' # v) = k @ CHR ''='' # v"
    using k(1) by (intro dropWhile_hd) simp_all
  have "dropWhile blank v = v" using v(1,2) by (rule dropWhile_hd)
  moreover have "dropWhile blank (rev v) = rev v" using v(1,3) by (intro dropWhile_hd) (simp_all add: hd_rev)
  ultimately have "extractContents (setting (k, v)) m = m(k \<mapsto> v)"
    using k front by (simp add: extractContents_def setting_def find_sep_setting extractKey_def extractValue_def Let_def
        takeWhile_eq_all_conv [THEN iffD2])
  moreover have "hd v \<noteq> CHR '' ''" using v(2) by (auto simp: blank_def)
  then have "list_ex (\<lambda>c. c \<noteq> CHR '' '') v" using v(1) by (cases v) simp_all
  then have "validLine (setting (k, v))"
    using k(1,3) front hdk by (simp add: validLine_def setting_def find_sep_setting Let_def)
  ultimately show "parseLine (setting (k, v)) m = (True, m(k \<mapsto> v))"
    by (simp add: parseLine_def setting_def)
qed

lemma load_settings:
  "\<forall>(k, v) \<in> set kvs. plain_key k \<and> plain_value v \<Longrightarrow>
     load_lines strict (map setting kvs) m = (True, m ++ map_of (rev kvs))"
proof (induction kvs arbitrary: m)
  case (Cons kv kvs)
  obtain k v where kv: "kv = (k, v)" by (cases kv)
  then have "plain_key k" "plain_value v" using Cons.prems by auto
  note parse_setting [OF this]
  then show ?case using Cons kv by (simp add: Let_def)
qed simp

text \<open>
  A configuration written as \<^verbatim>\<open>key=value\<close> lines is read back completely by a strict load: every
  key, in whatever case it is asked for, has the value of its last line, and a key that does not
  occur reads as the empty string.
\<close>

lemma config_roundtrip:
  assumes "\<forall>(k, v) \<in> set kvs. plain_key k \<and> plain_value v"
  shows "\<exists>m. config_load (Some (config_file kvs)) True (\<lambda>_. None) = (True, m) \<and>
    (\<forall>key. getValue m key = (case map_of (rev kvs) (tolower key) of None \<Rightarrow> [] | Some v \<Rightarrow> v))"
proof -
  have "CHR 0x0A \<notin> set (setting kv)" if "kv \<in> set kvs" for kv
    using assms that by (cases kv) (auto simp: setting_def plain_key_def plain_value_def list_all_iff)
  then have "getlines (config_file kvs) = map setting kvs" using getlines_config_file by blast
  then have "config_load (Some (config_file kvs)) True (\<lambda>_. None) = (True, map_of (rev kvs))"
    using load_settings [OF assms, of True "\<lambda>_. None"] by (simp add: config_load_def)
  then show ?thesis by (simp add: getValue_def)
qed

end
