(* ===== verification/Interfaces.thy ===== *)
theory Interfaces
  imports Rpc Portmap BoundedQueue Capsule StrUtils
begin

text \<open>
  The remote functions of the node: \<^verbatim>\<open>src/interfaces/*.cpp\<close>, the service channel of an
  application, \<^verbatim>\<open>src/api/node/service/cnodeservicechannel.cpp\<close>, and the connector on the
  application's side, \<^verbatim>\<open>src/api/node/connector/cnodeconnector.cpp\<close>. Each function has an
  object at each end; the lemmas show what arrives when one end's bytes reach the other.
\<close>

section \<open>The node as its functions see it\<close>

datatype line_status = CONNECTED | DISCONNECTED | LINE_FAILURE

record iface =
  if_address :: bytes
  if_peer :: bytes
  if_rx :: line_status
  if_tx :: line_status
  if_queue :: "capsule list"
  if_max :: u64

text \<open>
  The state of a service channel: the node's input queue, port table, interfaces and name, shared
  with the others; the application's own queue; and the members of the function objects. The two
  lists of wake-ups are what the other threads do while a call waits on a queue. \<open>sv_heap\<close> and
  \<open>sv_stack\<close> are what a new capsule and an uninitialised \<^verbatim>\<open>SAN_INT32\<close> hold.
\<close>

record 'q service =
  sv_stopped :: bool
  sv_nodeQueue :: "capsule list"
  sv_nodeMax :: u64
  sv_nodeWakes :: "capsule wake list"
  sv_appQueue :: "capsule list"
  sv_appWakes :: "capsule wake list"
  sv_portmap :: "'q portmap"
  sv_queueId :: 'q
  sv_interfaces :: "iface list"
  sv_nodeName :: string
  sv_uptimeSec :: u64
  sv_fromAddress :: bytes
  sv_heap :: capsule
  sv_stack :: u32
  m_SerializedCapsule :: bytes
  m_port :: u16
  m_registerResponse :: bytes
  m_ephemeralResponse :: bytes
  m_requestedTimeout :: u32
  m_waitResponse :: bytes
  m_addressesResponse :: bytes
  m_parameter :: string
  m_parameterResponse :: bytes

definition SAN2_CNODESERVICECHANNEL_APPQUEMAXLEN :: u64 where
  "SAN2_CNODESERVICECHANNEL_APPQUEMAXLEN = 20"

section \<open>Asynchronous functions\<close>

text \<open>
  \<^verbatim>\<open>SendCapsuleFuncIn\<close>: a push that does not return 0 fails the assertion. Its member
  \<^verbatim>\<open>m_interfaceAddress\<close> is a reference; \<open>interfaceAddress\<close> is what reading through it gives, or a fault.
\<close>

definition SendCapsuleFuncIn_unpack :: "bytes \<Rightarrow> 'q service \<Rightarrow> bool \<times> 'q service" where
  "SendCapsuleFuncIn_unpack inp s = (True, s\<lparr>m_SerializedCapsule := inp\<rparr>)"

definition SendCapsuleFuncIn_operator ::
  "byte_order \<Rightarrow> ('q service \<Rightarrow> bytes run) \<Rightarrow> 'q service \<Rightarrow> (bool \<times> 'q service) io" where
  "SendCapsuleFuncIn_operator bo interfaceAddress s =
     (case capsule_unpack bo (sv_heap s) (m_SerializedCapsule s) of
        (ok, capsule) \<Rightarrow>
          if \<not> ok then ret (False, s)
          else io_bind (Some (interfaceAddress s)) (\<lambda>a.
            let capsule = setFromInterfaceAddress a capsule
            in case run_call (sv_nodeMax s) (sv_stopped s) (PushTimed capsule) (sv_nodeQueue s) (sv_nodeWakes s) of
                 None \<Rightarrow> None
               | Some ((rval, _), q, ws) \<Rightarrow>
                   if rval \<noteq> 0 then Some (Inl AssertionFailed)
                   else ret (True, s\<lparr>sv_nodeQueue := q, sv_nodeWakes := ws\<rparr>)))"

text \<open>The reference of a service channel is to a global constant, \<open>sv_fromAddress\<close>.\<close>

definition SendCapsuleFuncIn_call :: "byte_order \<Rightarrow> 'q service \<Rightarrow> (bool \<times> 'q service) io" where
  "SendCapsuleFuncIn_call bo s = SendCapsuleFuncIn_operator bo (\<lambda>s. Inr (sv_fromAddress s)) s"

definition SendCapsuleFuncIn :: "byte_order \<Rightarrow> 'q service funcIn" where
  "SendCapsuleFuncIn bo =
     \<lparr>in_getUniqueId = 1, in_unpack = SendCapsuleFuncIn_unpack, in_call = SendCapsuleFuncIn_call bo\<rparr>"

definition AliveFuncIn :: "'q service funcIn" where
  "AliveFuncIn = \<lparr>in_getUniqueId = 2, in_unpack = (\<lambda>inp s. (True, s)), in_call = (\<lambda>s. ret (True, s))\<rparr>"

text \<open>The sending ends. \<^verbatim>\<open>AliveFuncOut::pack\<close> leaves the caller's empty vector alone.\<close>

definition SendCapsuleFuncOut :: "bytes funcOut" where
  "SendCapsuleFuncOut = \<lparr>out_getUniqueId = 1, out_pack = (\<lambda>m_SerializedCapsule. (True, m_SerializedCapsule))\<rparr>"

definition setCapsuleToSend :: "byte_order \<Rightarrow> capsule \<Rightarrow> bytes" where
  "setCapsuleToSend bo capsule = capsule_pack bo capsule"

definition AliveFuncOut :: "unit funcOut" where
  "AliveFuncOut = \<lparr>out_getUniqueId = 2, out_pack = (\<lambda>_. (True, []))\<rparr>"

section \<open>\<^verbatim>\<open>RegisterIn\<close> and \<^verbatim>\<open>RegisterOut\<close>\<close>

definition RegisterIn_unpack :: "byte_order \<Rightarrow> bytes \<Rightarrow> 'q service \<Rightarrow> bool \<times> 'q service" where
  "RegisterIn_unpack bo inp s = (True, s\<lparr>m_port := unpackUint16 bo inp 0\<rparr>)"

text \<open>Both branches test \<^verbatim>\<open>registered\<close>, so when the port is taken nothing is assigned.\<close>

definition RegisterIn_call :: "byte_order \<Rightarrow> 'q service \<Rightarrow> (bool \<times> 'q service) io" where
  "RegisterIn_call bo s =
     (case registerPort (m_port s) (sv_queueId s) (sv_portmap s) of
        (registered, pm) \<Rightarrow>
          let returnValue = (if registered then 3 else if registered then 2 else sv_stack s)
          in ret (True, s\<lparr>sv_portmap := pm, m_registerResponse := pack_int32 bo returnValue\<rparr>))"

definition RegisterIn :: "byte_order \<Rightarrow> 'q service syncFuncIn" where
  "RegisterIn bo = \<lparr>in_getUniqueId = 4896, in_unpack = RegisterIn_unpack bo, in_call = RegisterIn_call bo,
     in_getResponse = m_registerResponse\<rparr>"

record registerOut =
  ro_port :: u16
  ro_result :: u32

definition RegisterOut :: "byte_order \<Rightarrow> registerOut syncFuncOut" where
  "RegisterOut bo = \<lparr>out_getUniqueId = 4896, out_pack = (\<lambda>f. (True, pack_uint16 bo (ro_port f))),
     out_parseResponse = (\<lambda>inp f. (True, f\<lparr>ro_result := unpackInt32 bo inp 0\<rparr>))\<rparr>"

definition wasRegistered :: "registerOut \<Rightarrow> bool" where
  "wasRegistered f \<longleftrightarrow> ro_result f = 3"

section \<open>\<^verbatim>\<open>RegisterEphemeralIn\<close> and \<^verbatim>\<open>RegisterEphemeralOut\<close>\<close>

definition RegisterEphemeralIn_call :: "byte_order \<Rightarrow> 'q service \<Rightarrow> (bool \<times> 'q service) io" where
  "RegisterEphemeralIn_call bo s =
     (case getEphemeralPort (sv_queueId s) (sv_portmap s) of
        (port, pm) \<Rightarrow> ret (True, s\<lparr>sv_portmap := pm, m_ephemeralResponse := pack_uint16 bo port\<rparr>))"

definition RegisterEphemeralIn :: "byte_order \<Rightarrow> 'q service syncFuncIn" where
  "RegisterEphemeralIn bo = \<lparr>in_getUniqueId = 31332, in_unpack = (\<lambda>inp s. (True, s)),
     in_call = RegisterEphemeralIn_call bo, in_getResponse = m_ephemeralResponse\<rparr>"

definition RegisterEphemeralOut :: "byte_order \<Rightarrow> u16 syncFuncOut" where
  "RegisterEphemeralOut bo = \<lparr>out_getUniqueId = 31332, out_pack = (\<lambda>_. (True, [])),
     out_parseResponse = (\<lambda>inp m_port. if length inp \<noteq> 2 then (False, m_port) else (True, unpackUint16 bo inp 0))\<rparr>"

section \<open>\<^verbatim>\<open>WaitForCapsuleIn\<close> and \<^verbatim>\<open>WaitForCapsuleOut\<close>\<close>

definition SAN2_WAITFORCAPSULE_ERROR :: u32 where "SAN2_WAITFORCAPSULE_ERROR = 0"
definition SAN2_WAITFORCAPSULE_ERROR_INVALID_RESPONSE :: u32 where
  "SAN2_WAITFORCAPSULE_ERROR_INVALID_RESPONSE = 1"
definition SAN2_WAITFORCAPSULE_ERROR_CAPSULE_UNPACK :: u32 where
  "SAN2_WAITFORCAPSULE_ERROR_CAPSULE_UNPACK = 2"
definition SAN2_WAITFORCAPSULE_SUCCESS :: u32 where "SAN2_WAITFORCAPSULE_SUCCESS = 3"
definition SAN2_WAITFORCAPSULE_TIMEOUT :: u32 where "SAN2_WAITFORCAPSULE_TIMEOUT = 4"
definition SAN2_WAITFORCAPSULE_ERROR_INVOKE_FAILED :: u32 where
  "SAN2_WAITFORCAPSULE_ERROR_INVOKE_FAILED = 5"

definition WaitForCapsuleIn_unpack :: "byte_order \<Rightarrow> bytes \<Rightarrow> 'q service \<Rightarrow> bool \<times> 'q service" where
  "WaitForCapsuleIn_unpack bo inp s =
     (if length inp \<noteq> 4 then (False, s) else (True, s\<lparr>m_requestedTimeout := unpackUint32 bo inp 0\<rparr>))"

definition WaitForCapsuleIn_call :: "byte_order \<Rightarrow> 'q service \<Rightarrow> (bool \<times> 'q service) io" where
  "WaitForCapsuleIn_call bo s =
     (case run_call SAN2_CNODESERVICECHANNEL_APPQUEMAXLEN (sv_stopped s) TryPop (sv_appQueue s) (sv_appWakes s) of
        None \<Rightarrow> None
      | Some ((rval, out), q, ws) \<Rightarrow>
          let returnValue = (if rval = 0 then SAN2_WAITFORCAPSULE_SUCCESS
                             else if rval = -2 then SAN2_WAITFORCAPSULE_TIMEOUT
                             else SAN2_WAITFORCAPSULE_ERROR);
              s = s\<lparr>sv_appQueue := q, sv_appWakes := ws\<rparr>
          in if returnValue = SAN2_WAITFORCAPSULE_SUCCESS
             then case out of
                 None \<Rightarrow> Some (Inl NullPointer)
               | Some capsule \<Rightarrow>
                   ret (True, s\<lparr>m_waitResponse := pack_int32 bo returnValue @ capsule_pack bo capsule\<rparr>)
             else ret (True, s\<lparr>m_waitResponse := pack_int32 bo returnValue\<rparr>))"

definition WaitForCapsuleIn :: "byte_order \<Rightarrow> 'q service syncFuncIn" where
  "WaitForCapsuleIn bo = \<lparr>in_getUniqueId = 2215, in_unpack = WaitForCapsuleIn_unpack bo,
     in_call = WaitForCapsuleIn_call bo, in_getResponse = m_waitResponse\<rparr>"

record waitOut =
  wo_timeout :: u32
  wo_response :: bytes

definition WaitForCapsuleOut :: "byte_order \<Rightarrow> waitOut syncFuncOut" where
  "WaitForCapsuleOut bo = \<lparr>out_getUniqueId = 2215, out_pack = (\<lambda>f. (True, pack_uint32 bo (wo_timeout f))),
     out_parseResponse = (\<lambda>inp f. if length inp < 4 then (False, f) else (True, f\<lparr>wo_response := inp\<rparr>))\<rparr>"

text \<open>\<^verbatim>\<open>getCapsule(capsule)\<close> cuts the code off its member and unpacks the rest into the caller's object.\<close>

definition getCapsule :: "byte_order \<Rightarrow> capsule \<Rightarrow> waitOut \<Rightarrow> (u32 \<times> capsule) \<times> waitOut" where
  "getCapsule bo capsule f =
     (if length (wo_response f) < 4 then ((SAN2_WAITFORCAPSULE_ERROR_INVALID_RESPONSE, capsule), f)
      else
        let errcode = unpackInt32 bo (wo_response f) 0
        in if errcode \<noteq> SAN2_WAITFORCAPSULE_SUCCESS then ((errcode, capsule), f)
           else
             let f = f\<lparr>wo_response := drop 4 (wo_response f)\<rparr>
             in case capsule_unpack bo capsule (wo_response f) of
                  (ok, capsule) \<Rightarrow>
                    if \<not> ok then ((SAN2_WAITFORCAPSULE_ERROR_CAPSULE_UNPACK, capsule), f)
                    else ((SAN2_WAITFORCAPSULE_SUCCESS, capsule), f))"

section \<open>\<^verbatim>\<open>GetAddressesIn\<close> and \<^verbatim>\<open>GetAddressesOut\<close>\<close>

definition GetAddressesIn_call :: "'q service \<Rightarrow> (bool \<times> 'q service) io" where
  "GetAddressesIn_call s =
     ret (True, s\<lparr>m_addressesResponse := concat (map (\<lambda>x. take sanAddressSize (if_address x)) (sv_interfaces s))\<rparr>)"

definition GetAddressesIn :: "'q service syncFuncIn" where
  "GetAddressesIn = \<lparr>in_getUniqueId = 5014, in_unpack = (\<lambda>inp s. (True, s)), in_call = GetAddressesIn_call,
     in_getResponse = m_addressesResponse\<rparr>"

definition GetAddressesOut :: "bytes syncFuncOut" where
  "GetAddressesOut = \<lparr>out_getUniqueId = 5014, out_pack = (\<lambda>_. (True, [])),
     out_parseResponse = (\<lambda>inp _. (True, inp))\<rparr>"

primrec chunks :: "nat \<Rightarrow> bytes \<Rightarrow> bytes list" where
  "chunks 0 b = []"
| "chunks (Suc items) b = take sanAddressSize b # chunks items (drop sanAddressSize b)"

text \<open>\<^verbatim>\<open>return -1\<close> from a function that returns \<^verbatim>\<open>unsigned int\<close>.\<close>

definition getAddresses :: "bytes \<Rightarrow> u32 \<times> bytes list" where
  "getAddresses m_response =
     (if length m_response mod sanAddressSize \<noteq> 0 then (-1, [])
      else
        let items = word_of_nat (length m_response div sanAddressSize) :: u32
        in if items = 0 then (0, []) else (items, chunks (unat items) m_response))"

section \<open>\<^verbatim>\<open>GetParameterIn\<close> and \<^verbatim>\<open>GetParameterOut\<close>\<close>

fun statusToString :: "line_status \<Rightarrow> string" where
  "statusToString CONNECTED = ''conn''"
| "statusToString DISCONNECTED = ''diss''"
| "statusToString LINE_FAILURE = ''fail''"

definition uptime_text :: "u64 \<Rightarrow> string" where
  "uptime_text uptimeSec =
     (let uptimeDays = (uptimeSec - uptimeSec mod 86400) div 86400;
          uptimeSec = uptimeSec mod 86400;
          uptimeHours = (uptimeSec - uptimeSec mod 3600) div 3600;
          uptimeSec = uptimeSec mod 3600;
          uptimeMin = (uptimeSec - uptimeSec mod 60) div 60;
          uptimeSec = uptimeSec mod 60
      in ulongToString uptimeDays @ ''d '' @ ulongToString uptimeHours @ ''h '' @ ulongToString uptimeMin @ ''m '' @
         ulongToString uptimeSec @ ''s'')"

definition peer_text :: "iface \<Rightarrow> string" where
  "peer_text x =
     ''IFACE status RX:'' @ statusToString (if_rx x) @ ''   TX:'' @ statusToString (if_tx x) @
     CHR 0x0A # ''>> iadr: '' @ address2string (if_address x) @
     CHR 0x0A # ''>> peer: '' @ address2string (if_peer x) @ [CHR 0x0A, CHR 0x0A]"

definition GetParameterIn_call :: "'q service \<Rightarrow> (bool \<times> 'q service) io" where
  "GetParameterIn_call s =
     (let answer =
        (if m_parameter s = ''hello'' then ''Welcome to SAN node terminal''
         else if m_parameter s = ''hostname'' then sv_nodeName s
         else if m_parameter s = ''uptime'' then uptime_text (sv_uptimeSec s)
         else if m_parameter s = ''version'' then ''SAN Node v1.0''
         else if m_parameter s = ''peers'' then concat (map peer_text (sv_interfaces s))
         else ''Unknown parameter '' @ m_parameter s)
      in ret (True, s\<lparr>m_parameterResponse := string2bytes answer\<rparr>))"

definition GetParameterIn :: "'q service syncFuncIn" where
  "GetParameterIn = \<lparr>in_getUniqueId = 4333, in_unpack = (\<lambda>inp s. (True, s\<lparr>m_parameter := bytes2string inp\<rparr>)),
     in_call = GetParameterIn_call, in_getResponse = m_parameterResponse\<rparr>"

record parameterOut =
  po_parameter :: string
  po_result :: string

definition GetParameterOut :: "parameterOut syncFuncOut" where
  "GetParameterOut = \<lparr>out_getUniqueId = 4333, out_pack = (\<lambda>f. (True, string2bytes (po_parameter f))),
     out_parseResponse = (\<lambda>inp f. (True, f\<lparr>po_result := bytes2string inp\<rparr>))\<rparr>"

section \<open>\<^verbatim>\<open>CNodeServiceChannel::receive\<close>\<close>

text \<open>The functions are registered one by one; a failure ends the channel before it serves anything.\<close>

definition service_functions :: "byte_order \<Rightarrow> 'q service executor \<Rightarrow> bool \<times> 'q service executor" where
  "service_functions bo ex =
     (case exec_registerFunction (SendCapsuleFuncIn bo) ex of (r, ex) \<Rightarrow> if \<not> r then (False, ex) else
      case exec_registerSyncFunction (WaitForCapsuleIn bo) ex of (r, ex) \<Rightarrow> if \<not> r then (False, ex) else
      case exec_registerSyncFunction (RegisterIn bo) ex of (r, ex) \<Rightarrow> if \<not> r then (False, ex) else
      case exec_registerSyncFunction (RegisterEphemeralIn bo) ex of (r, ex) \<Rightarrow> if \<not> r then (False, ex) else
      case exec_registerSyncFunction GetAddressesIn ex of (r, ex) \<Rightarrow> if \<not> r then (False, ex) else
      exec_registerSyncFunction GetParameterIn ex)"

definition service_receive ::
  "byte_order \<Rightarrow> 's sender \<Rightarrow> 's receiver \<Rightarrow> u32 \<Rightarrow> 'q service \<Rightarrow> 's \<Rightarrow> (ErrorCode \<times> 'q service \<times> 's) io" where
  "service_receive bo sd rcv functionId a s =
     (case service_functions bo no_functions of
        (r, ex) \<Rightarrow>
          if \<not> r then ret (FAILURE, a, s)
          else io_bind (exec_run bo sd rcv executor_terminated ex functionId (a\<lparr>sv_fromAddress := sanDefaultAddress\<rparr>) s) (\<lambda>(a, s).
                 ret (SUCCESS, a\<lparr>sv_portmap := freePorts (sv_queueId a) (sv_portmap a)\<rparr>, s)))"

section \<open>\<^verbatim>\<open>CNodeConnector\<close>\<close>

text \<open>
  The application's calls: a function object per call, invoked over the channel. \<open>m0\<close> is the
  content of an uninitialised member.
\<close>

definition connector_sendCapsule :: "byte_order \<Rightarrow> 's sender \<Rightarrow> bytes \<Rightarrow> 's \<Rightarrow> (bool \<times> 's) io" where
  "connector_sendCapsule bo sd capsuleData s = invokeFunction bo sd SendCapsuleFuncOut capsuleData s"

definition connector_registerPort ::
  "byte_order \<Rightarrow> 's sender \<Rightarrow> 's receiver \<Rightarrow> u16 \<Rightarrow> 's \<Rightarrow> (bool \<times> 's) io" where
  "connector_registerPort bo sd rcv port s =
     io_bind (invokeSyncFunction bo sd rcv (RegisterOut bo) \<lparr>ro_port = port, ro_result = -1\<rparr> s) (\<lambda>((ok, f), s).
       if \<not> ok then ret (False, s) else ret (wasRegistered f, s))"

definition connector_waitForCapsule ::
  "byte_order \<Rightarrow> 's sender \<Rightarrow> 's receiver \<Rightarrow> capsule \<Rightarrow> u32 \<Rightarrow> 's \<Rightarrow> ((u32 \<times> capsule) \<times> 's) io" where
  "connector_waitForCapsule bo sd rcv capsule timeout s =
     io_bind (invokeSyncFunction bo sd rcv (WaitForCapsuleOut bo) \<lparr>wo_timeout = timeout, wo_response = []\<rparr> s)
       (\<lambda>((ok, f), s).
         if \<not> ok then ret ((SAN2_WAITFORCAPSULE_ERROR_INVOKE_FAILED, capsule), s)
         else ret (fst (getCapsule bo capsule f), s))"

definition connector_getEphemeralPort ::
  "byte_order \<Rightarrow> 's sender \<Rightarrow> 's receiver \<Rightarrow> 's \<Rightarrow> (u16 \<times> 's) io" where
  "connector_getEphemeralPort bo sd rcv s =
     io_bind (invokeSyncFunction bo sd rcv (RegisterEphemeralOut bo) 0 s) (\<lambda>((ok, port), s).
       if \<not> ok then ret (0, s) else ret (port, s))"

definition connector_getInterfaceAddresses ::
  "byte_order \<Rightarrow> 's sender \<Rightarrow> 's receiver \<Rightarrow> bytes list \<Rightarrow> 's \<Rightarrow> ((u32 \<times> bytes list) \<times> 's) io" where
  "connector_getInterfaceAddresses bo sd rcv adrs s =
     io_bind (invokeSyncFunction bo sd rcv GetAddressesOut [] s) (\<lambda>((ok, f), s).
       if \<not> ok then ret ((-2, adrs), s) else ret (getAddresses f, s))"

definition connector_getParameter ::
  "byte_order \<Rightarrow> 's sender \<Rightarrow> 's receiver \<Rightarrow> string \<Rightarrow> string \<Rightarrow> 's \<Rightarrow> ((int \<times> string) \<times> 's) io" where
  "connector_getParameter bo sd rcv param result s =
     io_bind (invokeSyncFunction bo sd rcv GetParameterOut \<lparr>po_parameter = param, po_result = []\<rparr> s) (\<lambda>((ok, f), s).
       if \<not> ok then ret ((-1, result), s) else ret ((0, po_result f), s))"

section \<open>A connector and its service channel\<close>

text \<open>
  The two ends joined by a transport that loses nothing, as the pipe does: a datagram the
  connector sends is dispatched by the executor, whose answers queue up for the connector.
\<close>

record 'q link =
  lk_service :: "'q service"
  lk_replies :: "bytes list"

definition link_send :: "byte_order \<Rightarrow> 'q service executor \<Rightarrow> 'q link sender" where
  "link_send bo ex m lk =
     io_bind (recvData bo (\<lambda>u. ret ((True, m), u)) 0 ()) (\<lambda>((ok, fid, data), _).
       if \<not> ok then ret (True, lk)
       else io_bind (executeFunction bo (\<lambda>b rs. ret (True, rs @ [b])) ex fid data (lk_service lk) (lk_replies lk))
              (\<lambda>(_, a, rs). ret (True, \<lparr>lk_service = a, lk_replies = rs\<rparr>)))"

definition link_recv :: "'q link receiver" where
  "link_recv lk =
     (case lk_replies lk of [] \<Rightarrow> None | r # rs \<Rightarrow> ret ((True, r), lk\<lparr>lk_replies := rs\<rparr>))"

definition service_executor :: "byte_order \<Rightarrow> 'q service executor" where
  "service_executor bo = snd (service_functions bo no_functions)"

definition connected :: "'q service \<Rightarrow> 'q link" where
  "connected sv = \<lparr>lk_service = sv, lk_replies = []\<rparr>"

lemma service_functions_register: "fst (service_functions bo no_functions)"
  by (simp add: service_functions_def no_functions_def exec_registerFunction_def exec_registerSyncFunction_def
      SendCapsuleFuncIn_def WaitForCapsuleIn_def RegisterIn_def RegisterEphemeralIn_def GetAddressesIn_def
      GetParameterIn_def)

lemma service_functions_eq: "service_functions bo no_functions = (True, service_executor bo)"
  by (simp add: service_executor_def prod_eq_iff service_functions_register)

lemma service_lookup:
  "m_functions (service_executor bo) = [1 \<mapsto> SendCapsuleFuncIn bo]"
  "m_syncFunctions (service_executor bo) =
     [2215 \<mapsto> WaitForCapsuleIn bo, 4896 \<mapsto> RegisterIn bo, 31332 \<mapsto> RegisterEphemeralIn bo,
      5014 \<mapsto> GetAddressesIn, 4333 \<mapsto> GetParameterIn]"
  by (simp_all add: service_executor_def service_functions_def no_functions_def exec_registerFunction_def
      exec_registerSyncFunction_def SendCapsuleFuncIn_def WaitForCapsuleIn_def RegisterIn_def
      RegisterEphemeralIn_def GetAddressesIn_def GetParameterIn_def)

lemma link_send_executes:
  assumes "fid \<le> SAN_RPC_MAX_FID"
  shows "link_send bo ex (rpc_datagram fid data) lk =
    io_bind (executeFunction bo (\<lambda>b rs. ret (True, rs @ [b])) ex fid data (lk_service lk) (lk_replies lk))
      (\<lambda>(_, a, rs). ret (True, \<lparr>lk_service = a, lk_replies = rs\<rparr>))"
  using recvData_datagram [of "\<lambda>u. ret ((True, rpc_datagram fid data), u)" "()" fid data "()" bo 0] assms
  by (simp add: link_send_def)

lemma sync_call:
  assumes "m_functions ex (out_getUniqueId fo) = None" and "m_syncFunctions ex (out_getUniqueId fo) = Some fi"
    and "out_pack fo f = (True, b)" and "in_unpack fi b sv = (True, sv1)" and "in_call fi sv1 = ret (v, sv2)"
    and "out_getUniqueId fo \<le> SAN_RPC_MAX_FID"
  shows "invokeSyncFunction bo (link_send bo' ex) link_recv fo f (connected sv) =
    ret (out_parseResponse fo (in_getResponse fi sv2) f, connected sv2)"
proof -
  have "recvData bo link_recv (out_getUniqueId fo)
      \<lparr>lk_service = sv2, lk_replies = [rpc_datagram (out_getUniqueId fo) (in_getResponse fi sv2)]\<rparr> =
      ret ((True, out_getUniqueId fo, in_getResponse fi sv2), connected sv2)"
    by (rule recvData_datagram) (simp_all add: link_recv_def connected_def assms)
  then show ?thesis
    using assms leD [OF assms(6)]
    by (simp add: invokeSyncFunction_def sendData_datagram link_send_executes executeFunction_def connected_def)
qed

lemma service_ids:
  "out_getUniqueId (RegisterOut bo) = 4896" "out_getUniqueId (RegisterEphemeralOut bo) = 31332"
  "out_getUniqueId (WaitForCapsuleOut bo) = 2215" "out_getUniqueId GetAddressesOut = 5014"
  "out_getUniqueId GetParameterOut = 4333" "out_getUniqueId SendCapsuleFuncOut = 1"
  by (simp_all add: RegisterOut_def RegisterEphemeralOut_def WaitForCapsuleOut_def GetAddressesOut_def
      GetParameterOut_def SendCapsuleFuncOut_def)

lemma int32_code [simp]: "unpackInt32 bo' (pack_int32 bo n @ x) 0 = n"
  by (rule ci32.dec_front)

text \<open>
  C28. Registering a port through the connector. When the port is free the application gets it,
  in the node's table, and is told so. When it is taken the table does not change, but the answer
  is an integer that \<^verbatim>\<open>RegisterIn\<close> never assigned: the application believes that it has the port
  exactly when that memory happens to hold 3.
\<close>

lemma register_port_over_rpc:
  "connector_registerPort bo (link_send bo' (service_executor bo')) link_recv port (connected sv) =
     (let sv' = sv\<lparr>m_port := port\<rparr>;
          free = (getPortQueue port (sv_portmap sv) = None);
          pm = (if free then (sv_portmap sv)\<lparr>mapPorts := (mapPorts (sv_portmap sv))(port \<mapsto> sv_queueId sv)\<rparr>
                else sv_portmap sv);
          code = (if free then 3 else sv_stack sv)
      in ret (free \<or> sv_stack sv = 3,
           connected (sv'\<lparr>sv_portmap := pm, m_registerResponse := pack_int32 bo' code\<rparr>)))"
proof -
  have u: "in_unpack (RegisterIn bo') (pack_uint16 bo port) sv = (True, sv\<lparr>m_port := port\<rparr>)"
    by (simp add: RegisterIn_def RegisterIn_unpack_def cu16.dec_only)
  have p: "out_pack (RegisterOut bo) \<lparr>ro_port = port, ro_result = -1\<rparr> = (True, pack_uint16 bo port)"
    by (simp add: RegisterOut_def)
  have n: "unpackInt32 bo (pack_int32 bo' n) 0 = n" for n by (rule ci32.dec_only)
  define sv2 where "sv2 = snd (case registerPort port (sv_queueId sv) (sv_portmap sv) of (registered, pm) \<Rightarrow>
    (registered, sv\<lparr>m_port := port, sv_portmap := pm,
      m_registerResponse := pack_int32 bo' (if registered then 3 else sv_stack sv)\<rparr>))"
  have c: "in_call (RegisterIn bo') (sv\<lparr>m_port := port\<rparr>) = ret (True, sv2)"
    by (simp add: RegisterIn_def RegisterIn_call_def sv2_def split: prod.split)
  have "invokeSyncFunction bo (link_send bo' (service_executor bo')) link_recv (RegisterOut bo)
      \<lparr>ro_port = port, ro_result = -1\<rparr> (connected sv) =
      ret (out_parseResponse (RegisterOut bo) (in_getResponse (RegisterIn bo') sv2) \<lparr>ro_port = port, ro_result = -1\<rparr>,
        connected sv2)"
    by (rule sync_call [OF _ _ p u c]) (simp_all add: service_lookup service_ids SAN_RPC_MAX_FID_def)
  then show ?thesis
    by (cases "mapPorts (sv_portmap sv) port")
      (simp_all add: connector_registerPort_def RegisterIn_def registerPort_def getPortQueue_def RegisterOut_def
        wasRegistered_def n Let_def sv2_def)
qed

text \<open>
  Asking for an ephemeral port through the connector gives the port that the node's table
  chose, 0 when there is none, and registers it for the application's queue.
\<close>

lemma ephemeral_port_over_rpc:
  "connector_getEphemeralPort bo (link_send bo' (service_executor bo')) link_recv (connected sv) =
     (case getEphemeralPort (sv_queueId sv) (sv_portmap sv) of
        (port, pm) \<Rightarrow> ret (port, connected (sv\<lparr>sv_portmap := pm, m_ephemeralResponse := pack_uint16 bo' port\<rparr>)))"
proof -
  obtain port pm where e: "getEphemeralPort (sv_queueId sv) (sv_portmap sv) = (port, pm)" by fastforce
  let ?sv = "sv\<lparr>sv_portmap := pm, m_ephemeralResponse := pack_uint16 bo' port\<rparr>"
  have p: "out_pack (RegisterEphemeralOut bo) 0 = (True, [])" by (simp add: RegisterEphemeralOut_def)
  have u: "in_unpack (RegisterEphemeralIn bo') [] sv = (True, sv)" by (simp add: RegisterEphemeralIn_def)
  have c: "in_call (RegisterEphemeralIn bo') sv = ret (True, ?sv)"
    by (simp add: RegisterEphemeralIn_def RegisterEphemeralIn_call_def e)
  have "invokeSyncFunction bo (link_send bo' (service_executor bo')) link_recv (RegisterEphemeralOut bo) 0 (connected sv) =
      ret (out_parseResponse (RegisterEphemeralOut bo) (in_getResponse (RegisterEphemeralIn bo') ?sv) 0, connected ?sv)"
    by (rule sync_call [OF _ _ p u c]) (simp_all add: service_lookup service_ids SAN_RPC_MAX_FID_def)
  then show ?thesis
    by (simp add: connector_getEphemeralPort_def RegisterEphemeralOut_def RegisterEphemeralIn_def e
        cu16.dec_only cu16.enc_width)
qed

text \<open>
  C22. Waiting for a capsule through the connector. A queued capsule is taken off the
  application's queue, and only it, and arrives with every field that is carried on the wire; an
  empty queue whose wait times out gives the timeout code, and the caller's object is left
  alone. (A capsule's field \<^verbatim>\<open>m_interfaceAddress\<close> is not carried.)
\<close>

lemma wait_for_capsule_over_rpc:
  assumes "\<not> sv_stopped sv" and "length (sv_appQueue sv) < 2 ^ 32"
    and "\<forall>c \<in> set (sv_appQueue sv). wf_capsule c"
  shows "(\<forall>c cs. sv_appQueue sv = c # cs \<longrightarrow>
      (\<exists>lk. connector_waitForCapsule bo (link_send bo' (service_executor bo')) link_recv mine timeout (connected sv) =
          ret ((SAN2_WAITFORCAPSULE_SUCCESS, c\<lparr>m_interfaceAddress := m_interfaceAddress mine\<rparr>), lk) \<and>
        sv_appQueue (lk_service lk) = cs \<and> m_requestedTimeout (lk_service lk) = timeout)) \<and>
    (\<forall>q ws. sv_appQueue sv = [] \<and> sv_appWakes sv = (True, False, q) # ws \<longrightarrow>
      (\<exists>lk. connector_waitForCapsule bo (link_send bo' (service_executor bo')) link_recv mine timeout (connected sv) =
          ret ((SAN2_WAITFORCAPSULE_TIMEOUT, mine), lk) \<and> sv_appQueue (lk_service lk) = q))"
proof -
  let ?f = "\<lparr>wo_timeout = timeout, wo_response = []\<rparr>" and ?sv = "sv\<lparr>m_requestedTimeout := timeout\<rparr>"
  have p: "out_pack (WaitForCapsuleOut bo) ?f = (True, pack_uint32 bo timeout)"
    by (simp add: WaitForCapsuleOut_def)
  have u: "in_unpack (WaitForCapsuleIn bo') (pack_uint32 bo timeout) sv = (True, ?sv)"
    by (simp add: WaitForCapsuleIn_def WaitForCapsuleIn_unpack_def cu32.dec_only cu32.enc_width)
  have call: "connector_waitForCapsule bo (link_send bo' (service_executor bo')) link_recv mine timeout (connected sv) =
      ret (fst (getCapsule bo mine (?f\<lparr>wo_response := m_waitResponse sv2\<rparr>)), connected sv2)"
    if "in_call (WaitForCapsuleIn bo') ?sv = ret (True, sv2)" "4 \<le> length (m_waitResponse sv2)" for sv2
  proof -
    have "invokeSyncFunction bo (link_send bo' (service_executor bo')) link_recv (WaitForCapsuleOut bo) ?f (connected sv) =
        ret (out_parseResponse (WaitForCapsuleOut bo) (in_getResponse (WaitForCapsuleIn bo') sv2) ?f, connected sv2)"
      by (rule sync_call [OF _ _ p u that(1)]) (simp_all add: service_lookup service_ids SAN_RPC_MAX_FID_def)
    then show ?thesis
      using that(2) by (simp add: connector_waitForCapsule_def WaitForCapsuleOut_def WaitForCapsuleIn_def)
  qed
  have width: "length (pack_int32 bo' n) = 4" and front: "unpackInt32 bo (pack_int32 bo' n @ x) 0 = n" for n x
    by (simp_all add: ci32.enc_width ci32.dec_front)
  note simps = WaitForCapsuleIn_def WaitForCapsuleIn_call_def Let_def SAN2_WAITFORCAPSULE_SUCCESS_def
    SAN2_WAITFORCAPSULE_TIMEOUT_def SAN2_WAITFORCAPSULE_ERROR_def
  have "\<exists>lk. connector_waitForCapsule bo (link_send bo' (service_executor bo')) link_recv mine timeout (connected sv) =
        ret ((SAN2_WAITFORCAPSULE_SUCCESS, c\<lparr>m_interfaceAddress := m_interfaceAddress mine\<rparr>), lk) \<and>
      sv_appQueue (lk_service lk) = cs \<and> m_requestedTimeout (lk_service lk) = timeout" if "sv_appQueue sv = c # cs" for c cs
  proof -
    let ?sv2 = "?sv\<lparr>sv_appQueue := cs, m_waitResponse := pack_int32 bo' 3 @ capsule_pack bo' c\<rparr>"
    have "in_call (WaitForCapsuleIn bo') ?sv = ret (True, ?sv2)"
      using assms(1,2) that by (simp add: simps)
    from call [OF this] show ?thesis
      using assms(3) that width front
      by (simp add: getCapsule_def capsule_unpack_pack simps connected_def)
  qed
  moreover have "\<exists>lk. connector_waitForCapsule bo (link_send bo' (service_executor bo')) link_recv mine timeout (connected sv) =
          ret ((SAN2_WAITFORCAPSULE_TIMEOUT, mine), lk) \<and> sv_appQueue (lk_service lk) = q"
    if "sv_appQueue sv = []" "sv_appWakes sv = (True, False, q) # ws" for q ws
  proof -
    let ?sv2 = "?sv\<lparr>sv_appQueue := q, sv_appWakes := ws, m_waitResponse := pack_int32 bo' 4\<rparr>"
    have "in_call (WaitForCapsuleIn bo') ?sv = ret (True, ?sv2)"
      using assms(1) that by (simp add: simps run_call_def isEmpty_def)
    from call [OF this] show ?thesis
      using width front [of _ "[]"] by (simp add: getCapsule_def simps connected_def)
  qed
  ultimately show ?thesis by blast
qed

definition sample_capsule :: capsule where
  "sample_capsule = \<lparr>m_flagDX = False, m_flagDS = True, m_interfaceAddress = replicate 32 0,
     m_srcAddress = replicate 32 1, m_dstAddress = replicate 32 2, m_appId = replicate 20 3, m_hop = 7,
     m_data = [0, 80, 0, 90, 5]\<rparr>"

lemma wf_sample_capsule: "wf_capsule sample_capsule"
  by (simp add: wf_capsule_def sample_capsule_def sanAddressSize_def sanHashSize_def)

definition sample_service :: "nat service" where
  "sample_service = \<lparr>sv_stopped = False, sv_nodeQueue = [], sv_nodeMax = 10, sv_nodeWakes = [],
     sv_appQueue = [sample_capsule], sv_appWakes = [], sv_portmap = CPortmap, sv_queueId = 1,
     sv_interfaces = [], sv_nodeName = ''node'', sv_uptimeSec = 90061, sv_fromAddress = replicate 32 0,
     sv_heap = sample_capsule, sv_stack = 0, m_SerializedCapsule = [], m_port = 0, m_registerResponse = [],
     m_ephemeralResponse = [], m_requestedTimeout = 0, m_waitResponse = [], m_addressesResponse = [],
     m_parameter = [], m_parameterResponse = []\<rparr>"

lemma wait_for_capsule_over_rpc_witness:
  "\<exists>lk. connector_waitForCapsule SAN_LITTLE_ENDIAN (link_send SAN_BIG_ENDIAN (service_executor SAN_BIG_ENDIAN)) link_recv
      sample_capsule 1000 (connected sample_service) = ret ((SAN2_WAITFORCAPSULE_SUCCESS, sample_capsule), lk) \<and>
    sv_appQueue (lk_service lk) = []"
  using wait_for_capsule_over_rpc [of sample_service SAN_LITTLE_ENDIAN SAN_BIG_ENDIAN sample_capsule 1000] wf_sample_capsule
  by (auto simp: sample_service_def)

lemma chunks_concat:
  "\<forall>x \<in> set xs. length x = sanAddressSize \<Longrightarrow> chunks (length xs) (concat xs) = xs"
  by (induction xs) simp_all

lemma length_concat_fixed: "\<forall>x \<in> set xs. length x = n \<Longrightarrow> length (concat xs) = length xs * n"
  by (induction xs) simp_all

lemma getAddresses_concat:
  assumes "\<forall>x \<in> set xs. length x = sanAddressSize" and "length xs < 2 ^ 32"
  shows "getAddresses (concat xs) = (word_of_nat (length xs), xs)"
proof -
  have len: "length (concat xs) mod sanAddressSize = 0" "length (concat xs) div sanAddressSize = length xs"
    using length_concat_fixed [OF assms(1)] by (simp_all add: sanAddressSize_def)
  have u: "unat (word_of_nat (length xs) :: u32) = length xs"
    using assms(2) by (simp add: unsigned_of_nat take_bit_eq_mod)
  have "chunks (length xs) (concat xs) = xs" using assms(1) by (rule chunks_concat)
  moreover have "xs = []" if "(word_of_nat (length xs) :: u32) = 0"
    using u that by (metis length_0_conv unat_0)
  ultimately show ?thesis
    unfolding getAddresses_def Let_def len u by (metis len(1) list.size(3) of_nat_0)
qed

text \<open>
  The list of the node's interface addresses comes back complete and in order, whatever its
  length, as long as the addresses have their fixed size and there are fewer than $2^{32}$ of them.
\<close>

lemma addresses_over_rpc:
  assumes "\<forall>x \<in> set (sv_interfaces sv). length (if_address x) = sanAddressSize"
    and "length (sv_interfaces sv) < 2 ^ 32"
  shows "\<exists>lk. connector_getInterfaceAddresses bo (link_send bo' (service_executor bo')) link_recv adrs (connected sv) =
    ret ((word_of_nat (length (sv_interfaces sv)), map if_address (sv_interfaces sv)), lk)"
proof -
  let ?as = "map if_address (sv_interfaces sv)"
  let ?sv = "sv\<lparr>m_addressesResponse := concat ?as\<rparr>"
  have eq: "map (\<lambda>x. take sanAddressSize (if_address x)) (sv_interfaces sv) = ?as"
    using assms(1) by (intro map_cong) simp_all
  have p: "out_pack GetAddressesOut [] = (True, [])" by (simp add: GetAddressesOut_def)
  have u: "in_unpack GetAddressesIn [] sv = (True, sv)" by (simp add: GetAddressesIn_def)
  have c: "in_call GetAddressesIn sv = ret (True, ?sv)"
    by (simp add: GetAddressesIn_def) (simp only: GetAddressesIn_call_def eq)
  have "invokeSyncFunction bo (link_send bo' (service_executor bo')) link_recv GetAddressesOut [] (connected sv) =
      ret (out_parseResponse GetAddressesOut (in_getResponse GetAddressesIn ?sv) [], connected ?sv)"
    by (rule sync_call [OF _ _ p u c]) (simp_all add: service_lookup service_ids SAN_RPC_MAX_FID_def)
  moreover have "getAddresses (concat ?as) = (word_of_nat (length ?as), ?as)"
    using assms by (intro getAddresses_concat) auto
  ultimately show ?thesis
    by (auto simp: connector_getInterfaceAddresses_def GetAddressesOut_def GetAddressesIn_def)
qed

text \<open>
  C21. Sending a capsule through the connector. The packed capsule ends up at the back of the
  node's input queue with every field intact and marked with the channel's own address as the
  interface it came from, whatever the sender wrote there; bytes too short for a capsule are
  reported as sent but change no queue.
\<close>

lemma send_capsule_over_rpc:
  assumes "\<not> sv_stopped sv" and "\<not> isFull (sv_nodeMax sv) (sv_nodeQueue sv)"
  shows "(\<forall>c. wf_capsule c \<longrightarrow>
      connector_sendCapsule bo (link_send bo' (service_executor bo')) (capsule_pack bo c) (connected sv) =
        ret (True, connected (sv\<lparr>m_SerializedCapsule := capsule_pack bo c,
          sv_nodeQueue := sv_nodeQueue sv @ [c\<lparr>m_interfaceAddress := sv_fromAddress sv\<rparr>]\<rparr>))) \<and>
    (\<forall>b. length b < headerSize \<longrightarrow>
      connector_sendCapsule bo (link_send bo' (service_executor bo')) b (connected sv) =
        ret (True, connected (sv\<lparr>m_SerializedCapsule := b\<rparr>)))"
proof -
  have call: "connector_sendCapsule bo (link_send bo' (service_executor bo')) b (connected sv) = ret (True, connected sv2)"
    if "SendCapsuleFuncIn_call bo' (sv\<lparr>m_SerializedCapsule := b\<rparr>) = ret (v, sv2)" for b v sv2
    using that
    by (simp add: connector_sendCapsule_def invokeFunction_def SendCapsuleFuncOut_def sendData_datagram
        SAN_RPC_MAX_FID_def link_send_executes executeFunction_def service_lookup SendCapsuleFuncIn_def
        SendCapsuleFuncIn_unpack_def connected_def)
  have "SendCapsuleFuncIn_call bo' (sv\<lparr>m_SerializedCapsule := capsule_pack bo c\<rparr>) =
      ret (True, sv\<lparr>m_SerializedCapsule := capsule_pack bo c,
        sv_nodeQueue := sv_nodeQueue sv @ [c\<lparr>m_interfaceAddress := sv_fromAddress sv\<rparr>]\<rparr>)" if "wf_capsule c" for c
    using assms that by (simp add: SendCapsuleFuncIn_call_def SendCapsuleFuncIn_operator_def capsule_unpack_pack setFromInterfaceAddress_def)
  moreover have "SendCapsuleFuncIn_call bo' (sv\<lparr>m_SerializedCapsule := b\<rparr>) = ret (False, sv\<lparr>m_SerializedCapsule := b\<rparr>)"
    if "length b < headerSize" for b
    using that by (simp add: SendCapsuleFuncIn_call_def SendCapsuleFuncIn_operator_def capsule_unpack_def)
  ultimately show ?thesis using call by blast
qed

lemma send_capsule_over_rpc_witness:
  "connector_sendCapsule SAN_LITTLE_ENDIAN (link_send SAN_BIG_ENDIAN (service_executor SAN_BIG_ENDIAN))
     (capsule_pack SAN_LITTLE_ENDIAN sample_capsule) (connected sample_service) =
   ret (True, connected (sample_service\<lparr>m_SerializedCapsule := capsule_pack SAN_LITTLE_ENDIAN sample_capsule,
     sv_nodeQueue := [sample_capsule\<lparr>m_interfaceAddress := sv_fromAddress sample_service\<rparr>]\<rparr>))"
  using send_capsule_over_rpc [of sample_service SAN_LITTLE_ENDIAN SAN_BIG_ENDIAN] wf_sample_capsule
  by (simp add: sample_service_def isFull_iff)

text \<open>
  When the service channel of an application ends, whatever the application did, no port
  leads to its queue any more, and the ports of all other queues are as the functions left them.
\<close>

lemma service_channel_frees_ports:
  assumes "service_receive bo sd rcv fid a s = ret (code, a', s')"
  shows "code = SUCCESS \<and> getPortQueue p (sv_portmap a') \<noteq> Some (sv_queueId a') \<and>
    (\<exists>a1 s1. exec_run bo sd rcv executor_terminated (service_executor bo) fid (a\<lparr>sv_fromAddress := sanDefaultAddress\<rparr>) s = ret (a1, s1) \<and> sv_queueId a' = sv_queueId a1 \<and>
      (\<forall>q. q \<noteq> sv_queueId a' \<longrightarrow>
        (getPortQueue p (sv_portmap a') = Some q \<longleftrightarrow> getPortQueue p (sv_portmap a1) = Some q)))"
proof -
  obtain a1 s1 where r: "exec_run bo sd rcv executor_terminated (service_executor bo) fid (a\<lparr>sv_fromAddress := sanDefaultAddress\<rparr>) s = ret (a1, s1)"
    and a': "a' = a1\<lparr>sv_portmap := freePorts (sv_queueId a1) (sv_portmap a1)\<rparr>" "code = SUCCESS"
    using assms by (auto simp: service_receive_def service_functions_eq io_bind_eq_ret)
  then show ?thesis by (auto simp: pt.free_owner)
qed

end
