(* ===== verification/Node.thy ===== *)
theory Node
  imports Interfaces
begin

text \<open>
  The node: the forwarding loop and the injection calls of \<^verbatim>\<open>src/node/cnode.cpp\<close>, with the
  output queue of an interface (\<^verbatim>\<open>CTcpInterface::sendCapsule\<close>). The lemmas show where the
  loop puts each capsule, that a batch is distributed completely and in order, and what
  termination does to the loop.
\<close>

section \<open>State\<close>

text \<open>
  The interfaces are a set of pointers, a list in the order of the pointers here. \<open>nd_queues\<close>
  is the heap of the application queues that the port table points to. \<open>nd_stopped\<close> is the
  thread's flag. As in the calls of a queue, a list of wake-ups holds what the other threads
  do during the waits, one after the other, whichever queue is waited on.
\<close>

record 'q node =
  nd_inputQueue :: "capsule list"
  nd_inputMax :: u64
  nd_interfaces :: "iface list"
  nd_portmap :: "'q portmap"
  nd_queues :: "'q \<Rightarrow> capsule list"
  nd_name :: string
  nd_startupTime :: u64
  nd_stopped :: bool

definition CNode :: "u32 \<Rightarrow> string \<Rightarrow> u64 \<Rightarrow> 'q node" where
  "CNode inputQueueMaxSize nodeName getSeconds =
     \<lparr>nd_inputQueue = [], nd_inputMax = ucast inputQueueMaxSize, nd_interfaces = [], nd_portmap = CPortmap,
      nd_queues = (\<lambda>_. []), nd_name = nodeName, nd_startupTime = getSeconds, nd_stopped = False\<rparr>"

definition getUptimeSec :: "u64 \<Rightarrow> 'q node \<Rightarrow> u64" where
  "getUptimeSec getSeconds nd = getSeconds - nd_startupTime nd"

text \<open>\<open>k\<close> is the place of the new pointer among the others.\<close>

definition addInterface :: "nat \<Rightarrow> iface \<Rightarrow> 'q node \<Rightarrow> int \<times> 'q node" where
  "addInterface k iface nd =
     (0, nd\<lparr>nd_interfaces := take k (nd_interfaces nd) @ [iface] @ drop k (nd_interfaces nd)\<rparr>)"

section \<open>Injecting capsules\<close>

text \<open>
  The code of the push, 0 for success, becomes a \<^verbatim>\<open>bool\<close>. A null pointer fails the assertion;
  \<^verbatim>\<open>thr\<close> is not used, the flag read is the node's own.
\<close>

definition inject_with :: "(capsule \<Rightarrow> capsule call) \<Rightarrow> capsule option \<Rightarrow> 'q node \<Rightarrow> capsule wake list \<Rightarrow>
    (bool \<times> 'q node \<times> capsule wake list) io" where
  "inject_with mk capsule nd ws =
     (case capsule of
        None \<Rightarrow> Some (Inl AssertionFailed)
      | Some c \<Rightarrow>
          (case run_call (nd_inputMax nd) (nd_stopped nd) (mk c) (nd_inputQueue nd) ws of
             None \<Rightarrow> None
           | Some ((rval, _), q, ws) \<Rightarrow> ret (rval \<noteq> 0, nd\<lparr>nd_inputQueue := q\<rparr>, ws)))"

definition injectCapsule :: "capsule option \<Rightarrow> 'q node \<Rightarrow> capsule wake list \<Rightarrow> (bool \<times> 'q node \<times> capsule wake list) io" where
  "injectCapsule = inject_with Push"

definition injectCapsule_timed ::
  "capsule option \<Rightarrow> 'q node \<Rightarrow> capsule wake list \<Rightarrow> (bool \<times> 'q node \<times> capsule wake list) io" where
  "injectCapsule_timed = inject_with PushTimed"

definition tryInjectCapsule :: "capsule option \<Rightarrow> 'q node \<Rightarrow> capsule wake list \<Rightarrow> (bool \<times> 'q node \<times> capsule wake list) io" where
  "tryInjectCapsule = inject_with TryPush"

section \<open>Forwarding\<close>

text \<open>\<^verbatim>\<open>CTcpInterface::sendCapsule\<close>: a push without waiting, which drops when the queue is full.\<close>

definition iface_sendCapsule :: "bool \<Rightarrow> capsule \<Rightarrow> iface \<Rightarrow> capsule wake list \<Rightarrow> (bool \<times> iface \<times> capsule wake list) option" where
  "iface_sendCapsule stopped capsule i ws =
     map_option (\<lambda>((rval, _), q, ws). (rval = 0, i\<lparr>if_queue := q\<rparr>, ws))
       (run_call (if_max i) stopped (TryPush capsule) (if_queue i) ws)"

definition atDestination :: "iface list \<Rightarrow> capsule \<Rightarrow> bool" where
  "atDestination ifs capsule =
     foldl (\<lambda>destinationReached i. if m_dstAddress capsule = if_address i then True else destinationReached) False ifs"

primrec forward :: "bool \<Rightarrow> capsule \<Rightarrow> iface list \<Rightarrow> bool \<Rightarrow> capsule wake list \<Rightarrow>
    (bool \<times> iface list \<times> capsule wake list) option" where
  "forward stopped capsule [] destinationReached ws = Some (destinationReached, [], ws)"
| "forward stopped capsule (i # ifs) destinationReached ws =
     (if m_dstAddress capsule = if_peer i then
        (case iface_sendCapsule stopped capsule i ws of
           None \<Rightarrow> None
         | Some (sent, i, ws) \<Rightarrow>
             map_option (\<lambda>(r, ifs, ws). (r, i # ifs, ws)) (forward stopped capsule ifs sent ws))
      else map_option (\<lambda>(r, ifs, ws). (r, i # ifs, ws)) (forward stopped capsule ifs destinationReached ws))"

text \<open>
  The capsule is at its destination: the first component is false when the loop is left. A test
  message is logged, after looking at its last byte.
\<close>

definition deliver_local :: "byte_order \<Rightarrow> capsule \<Rightarrow> 'q node \<Rightarrow> capsule wake list \<Rightarrow>
    (bool \<times> 'q node \<times> capsule wake list) io" where
  "deliver_local bo capsule nd ws =
     (case getPortsDS bo capsule of
        Some (dstport, srcport) \<Rightarrow>
          (case getPortQueue dstport (nd_portmap nd) of
             Some dsque \<Rightarrow>
               (case run_call SAN2_CNODESERVICECHANNEL_APPQUEMAXLEN (nd_stopped nd) (TryPush capsule) (nd_queues nd dsque) ws of
                  None \<Rightarrow> None
                | Some ((rval, _), q, ws) \<Rightarrow> ret (rval \<noteq> -1, nd\<lparr>nd_queues := (nd_queues nd)(dsque := q)\<rparr>, ws))
           | None \<Rightarrow> ret (True, nd, ws))
      | None \<Rightarrow>
          if m_appId capsule = sanTestMessageApplicationId \<and> m_data capsule = [] then Some (Inl OutOfRange)
          else ret (True, nd, ws))"

text \<open>
  One round. The result of \<^verbatim>\<open>pop\<close> is not looked at: when it fails, the capsule is the one of
  the round before, or still null.
\<close>

definition node_round :: "byte_order \<Rightarrow> capsule option \<Rightarrow> 'q node \<Rightarrow> capsule wake list \<Rightarrow>
    (bool \<times> capsule option \<times> 'q node \<times> capsule wake list) io" where
  "node_round bo capsule nd ws =
     (case run_call (nd_inputMax nd) (nd_stopped nd) PopTimed (nd_inputQueue nd) ws of
        None \<Rightarrow> None
      | Some ((_, out), q, ws) \<Rightarrow>
          let nd = nd\<lparr>nd_inputQueue := q\<rparr>;
              capsule = (case out of Some c \<Rightarrow> Some c | None \<Rightarrow> capsule)
          in case capsule of
               None \<Rightarrow> if nd_interfaces nd = [] then ret (True, None, nd, ws) else Some (Inl NullPointer)
             | Some c \<Rightarrow>
                 if atDestination (nd_interfaces nd) c
                 then io_bind (deliver_local bo c nd ws) (\<lambda>(goes_on, nd, ws). ret (goes_on, Some c, nd, ws))
                 else (case forward (nd_stopped nd) c (nd_interfaces nd) False ws of
                         None \<Rightarrow> None
                       | Some (_, ifs, ws) \<Rightarrow> ret (True, Some c, nd\<lparr>nd_interfaces := ifs\<rparr>, ws)))"

text \<open>\<open>None\<close> is a loop that is not left.\<close>

partial_function (option) node_run ::
  "byte_order \<Rightarrow> capsule option \<Rightarrow> 'q node \<Rightarrow> capsule wake list \<Rightarrow> ('q node \<times> capsule wake list) io" where
  "node_run bo capsule nd ws =
     (case node_round bo capsule nd ws of
        None \<Rightarrow> None
      | Some r \<Rightarrow>
          (case r of
             Inl e \<Rightarrow> Some (Inl e)
           | Inr v \<Rightarrow>
               if \<not> fst v then Some (Inr (snd (snd v)))
               else node_run bo (fst (snd v)) (fst (snd (snd v))) (snd (snd (snd v)))))"

text \<open>The first \<open>n\<close> rounds.\<close>

primrec node_rounds :: "nat \<Rightarrow> byte_order \<Rightarrow> capsule option \<Rightarrow> 'q node \<Rightarrow> capsule wake list \<Rightarrow>
    (bool \<times> capsule option \<times> 'q node \<times> capsule wake list) io" where
  "node_rounds 0 bo capsule nd ws = ret (True, capsule, nd, ws)"
| "node_rounds (Suc n) bo capsule nd ws =
     io_bind (node_round bo capsule nd ws) (\<lambda>(goes_on, capsule, nd, ws).
       if goes_on then node_rounds n bo capsule nd ws else ret (False, capsule, nd, ws))"

section \<open>Where a capsule goes\<close>

definition local_to :: "iface list \<Rightarrow> capsule \<Rightarrow> bool" where
  "local_to ifs c \<longleftrightarrow> m_dstAddress c \<in> if_address ` set ifs"

definition for_queue :: "byte_order \<Rightarrow> iface list \<Rightarrow> 'q portmap \<Rightarrow> 'q \<Rightarrow> capsule \<Rightarrow> bool" where
  "for_queue bo ifs pm q c \<longleftrightarrow> local_to ifs c \<and>
     (case getPortsDS bo c of Some (dstport, _) \<Rightarrow> getPortQueue dstport pm = Some q | None \<Rightarrow> False)"

definition for_iface :: "iface list \<Rightarrow> iface \<Rightarrow> capsule \<Rightarrow> bool" where
  "for_iface ifs i c \<longleftrightarrow> \<not> local_to ifs c \<and> m_dstAddress c = if_peer i"

text \<open>A test message without data makes the node read outside it.\<close>

definition harmless :: "byte_order \<Rightarrow> capsule \<Rightarrow> bool" where
  "harmless bo c \<longleftrightarrow> getPortsDS bo c \<noteq> None \<or> m_appId c \<noteq> sanTestMessageApplicationId \<or> m_data c \<noteq> []"

lemma atDestination_iff: "atDestination ifs c \<longleftrightarrow> local_to ifs c"
proof -
  have "foldl (\<lambda>r i. if m_dstAddress c = if_address i then True else r) r ifs \<longleftrightarrow>
      r \<or> (\<exists>i \<in> set ifs. m_dstAddress c = if_address i)" for r
    by (induction ifs arbitrary: r) auto
  then show ?thesis by (auto simp: atDestination_def local_to_def)
qed

lemma run_call_pop [simp]:
  "length (x # q) < 2 ^ 32 \<Longrightarrow> run_call mx False PopTimed (x # q) ws = Some ((0, Some x), q, ws)"
  using isEmpty_iff [of "x # q"] by (simp add: run_call_def pop_item_def)

lemma run_call_try_push [simp]:
  "\<not> isFull mx q \<Longrightarrow> run_call mx False (TryPush x) q ws = Some ((0, None), q @ [x], ws)"
  by (simp add: run_call_def push_item_def)

text \<open>The wait of a push without waiting time ends by its timeout: the capsule is dropped.\<close>

lemma run_call_tail_drop [simp]:
  "isFull mx q \<Longrightarrow> run_call mx st (TryPush x) q ((True, st', q') # ws) = Some ((-2, None), q', ws)"
  by (simp add: run_call_def)

lemma has_room: "length q < unat mx \<Longrightarrow> unat mx < 2 ^ 32 \<Longrightarrow> \<not> isFull mx q"
  by (simp add: isFull_iff)

lemma forward_room:
  assumes "\<forall>i \<in> set ifs. m_dstAddress c = if_peer i \<longrightarrow> \<not> isFull (if_max i) (if_queue i)"
  shows "\<exists>r'. forward False c ifs r ws =
    Some (r', map (\<lambda>i. if m_dstAddress c = if_peer i then i\<lparr>if_queue := if_queue i @ [c]\<rparr> else i) ifs, ws)"
  using assms by (induction ifs arbitrary: r) (auto simp: iface_sendCapsule_def)

lemma node_round_room:
  assumes "\<not> nd_stopped nd" and "nd_inputQueue nd = c # cs" and "length (c # cs) < 2 ^ 32"
    and "\<forall>i \<in> set (nd_interfaces nd). for_iface (nd_interfaces nd) i c \<longrightarrow> \<not> isFull (if_max i) (if_queue i)"
    and "\<forall>q. for_queue bo (nd_interfaces nd) (nd_portmap nd) q c \<longrightarrow> length (nd_queues nd q) < 20"
    and "harmless bo c"
  shows "node_round bo cap nd ws = ret (True, Some c,
    nd\<lparr>nd_inputQueue := cs,
      nd_queues := (\<lambda>q. nd_queues nd q @ filter (for_queue bo (nd_interfaces nd) (nd_portmap nd) q) [c]),
      nd_interfaces := map (\<lambda>i. i\<lparr>if_queue := if_queue i @ filter (for_iface (nd_interfaces nd) i) [c]\<rparr>) (nd_interfaces nd)\<rparr>, ws)"
proof (cases "local_to (nd_interfaces nd) c")
  case True
  have same: "map (\<lambda>i. i\<lparr>if_queue := if_queue i @ filter (for_iface (nd_interfaces nd) i) [c]\<rparr>) (nd_interfaces nd) =
      nd_interfaces nd" using True by (simp add: for_iface_def)
  have d: "deliver_local bo c (nd\<lparr>nd_inputQueue := cs\<rparr>) ws = ret (True, nd\<lparr>nd_inputQueue := cs,
      nd_queues := (\<lambda>q. nd_queues nd q @ filter (for_queue bo (nd_interfaces nd) (nd_portmap nd) q) [c])\<rparr>, ws)"
  proof (cases "getPortsDS bo c")
    case None
    then show ?thesis using assms(6) by (auto simp: deliver_local_def harmless_def for_queue_def)
  next
    case (Some ports)
    obtain d s where ports: "ports = (d, s)" by (cases ports)
    show ?thesis
    proof (cases "getPortQueue d (nd_portmap nd)")
      case None
      then show ?thesis using Some ports by (simp add: deliver_local_def for_queue_def)
    next
      case (Some q)
      have "for_queue bo (nd_interfaces nd) (nd_portmap nd) q' c \<longleftrightarrow> q' = q" for q'
        using Some ports \<open>getPortsDS bo c = Some ports\<close> True by (auto simp: for_queue_def)
      moreover from this have "\<not> isFull SAN2_CNODESERVICECHANNEL_APPQUEMAXLEN (nd_queues nd q)"
        using assms(5) by (simp add: isFull_iff SAN2_CNODESERVICECHANNEL_APPQUEMAXLEN_def)
      ultimately show ?thesis
        using Some ports \<open>getPortsDS bo c = Some ports\<close> assms(1) by (auto simp: deliver_local_def fun_eq_iff)
    qed
  qed
  show ?thesis
    using assms(1-3) d True unfolding same by (simp add: node_round_def atDestination_iff)
next
  case False
  let ?f = "\<lambda>i. if m_dstAddress c = if_peer i then i\<lparr>if_queue := if_queue i @ [c]\<rparr> else i"
  have "\<forall>i \<in> set (nd_interfaces nd). m_dstAddress c = if_peer i \<longrightarrow> \<not> isFull (if_max i) (if_queue i)"
    using assms(4) False by (simp add: for_iface_def)
  then obtain r' where "forward False c (nd_interfaces nd) False ws = Some (r', map ?f (nd_interfaces nd), ws)"
    using forward_room by blast
  moreover have "?f = (\<lambda>i. i\<lparr>if_queue := if_queue i @ filter (for_iface (nd_interfaces nd) i) [c]\<rparr>)"
    using False by (auto simp: for_iface_def fun_eq_iff)
  moreover have "(\<lambda>q. nd_queues nd q @ filter (for_queue bo (nd_interfaces nd) (nd_portmap nd) q) [c]) = nd_queues nd"
    using False by (simp add: for_queue_def)
  ultimately show ?thesis
    using assms(1-3) False by (simp add: node_round_def atDestination_iff)
qed

text \<open>The node after a batch: each queue has got what is for it, in order.\<close>

definition after_batch :: "byte_order \<Rightarrow> capsule list \<Rightarrow> 'q node \<Rightarrow> 'q node" where
  "after_batch bo cs nd = nd\<lparr>nd_inputQueue := [],
     nd_queues := (\<lambda>q. nd_queues nd q @ filter (for_queue bo (nd_interfaces nd) (nd_portmap nd) q) cs),
     nd_interfaces := map (\<lambda>i. i\<lparr>if_queue := if_queue i @ filter (for_iface (nd_interfaces nd) i) cs\<rparr>) (nd_interfaces nd)\<rparr>"

definition room_for :: "byte_order \<Rightarrow> capsule list \<Rightarrow> 'q node \<Rightarrow> bool" where
  "room_for bo cs nd \<longleftrightarrow>
     (\<forall>q. length (nd_queues nd q) + length (filter (for_queue bo (nd_interfaces nd) (nd_portmap nd) q) cs) \<le> 20) \<and>
     (\<forall>i \<in> set (nd_interfaces nd). unat (if_max i) < 2 ^ 32 \<and>
        length (if_queue i) + length (filter (for_iface (nd_interfaces nd) i) cs) \<le> unat (if_max i))"

lemma for_queue_update: "for_queue bo (map (\<lambda>i. i\<lparr>if_queue := f i\<rparr>) ifs) = for_queue bo ifs"
  by (simp add: for_queue_def local_to_def image_image fun_eq_iff)

lemma for_iface_update:
  "for_iface (map (\<lambda>i. i\<lparr>if_queue := f i\<rparr>) ifs) = for_iface ifs" "for_iface ifs (i\<lparr>if_queue := x\<rparr>) = for_iface ifs i"
  by (simp_all add: for_iface_def local_to_def image_image fun_eq_iff)

lemma node_rounds_batch:
  assumes "\<not> nd_stopped nd" and "nd_inputQueue nd = cs" and "length cs < 2 ^ 32" and "room_for bo cs nd"
    and "list_all (harmless bo) cs"
  shows "\<exists>last. node_rounds (length cs) bo cap nd ws = ret (True, last, after_batch bo cs nd, ws)"
  using assms
proof (induction cs arbitrary: nd cap)
  case Nil
  then show ?case by (simp add: after_batch_def ret_def)
next
  case (Cons c cs)
  let ?ifs = "nd_interfaces nd" and ?pm = "nd_portmap nd"
  let ?nd = "nd\<lparr>nd_inputQueue := cs, nd_queues := (\<lambda>q. nd_queues nd q @ filter (for_queue bo ?ifs ?pm q) [c]),
      nd_interfaces := map (\<lambda>i. i\<lparr>if_queue := if_queue i @ filter (for_iface ?ifs i) [c]\<rparr>) ?ifs\<rparr>"
  have "for_queue bo ?ifs ?pm q c \<Longrightarrow> length (nd_queues nd q) < 20" for q
    using Cons.prems(4) unfolding room_for_def by (auto dest: spec [of _ q])
  moreover have "for_iface ?ifs i c \<Longrightarrow> i \<in> set ?ifs \<Longrightarrow> \<not> isFull (if_max i) (if_queue i)" for i
    using Cons.prems(4) unfolding room_for_def by (intro has_room) (auto dest: bspec [of _ _ i])
  ultimately have round: "node_round bo cap nd ws = ret (True, Some c, ?nd, ws)"
    using Cons.prems(1-3,5) by (intro node_round_room) simp_all
  have "room_for bo cs ?nd"
    using Cons.prems(4) by (auto simp: room_for_def for_queue_update for_iface_update split: if_splits)
  then obtain last where "node_rounds (length cs) bo (Some c) ?nd ws = ret (True, last, after_batch bo cs ?nd, ws)"
    using Cons.IH [of ?nd "Some c"] Cons.prems(1,3,5) by auto
  moreover have "filter P (c # cs) = filter P [c] @ filter P cs" for P by simp
  then have "after_batch bo cs ?nd = after_batch bo (c # cs) nd"
    by (simp add: after_batch_def for_queue_update for_iface_update comp_def del: filter.simps)
  ultimately show ?case using round by simp
qed

section \<open>Properties\<close>

text \<open>
  C10. The node distributes a batch. As long as the queues have room and no test message is
  empty, the rounds of the loop take every capsule off the input queue; each queue of an
  application has got, in order, exactly the capsules whose destination is an address of the node
  and whose port leads to it; each interface exactly those for its peer; everything else is
  dropped, and nothing else changes.
\<close>

lemma node_distributes_batch:
  assumes "\<not> nd_stopped nd" and "length (nd_inputQueue nd) < 2 ^ 32" and "room_for bo (nd_inputQueue nd) nd"
    and "list_all (harmless bo) (nd_inputQueue nd)"
  shows "\<exists>last. node_rounds (length (nd_inputQueue nd)) bo cap nd ws =
    ret (True, last, after_batch bo (nd_inputQueue nd) nd, ws)"
  using node_rounds_batch [OF assms(1) refl assms(2-4)] .

text \<open>Two interfaces; a capsule for the peer of the second, one for port 80 here, one for nobody.\<close>

definition sample_iface :: "byte \<Rightarrow> byte \<Rightarrow> iface" where
  "sample_iface a p = \<lparr>if_address = replicate 32 a, if_peer = replicate 32 p, if_rx = CONNECTED, if_tx = CONNECTED,
     if_queue = [], if_max = 50\<rparr>"

definition sample_to :: "byte \<Rightarrow> capsule" where
  "sample_to a = setDSdata SAN_BIG_ENDIAN 80 4000 [7] (setDestinationAddress (replicate 32 a) sample_capsule)"

definition sample_node :: "nat node" where
  "sample_node = (CNode 50 ''n1'' 1000)\<lparr>nd_interfaces := [sample_iface 1 2, sample_iface 3 4],
     nd_portmap := snd (registerPort 80 0 CPortmap), nd_inputQueue := [sample_to 4, sample_to 1, sample_to 9]\<rparr>"

lemma sample_to_facts:
  "m_dstAddress (sample_to a) = replicate 32 a" "getPortsDS bo (sample_to a) = Some (80, 4000)"
  by (simp_all add: sample_to_def step_simps getPortsDS_def cu16.dec_front cu16.dec_two [of _ _ 2] cu16.enc_width)

lemma sample_goes:
  "local_to (nd_interfaces sample_node) (sample_to a) \<longleftrightarrow> a = 1 \<or> a = 3"
  "for_queue bo (nd_interfaces sample_node) (nd_portmap sample_node) q (sample_to a) \<longleftrightarrow> (a = 1 \<or> a = 3) \<and> q = 0"
  "for_iface (nd_interfaces sample_node) (sample_iface x p) (sample_to a) \<longleftrightarrow> a \<noteq> 1 \<and> a \<noteq> 3 \<and> a = p"
  by (auto simp: for_queue_def for_iface_def local_to_def sample_node_def sample_iface_def sample_to_facts
      getPortQueue_def registerPort_def CPortmap_def)

lemma node_distributes_batch_witness:
  "\<exists>last. node_rounds 3 SAN_BIG_ENDIAN None sample_node [] =
     ret (True, last, after_batch SAN_BIG_ENDIAN [sample_to 4, sample_to 1, sample_to 9] sample_node, []) \<and>
   nd_queues (after_batch SAN_BIG_ENDIAN [sample_to 4, sample_to 1, sample_to 9] sample_node) 0 = [sample_to 1]"
proof -
  have q: "nd_inputQueue sample_node = [sample_to 4, sample_to 1, sample_to 9]" "\<not> nd_stopped sample_node"
    "nd_queues sample_node q = []" "nd_interfaces sample_node = [sample_iface 1 2, sample_iface 3 4]" for q
    by (simp_all add: sample_node_def CNode_def)
  have "length (filter P [sample_to 4, sample_to 1, sample_to 9]) \<le> 3" for P
    using length_filter_le [of P "[sample_to 4, sample_to 1, sample_to 9]"] by (simp del: filter.simps)
  note le_trans [OF this]
  then have "room_for SAN_BIG_ENDIAN (nd_inputQueue sample_node) sample_node"
    unfolding room_for_def q(1,3) by (simp add: q(4) sample_iface_def del: filter.simps)
  moreover have "list_all (harmless SAN_BIG_ENDIAN) (nd_inputQueue sample_node)"
    by (simp add: q harmless_def sample_to_facts)
  ultimately obtain last where "node_rounds (length (nd_inputQueue sample_node)) SAN_BIG_ENDIAN None sample_node [] =
      ret (True, last, after_batch SAN_BIG_ENDIAN (nd_inputQueue sample_node) sample_node, [])"
    using node_distributes_batch [of sample_node SAN_BIG_ENDIAN None "[]"] q by auto
  moreover have "length (nd_inputQueue sample_node) = 3" by (simp add: q)
  moreover have "nd_queues (after_batch bo cs sample_node) 0 =
      filter (for_queue bo (nd_interfaces sample_node) (nd_portmap sample_node) 0) cs" for bo cs
    by (simp add: after_batch_def q(3))
  then have "nd_queues (after_batch SAN_BIG_ENDIAN [sample_to 4, sample_to 1, sample_to 9] sample_node) 0 = [sample_to 1]"
    by (simp only: filter.simps sample_goes) simp
  ultimately show ?thesis unfolding q(1) by metis
qed

text \<open>The waits of the pushes to interfaces whose queues are full all end by their timeout.\<close>

lemma forward_full:
  assumes "\<forall>i \<in> set ifs. m_dstAddress c = if_peer i \<longrightarrow> isFull (if_max i) (if_queue i)"
  shows "\<exists>r'. forward st c ifs r (map (\<lambda>i. (True, stop i, left i)) (filter (\<lambda>i. m_dstAddress c = if_peer i) ifs) @ ws) =
    Some (r', map (\<lambda>i. if m_dstAddress c = if_peer i then i\<lparr>if_queue := left i\<rparr> else i) ifs, ws)"
  using assms by (induction ifs arbitrary: r) (auto simp: iface_sendCapsule_def)

lemma node_round_local:
  assumes "\<not> nd_stopped nd" and "nd_inputQueue nd = c # cs" and "length (c # cs) < 2 ^ 32" and "local_to (nd_interfaces nd) c"
  shows "node_round bo cap nd ws = io_bind (deliver_local bo c (nd\<lparr>nd_inputQueue := cs\<rparr>) ws)
    (\<lambda>(goes_on, nd, ws). ret (goes_on, Some c, nd, ws))"
  using assms by (simp add: node_round_def atDestination_iff)

text \<open>
  C29. What the node drops. The running node takes a capsule off its input queue, and goes on to the
  next, with nothing else changed, if the capsule is for an address that is neither the node's nor a peer's, for a
  port of the node that nobody has, or for the node without ports, unless it is a test
  message without data, for which the round reads before the beginning of the data. If the queue the
  capsule is for, of an application or of all interfaces to the peer, is full, and no place in it is free when the time to
  wait is over, the capsule is dropped, too, and the queue holds what is left there at that time.
\<close>

lemma node_drops:
  assumes "\<not> nd_stopped nd" and "nd_inputQueue nd = c # cs" and "length (c # cs) < 2 ^ 32"
  shows "(\<not> local_to (nd_interfaces nd) c \<and> m_dstAddress c \<notin> if_peer ` set (nd_interfaces nd) \<longrightarrow>
      node_round bo cap nd ws = ret (True, Some c, nd\<lparr>nd_inputQueue := cs\<rparr>, ws)) \<and>
    (local_to (nd_interfaces nd) c \<and> getPortsDS bo c = Some (dstport, srcport) \<and> getPortQueue dstport (nd_portmap nd) = None \<longrightarrow>
      node_round bo cap nd ws = ret (True, Some c, nd\<lparr>nd_inputQueue := cs\<rparr>, ws)) \<and>
    (local_to (nd_interfaces nd) c \<and> getPortsDS bo c = None \<longrightarrow>
      node_round bo cap nd ws =
        (if m_appId c = sanTestMessageApplicationId \<and> m_data c = [] then Some (Inl OutOfRange)
         else ret (True, Some c, nd\<lparr>nd_inputQueue := cs\<rparr>, ws))) \<and>
    (for_queue bo (nd_interfaces nd) (nd_portmap nd) q c \<and> length (nd_queues nd q) = 20 \<longrightarrow>
      node_round bo cap nd ((True, st', q') # ws) =
        ret (True, Some c, nd\<lparr>nd_inputQueue := cs, nd_queues := (nd_queues nd)(q := q')\<rparr>, ws)) \<and>
    (\<not> local_to (nd_interfaces nd) c \<and>
      list_all (\<lambda>i. m_dstAddress c = if_peer i \<longrightarrow> isFull (if_max i) (if_queue i)) (nd_interfaces nd) \<longrightarrow>
      node_round bo cap nd (map (\<lambda>i. (True, stop i, left i)) (filter (\<lambda>i. m_dstAddress c = if_peer i) (nd_interfaces nd)) @ ws) =
        ret (True, Some c, nd\<lparr>nd_inputQueue := cs,
          nd_interfaces := map (\<lambda>i. if m_dstAddress c = if_peer i then i\<lparr>if_queue := left i\<rparr> else i) (nd_interfaces nd)\<rparr>, ws))"
proof (intro conjI impI; (elim conjE)?)
  assume q: "for_queue bo (nd_interfaces nd) (nd_portmap nd) q c" "length (nd_queues nd q) = 20"
  obtain d s where "getPortsDS bo c = Some (d, s)" "getPortQueue d (nd_portmap nd) = Some q" "local_to (nd_interfaces nd) c"
    using q(1) by (auto simp: for_queue_def split: option.splits)
  moreover have "isFull SAN2_CNODESERVICECHANNEL_APPQUEMAXLEN (nd_queues nd q)"
    using q(2) by (simp add: isFull_iff SAN2_CNODESERVICECHANNEL_APPQUEMAXLEN_def)
  ultimately show "node_round bo cap nd ((True, st', q') # ws) =
      ret (True, Some c, nd\<lparr>nd_inputQueue := cs, nd_queues := (nd_queues nd)(q := q')\<rparr>, ws)"
    using assms by (simp add: node_round_local deliver_local_def)
next
  assume n: "\<not> local_to (nd_interfaces nd) c" "m_dstAddress c \<notin> if_peer ` set (nd_interfaces nd)"
  have "forward st c ifs r ws = Some (r, ifs, ws)" if "m_dstAddress c \<notin> if_peer ` set ifs" for st ifs r
    using that by (induction ifs) auto
  then show "node_round bo cap nd ws = ret (True, Some c, nd\<lparr>nd_inputQueue := cs\<rparr>, ws)"
    using assms n by (simp add: node_round_def atDestination_iff)
next
  assume n: "\<not> local_to (nd_interfaces nd) c"
    and full: "list_all (\<lambda>i. m_dstAddress c = if_peer i \<longrightarrow> isFull (if_max i) (if_queue i)) (nd_interfaces nd)"
  show "node_round bo cap nd (map (\<lambda>i. (True, stop i, left i)) (filter (\<lambda>i. m_dstAddress c = if_peer i) (nd_interfaces nd)) @ ws) =
      ret (True, Some c, nd\<lparr>nd_inputQueue := cs,
        nd_interfaces := map (\<lambda>i. if m_dstAddress c = if_peer i then i\<lparr>if_queue := left i\<rparr> else i) (nd_interfaces nd)\<rparr>, ws)"
    using assms n forward_full [of "nd_interfaces nd" c False False stop left ws] full
    by (auto simp: node_round_def atDestination_iff list_all_iff)
qed (use assms in \<open>simp_all add: node_round_local deliver_local_def\<close>)

text \<open>One capsule is for nobody, one for a port of the first interface nobody has, one for a full queue.\<close>

lemma node_drops_witness:
  "node_round SAN_BIG_ENDIAN None (sample_node\<lparr>nd_inputQueue := [sample_to 9]\<rparr>) [] =
     ret (True, Some (sample_to 9), sample_node\<lparr>nd_inputQueue := []\<rparr>, []) \<and>
   node_round SAN_BIG_ENDIAN None (sample_node\<lparr>nd_portmap := CPortmap, nd_inputQueue := [sample_to 1]\<rparr>) [] =
     ret (True, Some (sample_to 1), sample_node\<lparr>nd_portmap := CPortmap, nd_inputQueue := []\<rparr>, []) \<and>
   node_round SAN_BIG_ENDIAN None (sample_node\<lparr>nd_inputQueue := [sample_to 1], nd_queues := (\<lambda>_. replicate 20 (sample_to 3))\<rparr>)
       [(True, False, [])] =
     ret (True, Some (sample_to 1),
       sample_node\<lparr>nd_inputQueue := [], nd_queues := (\<lambda>_. replicate 20 (sample_to 3))(0 := [])\<rparr>, [])"
proof -
  have "\<not> nd_stopped sample_node" by (simp add: sample_node_def CNode_def)
  moreover have "m_dstAddress (sample_to 9) \<notin> if_peer ` set (nd_interfaces sample_node)"
    by (simp add: sample_to_facts sample_node_def CNode_def sample_iface_def)
  moreover have "getPortQueue 80 (CPortmap :: nat portmap) = None" by (simp add: getPortQueue_def CPortmap_def)
  ultimately show ?thesis
    using node_drops [of "sample_node\<lparr>nd_inputQueue := [sample_to 9]\<rparr>" "sample_to 9" "[]" SAN_BIG_ENDIAN None "[]" 0 0 0 False "[]"
        "\<lambda>_. False" "\<lambda>_. []"]
      node_drops [of "sample_node\<lparr>nd_portmap := CPortmap, nd_inputQueue := [sample_to 1]\<rparr>" "sample_to 1" "[]" SAN_BIG_ENDIAN None "[]"
        80 4000 0 False "[]" "\<lambda>_. False" "\<lambda>_. []"]
      node_drops [of "sample_node\<lparr>nd_inputQueue := [sample_to 1], nd_queues := (\<lambda>_. replicate 20 (sample_to 3))\<rparr>" "sample_to 1" "[]"
        SAN_BIG_ENDIAN None "[]" 0 0 0 False "[]" "\<lambda>_. False" "\<lambda>_. []"]
    by (simp add: sample_goes sample_to_facts)
qed

lemma run_call_pop_stopped: "q \<noteq> [] \<Longrightarrow> length q < 2 ^ 32 \<Longrightarrow> run_call mx True PopTimed q ws = Some ((-1, None), q, ws)"
  using isEmpty_iff [of q] by (simp add: run_call_def)

lemma run_call_push_stopped: "\<not> isFull mx q \<Longrightarrow> run_call mx True (TryPush x) q ws = Some ((-1, None), q, ws)"
  by (simp add: run_call_def)

text \<open>A node that is stopped with capsules waiting, and whose last capsule \<open>c\<close> is not for an application.\<close>

definition stuck :: "byte_order \<Rightarrow> capsule \<Rightarrow> 'q node \<Rightarrow> bool" where
  "stuck bo c nd \<longleftrightarrow> nd_stopped nd \<and> nd_inputQueue nd \<noteq> [] \<and> length (nd_inputQueue nd) < 2 ^ 32 \<and>
     (\<forall>q. \<not> for_queue bo (nd_interfaces nd) (nd_portmap nd) q c) \<and> harmless bo c \<and>
     (\<forall>i \<in> set (nd_interfaces nd). \<not> isFull (if_max i) (if_queue i))"

lemma stuck_round: "stuck bo c nd \<Longrightarrow> node_round bo (Some c) nd ws = ret (True, Some c, nd, ws)"
proof -
  assume s: "stuck bo c nd"
  have "\<exists>r'. forward True c ifs r ws = Some (r', ifs, ws)"
    if "\<forall>i \<in> set ifs. \<not> isFull (if_max i) (if_queue i)" for ifs r
    using that by (induction ifs arbitrary: r) (auto simp: iface_sendCapsule_def run_call_push_stopped)
  then obtain r' where "forward True c (nd_interfaces nd) False ws = Some (r', nd_interfaces nd, ws)"
    using s unfolding stuck_def by blast
  moreover have "deliver_local bo c nd ws = ret (True, nd, ws)" if "local_to (nd_interfaces nd) c"
    using s that by (auto simp: stuck_def deliver_local_def harmless_def for_queue_def split: option.splits)
  ultimately show ?thesis
    using s by (simp add: stuck_def node_round_def run_call_pop_stopped atDestination_iff)
qed

lemma node_run_stuck: "node_run bo (Some c) nd ws = Some y \<Longrightarrow> \<not> stuck bo c nd"
proof -
  have "node_run bo cap nd ws = Some y \<Longrightarrow> \<forall>c. cap = Some c \<longrightarrow> \<not> stuck bo c nd" for cap
  proof (induction rule: node_run.raw_induct [rotated, consumes 1])
    case (1 run bo cap nd ws y)
    show ?case
    proof (intro allI impI notI)
      fix c assume cap: "cap = Some c" and s: "stuck bo c nd"
      from 1(2) have "run bo (Some c) nd ws = Some y"
        unfolding cap stuck_round [OF s] by (simp add: ret_def)
      then show False using 1(1) s by blast
    qed
  qed
  then show "node_run bo (Some c) nd ws = Some y \<Longrightarrow> \<not> stuck bo c nd" by blast
qed

text \<open>
  C30. Terminating the node does not stop it. The result of \<^verbatim>\<open>pop\<close> is ignored, so with capsules waiting,
  and room in the queues, a terminated node handles the capsule it had last again, and what happens depends on that
  one. If it is not for an application here (nor a test message without data), every round ends
  with the node as it was, nothing is delivered and no capsule taken, and the loop goes on for ever. If it is for an application, the failing push ends the loop.
  If there was none and there is an interface, the node follows a null pointer.
\<close>

lemma termination_is_ignored:
  assumes "nd_stopped nd" and "nd_inputQueue nd \<noteq> []" and "length (nd_inputQueue nd) < 2 ^ 32"
  shows "((\<forall>q. \<not> for_queue bo (nd_interfaces nd) (nd_portmap nd) q c) \<and> harmless bo c \<and>
      (\<forall>i \<in> set (nd_interfaces nd). \<not> isFull (if_max i) (if_queue i)) \<longrightarrow>
      node_rounds n bo (Some c) nd ws = ret (True, Some c, nd, ws) \<and> node_run bo (Some c) nd ws = None) \<and>
    (for_queue bo (nd_interfaces nd) (nd_portmap nd) q c \<and> length (nd_queues nd q) < 20 \<longrightarrow>
      node_run bo (Some c) nd ws = ret (nd, ws)) \<and>
    (nd_interfaces nd \<noteq> [] \<longrightarrow> node_run bo None nd ws = Some (Inl NullPointer))"
proof (intro conjI impI)
  assume "(\<forall>q. \<not> for_queue bo (nd_interfaces nd) (nd_portmap nd) q c) \<and> harmless bo c \<and>
      (\<forall>i \<in> set (nd_interfaces nd). \<not> isFull (if_max i) (if_queue i))"
  then have s: "stuck bo c nd" using assms by (simp add: stuck_def)
  then show "node_run bo (Some c) nd ws = None" using node_run_stuck by (metis option.exhaust)
  show "node_rounds n bo (Some c) nd ws = ret (True, Some c, nd, ws)"
    by (induction n) (simp_all add: stuck_round [OF s])
next
  assume q: "for_queue bo (nd_interfaces nd) (nd_portmap nd) q c \<and> length (nd_queues nd q) < 20"
  then have "\<not> isFull SAN2_CNODESERVICECHANNEL_APPQUEMAXLEN (nd_queues nd q)"
    by (simp add: isFull_iff SAN2_CNODESERVICECHANNEL_APPQUEMAXLEN_def)
  then have "deliver_local bo c nd ws = ret (False, nd, ws)"
    using q assms(1) by (auto simp: for_queue_def deliver_local_def run_call_push_stopped split: option.splits)
  then have "node_round bo (Some c) nd ws = ret (False, Some c, nd, ws)"
    using q assms by (simp add: node_round_def run_call_pop_stopped atDestination_iff for_queue_def)
  then show "node_run bo (Some c) nd ws = ret (nd, ws)"
    by (subst node_run.simps) (simp add: ret_def)
next
  assume "nd_interfaces nd \<noteq> []"
  then show "node_run bo None nd ws = Some (Inl NullPointer)"
    using assms by (subst node_run.simps) (simp add: node_round_def run_call_pop_stopped)
qed

lemma termination_is_ignored_witness:
  "node_run SAN_BIG_ENDIAN None (sample_node\<lparr>nd_stopped := True\<rparr>) [] = Some (Inl NullPointer)"
  using termination_is_ignored [of "sample_node\<lparr>nd_stopped := True\<rparr>"]
  by (simp add: sample_node_def)

text \<open>
  The three injection calls return the code of the push as a \<^verbatim>\<open>bool\<close>: with room in the
  input queue of a running node the capsule is put at its end, and the answer is false.
\<close>

lemma inject_answers_false:
  assumes "\<not> isFull (nd_inputMax nd) (nd_inputQueue nd)" and "\<not> nd_stopped nd"
  shows "injectCapsule (Some c) nd ws = ret (False, nd\<lparr>nd_inputQueue := nd_inputQueue nd @ [c]\<rparr>, ws) \<and>
    injectCapsule_timed (Some c) nd ws = injectCapsule (Some c) nd ws \<and>
    tryInjectCapsule (Some c) nd ws = injectCapsule (Some c) nd ws \<and>
    injectCapsule None nd ws = Some (Inl AssertionFailed)"
  using assms
  by (simp add: injectCapsule_def injectCapsule_timed_def tryInjectCapsule_def inject_with_def)
    (simp add: run_call_def push_item_def)

end
