(* ===== verification/Terminal.thy ===== *)
theory Terminal
  imports Lines Node
begin

text \<open>
  The terminal of the node, \<^verbatim>\<open>src/node/cipcchannel.cpp\<close>: its command interpreter over any
  console, see \<open>Lines\<close>. The lemmas show that over a pipe it does what the lines say, however
  they arrive, and what its commands do to the capsule it holds and to the node.
\<close>

section \<open>State\<close>

text \<open>
  \<open>tm_io\<close> is the channel, \<open>tm_wakes\<close> what the other threads do while an injection waits,
  \<open>tm_others\<close> what they do to the node while a line is awaited, an entry for each.
\<close>

record ('q, 's) terminal =
  tm_io :: 's
  tm_capsule :: capsule
  tm_node :: "'q node"
  tm_wakes :: "capsule wake list"
  tm_others :: "('q node \<Rightarrow> 'q node) list"

type_synonym ('q, 's, 'x) command = "('q, 's) terminal \<Rightarrow> ('x \<times> ('q, 's) terminal) io"
type_synonym 's sending = "string \<Rightarrow> 's \<Rightarrow> (ErrorCode \<times> 's) io"

definition SAN2_CIPCCHANNEL_MAX_HOPCOUNT :: u32 where "SAN2_CIPCCHANNEL_MAX_HOPCOUNT = 65535"

definition defaultCapsule :: "capsule \<Rightarrow> capsule" where
  "defaultCapsule c =
     (let defaultData = string2bytes ''default data'';
          c = setDestinationAddress sanDefaultAddress c;
          c = setSourceAddress sanDefaultAddress c;
          c = setFromInterfaceAddress sanDefaultAddress c;
          c = setHop 255 c;
          c = setApplicationId sanDefaultApplicationId c;
          c = setDX False c
      in setData defaultData c)"

definition CIpcChannel :: "capsule \<Rightarrow> 's \<Rightarrow> 'q node \<Rightarrow> ('q, 's) terminal" where
  "CIpcChannel heap io nd =
     \<lparr>tm_io = io, tm_capsule = defaultCapsule heap, tm_node = nd, tm_wakes = [], tm_others = []\<rparr>"

section \<open>Steps of a command\<close>

text \<open>The results of \<^verbatim>\<open>send\<close> and \<^verbatim>\<open>sendLine\<close> are never looked at.\<close>

definition and_then :: "('q, 's, 'x) command \<Rightarrow> ('x \<Rightarrow> ('q, 's, 'y) command) \<Rightarrow> ('q, 's, 'y) command" where
  "and_then m f = (\<lambda>t. io_bind (m t) (\<lambda>(x, t). f x t))"

definition done_with :: "'x \<Rightarrow> ('q, 's, 'x) command" where
  "done_with x = (\<lambda>t. ret (x, t))"

definition say :: "'s sending \<Rightarrow> string \<Rightarrow> ('q, 's, unit) command" where
  "say sends str = (\<lambda>t. io_bind (sends str (tm_io t)) (\<lambda>(_, s). ret ((), t\<lparr>tm_io := s\<rparr>)))"

definition sayLine :: "'s sending \<Rightarrow> string \<Rightarrow> ('q, 's, unit) command" where
  "sayLine sends str = (\<lambda>t. io_bind (sendLine sends str (tm_io t)) (\<lambda>(_, s). ret ((), t\<lparr>tm_io := s\<rparr>)))"

definition say_empty :: "'s sending \<Rightarrow> ('q, 's, unit) command" where
  "say_empty sends = (\<lambda>t. io_bind (sendLine_empty sends (tm_io t)) (\<lambda>(_, s). ret ((), t\<lparr>tm_io := s\<rparr>)))"

definition answered :: "'s sending \<Rightarrow> string \<Rightarrow> ('q, 's, ErrorCode) command" where
  "answered sends str = and_then (sayLine sends str) (\<lambda>_. done_with SUCCESS)"

definition the_capsule :: "('q, 's, capsule) command" where
  "the_capsule = (\<lambda>t. ret (tm_capsule t, t))"

definition the_node :: "('q, 's, 'q node) command" where
  "the_node = (\<lambda>t. ret (tm_node t, t))"

definition change_capsule :: "(capsule \<Rightarrow> capsule) \<Rightarrow> ('q, 's, unit) command" where
  "change_capsule f = (\<lambda>t. ret ((), t\<lparr>tm_capsule := f (tm_capsule t)\<rparr>))"

definition inject_now :: "capsule \<Rightarrow> ('q, 's, bool) command" where
  "inject_now c = (\<lambda>t. io_bind (injectCapsule (Some c) (tm_node t) (tm_wakes t)) (\<lambda>(r, nd, ws).
     ret (r, t\<lparr>tm_node := nd, tm_wakes := ws\<rparr>)))"

definition inject_in_time :: "capsule \<Rightarrow> ('q, 's, bool) command" where
  "inject_in_time c = (\<lambda>t. io_bind (injectCapsule_timed (Some c) (tm_node t) (tm_wakes t)) (\<lambda>(r, nd, ws).
     ret (r, t\<lparr>tm_node := nd, tm_wakes := ws\<rparr>)))"

section \<open>\<^verbatim>\<open>lineParser\<close>\<close>

definition setDefaultCapsule :: "('q, 's, unit) command" where
  "setDefaultCapsule = change_capsule defaultCapsule"

definition ipc_statusToString :: "line_status \<Rightarrow> string" where
  "ipc_statusToString status = (case status of CONNECTED \<Rightarrow> ''conn'' | DISCONNECTED \<Rightarrow> ''diss'' | LINE_FAILURE \<Rightarrow> ''fail'')"

definition cmd_send :: "'s sending \<Rightarrow> ('q, 's, ErrorCode) command" where
  "cmd_send sends =
     and_then the_capsule (\<lambda>shCap.
     and_then (inject_now shCap) (\<lambda>_.
     and_then (inject_in_time shCap) (\<lambda>r.
     answered sends (if \<not> r then ''inject OK'' else ''inject FAIL (inputQueue full)''))))"

text \<open>The fields that are shown or set; \<open>args\<close> has at least two elements.\<close>

definition cmd_src :: "'s sending \<Rightarrow> string list \<Rightarrow> ('q, 's, ErrorCode) command" where
  "cmd_src sends args =
     (if length args = 2 then and_then the_capsule (\<lambda>c. answered sends (address2string (m_srcAddress c)))
      else if length args = 3 then
        (case string2address (args ! 2) of
           Some srcAddress \<Rightarrow> and_then (change_capsule (setSourceAddress srcAddress)) (\<lambda>_. answered sends ''source address set OK'')
         | None \<Rightarrow> answered sends ''setting source address failed - Wrong format?'')
      else answered sends ''usage: capsule src  |  capsule src <SanAddress>'')"

definition cmd_dst :: "'s sending \<Rightarrow> string list \<Rightarrow> ('q, 's, ErrorCode) command" where
  "cmd_dst sends args =
     (if length args = 2 then and_then the_capsule (\<lambda>c. answered sends (address2string (m_dstAddress c)))
      else if length args = 3 then
        (case string2address (args ! 2) of
           Some dstAddress \<Rightarrow> and_then (change_capsule (setDestinationAddress dstAddress)) (\<lambda>_. answered sends ''destination address set OK'')
         | None \<Rightarrow> answered sends ''setting destination address failed - Wrong format?'')
      else answered sends ''usage: capsule dst  |  capsule dst <SanAddress>'')"

definition cmd_hop :: "'s sending \<Rightarrow> string list \<Rightarrow> ('q, 's, ErrorCode) command" where
  "cmd_hop sends args =
     (if length args = 2 then and_then the_capsule (\<lambda>c. answered sends (uintToString (ucast (m_hop c))))
      else if length args = 3 then
        (case stringToUint (args ! 2) of (parsed, ihop) \<Rightarrow>
           if \<not> parsed then answered sends ''cannot parse hop count number''
           else if ihop > SAN2_CIPCCHANNEL_MAX_HOPCOUNT
           then answered sends ''failed: hop count must be less or equal than 65535''
           else and_then (change_capsule (setHop (ucast ihop))) (\<lambda>_. answered sends ''hop count set OK''))
      else answered sends ''usage: capsule dst  |  capsule dst <SanAddress>'')"

definition cmd_hash :: "'s sending \<Rightarrow> string list \<Rightarrow> ('q, 's, ErrorCode) command" where
  "cmd_hash sends args =
     (if length args = 2 then and_then the_capsule (\<lambda>c. answered sends (appid2string (m_appId c)))
      else if length args = 3 then
        (case string2appid (args ! 2) of
           Some appId \<Rightarrow> and_then (change_capsule (setApplicationId appId)) (\<lambda>_. answered sends ''hash/applicationId set OK'')
         | None \<Rightarrow> answered sends ''setting hash/applicationId failed - Wrong format?'')
      else answered sends ''usage: capsule hash  |  capsule hash <SHA-1 hash in hex digits>'')"

definition cmd_hexdata :: "'s sending \<Rightarrow> string list \<Rightarrow> ('q, 's, ErrorCode) command" where
  "cmd_hexdata sends args =
     (if length args = 2 then and_then the_capsule (\<lambda>c. answered sends (concat (map byteToString (m_data c))))
      else if length args = 3 then
        (case hexToBytes (args ! 2) of (ok, data) \<Rightarrow>
           if ok then and_then (change_capsule (setData data)) (\<lambda>_. answered sends ''data set OK'')
           else answered sends ''setting data failed - Wrong format?'')
      else answered sends ''usage: capsule hexdata  |  capsule hexdata <data in hex>'')"

text \<open>Both \<^verbatim>\<open>on\<close> and \<^verbatim>\<open>off\<close> set the flag.\<close>

definition cmd_dx :: "'s sending \<Rightarrow> string list \<Rightarrow> ('q, 's, ErrorCode) command" where
  "cmd_dx sends args =
     (if length args = 2 then and_then the_capsule (\<lambda>c. answered sends (if m_flagDX c then ''dx is on'' else ''dx is off''))
      else if length args = 3 then
        (if args ! 2 = ''on'' then and_then (change_capsule (setDX True)) (\<lambda>_. answered sends ''dx enabled OK'')
         else if args ! 2 = ''off'' then and_then (change_capsule (setDX True)) (\<lambda>_. answered sends ''dx disabled OK'')
         else answered sends ''usage: capsule dx on | capsule dx off'')
      else answered sends ''usage: capsule dx on | capsule dx off | capsule dx'')"

text \<open>After \<^verbatim>\<open>default\<close> the other comparisons are made, too, in vain.\<close>

definition cmd_capsule :: "'s sending \<Rightarrow> string list \<Rightarrow> ('q, 's, ErrorCode) command" where
  "cmd_capsule sends args =
     (if length args < 2 then answered sends ''usage: capsule <default|src|dst|hop|hash|hexdata|dx>''
      else
        and_then (if args ! 1 = ''default''
                  then and_then setDefaultCapsule (\<lambda>_. sayLine sends ''capsule default values set OK'')
                  else done_with ()) (\<lambda>_.
        if args ! 1 = ''src'' then cmd_src sends args
        else if args ! 1 = ''dst'' then cmd_dst sends args
        else if args ! 1 = ''hop'' then cmd_hop sends args
        else if args ! 1 = ''hash'' then cmd_hash sends args
        else if args ! 1 = ''hexdata'' then cmd_hexdata sends args
        else if args ! 1 = ''dx'' then cmd_dx sends args
        else done_with SUCCESS))"

primrec say_peers :: "'s sending \<Rightarrow> iface list \<Rightarrow> ('q, 's, unit) command" where
  "say_peers sends [] = done_with ()"
| "say_peers sends (i # ifaces) =
     and_then (say sends ''IFACE status RX:'') (\<lambda>_.
     and_then (say sends (ipc_statusToString (if_rx i))) (\<lambda>_.
     and_then (say sends ''   TX:'') (\<lambda>_.
     and_then (sayLine sends (ipc_statusToString (if_tx i))) (\<lambda>_.
     and_then (say sends ''>> iadr: '') (\<lambda>_.
     and_then (sayLine sends (address2string (if_address i))) (\<lambda>_.
     and_then (say sends ''>> peer: '') (\<lambda>_.
     and_then (sayLine sends (address2string (if_peer i))) (\<lambda>_.
     and_then (say_empty sends) (\<lambda>_. say_peers sends ifaces)))))))))"

definition cmd_peers :: "'s sending \<Rightarrow> ('q, 's, ErrorCode) command" where
  "cmd_peers sends =
     and_then the_node (\<lambda>nd. and_then (say_peers sends (nd_interfaces nd)) (\<lambda>_. done_with SUCCESS))"

text \<open>
  The usage does not end the command: \<^verbatim>\<open>args[1]\<close> is out of range when there is none. \<open>heap\<close> is
  the content of a new capsule.
\<close>

definition message_capsule :: "capsule \<Rightarrow> bytes \<Rightarrow> bytes \<Rightarrow> capsule" where
  "message_capsule heap msgDestinationAddress messageData =
     (let c = setDestinationAddress msgDestinationAddress heap;
          c = setSourceAddress sanDefaultAddress c;
          c = setFromInterfaceAddress sanDefaultAddress c;
          c = setHop 255 c;
          c = setApplicationId sanTestMessageApplicationId c;
          c = setDX True c
      in setData messageData c)"

definition cmd_sendmsg :: "'s sending \<Rightarrow> capsule \<Rightarrow> string list \<Rightarrow> ('q, 's, ErrorCode) command" where
  "cmd_sendmsg sends heap args =
     and_then (if length args < 3
               then and_then (sayLine sends ''usage: sendmsg <DestinationSanAddress> <message text>'') (\<lambda>_.
                 sayLine sends ''note: spaces are trimmed (will be fixed in later releases - parser is not so clever)'')
               else done_with ()) (\<lambda>_.
     let messageData = concat (map string2bytes (drop 2 args))
     in if length args < 2 then (\<lambda>t. Some (Inl OutOfRange))
        else case string2address (args ! 1) of
          None \<Rightarrow> answered sends ''destination address is in wrong format''
        | Some msgDestinationAddress \<Rightarrow>
            let shCap = message_capsule heap msgDestinationAddress messageData
            in and_then (inject_now shCap) (\<lambda>_.
               and_then (inject_in_time shCap) (\<lambda>r.
               answered sends (if \<not> r then ''sendmsg inject OK'' else ''sendmsg FAIL (inputQueue full)''))))"

definition lineParser :: "'s sending \<Rightarrow> capsule \<Rightarrow> string list \<Rightarrow> ('q, 's, ErrorCode) command" where
  "lineParser sends heap args =
     (if args ! 0 = ''send'' then cmd_send sends
      else if args ! 0 = ''capsule'' then cmd_capsule sends args
      else if args ! 0 = ''peers'' then cmd_peers sends
      else if args ! 0 = ''sendmsg'' then cmd_sendmsg sends heap args
      else if args ! 0 = ''help'' then
        and_then (sayLine sends ''capsule - get/set capsule fields'') (\<lambda>_.
        and_then (sayLine sends ''send    - send capsule with fileds previously set in the capsule command'') (\<lambda>_.
        and_then (sayLine sends ''peers   - show interfaces addresses'') (\<lambda>_.
        answered sends ''exit    - close terminal connection'')))
      else answered sends ''unknown command, type help for list of commands'')"

section \<open>\<^verbatim>\<open>receive\<close>\<close>

definition printShell :: "'s sending \<Rightarrow> ('q, 's, unit) command" where
  "printShell sends = and_then the_node (\<lambda>nd. and_then (say sends (nd_name nd)) (\<lambda>_. say sends ''>''))"

definition read_line :: "('s \<Rightarrow> ((ErrorCode \<times> string) \<times> 's) io) \<Rightarrow> ('q, 's, ErrorCode \<times> string) command" where
  "read_line reads = (\<lambda>t. io_bind (reads (tm_io t)) (\<lambda>(r, s).
     ret (r, t\<lparr>tm_node := (case tm_others t of [] \<Rightarrow> tm_node t | f # _ \<Rightarrow> f (tm_node t)),
       tm_others := tl (tm_others t), tm_io := s\<rparr>)))"

text \<open>One round of the loop; \<^verbatim>\<open>break\<close> makes the result \<open>SUCCESS\<close>.\<close>

definition do_line :: "'s sending \<Rightarrow> capsule \<Rightarrow> string \<Rightarrow> ('q, 's, ErrorCode option) command" where
  "do_line sends heap sline =
     (if length sline = 0 then done_with None
      else
        let args = split_string sline CHR 0x20
        in if length args < 1 then done_with None
           else if args ! 0 = ''exit''
           then and_then (sayLine sends ''exit requested'') (\<lambda>_. done_with (Some REQUEST_DISCONNECT))
           else and_then (lineParser sends heap args) (\<lambda>rval.
                  done_with (if rval = SUCCESS then None else Some rval)))"

definition terminal_round ::
  "'s sending \<Rightarrow> ('s \<Rightarrow> ((ErrorCode \<times> string) \<times> 's) io) \<Rightarrow> capsule \<Rightarrow> ('q, 's, ErrorCode option) command" where
  "terminal_round sends reads heap =
     and_then (printShell sends) (\<lambda>_.
     and_then (read_line reads) (\<lambda>(rval, line).
     if rval \<noteq> SUCCESS then done_with (Some (if rval = PEER_DISCONNECT then rval else SUCCESS))
     else do_line sends heap line))"

definition terminal_receive ::
  "'s sending \<Rightarrow> ('s \<Rightarrow> ((ErrorCode \<times> string) \<times> 's) io) \<Rightarrow> capsule \<Rightarrow> ('q, 's, ErrorCode) command" where
  "terminal_receive sends reads heap =
     and_then (sayLine sends ''Welcome to SAN node terminal'') (\<lambda>_.
     io_loop (terminal_round sends reads heap))"


section \<open>A console of lines\<close>

text \<open>The lines that are to come, and the text that was said.\<close>

type_synonym text_console = "string list \<times> string"

definition text_send :: "text_console sending" where
  "text_send str = (\<lambda>(ls, out). ret (SUCCESS, ls, out @ printed str))"

definition text_readLine :: "text_console \<Rightarrow> ((ErrorCode \<times> string) \<times> text_console) io" where
  "text_readLine = (\<lambda>(ls, out). case ls of [] \<Rightarrow> ret ((PEER_DISCONNECT, []), ls, out) | l # ls \<Rightarrow> ret ((SUCCESS, l), ls, out))"

text \<open>A console with the same lines to come and the same text said, and a terminal that is otherwise the same.\<close>

definition shows_text :: "('s \<Rightarrow> bool) \<Rightarrow> ('s \<Rightarrow> bytes) \<Rightarrow> ('s \<Rightarrow> bool) \<Rightarrow> ('s \<Rightarrow> bytes) \<Rightarrow> nat \<Rightarrow> bytes \<Rightarrow> text_console \<Rightarrow> 's \<Rightarrow> bool" where
  "shows_text ok pending closed said sz said0 = (\<lambda>(ls, out) s. ok s \<and> pending s = lines_of ls \<and> closed s \<and>
     said s = said0 @ string2bytes out \<and> list_all (plain_line sz) ls)"

definition same_inside :: "('q, 's) terminal \<Rightarrow> ('q, 't) terminal \<Rightarrow> bool" where
  "same_inside a t \<longleftrightarrow> tm_capsule t = tm_capsule a \<and> tm_node t = tm_node a \<and> tm_wakes t = tm_wakes a \<and>
     tm_others t = tm_others a"

definition goes_on :: "('q, text_console) terminal \<Rightarrow> ('q, text_console) terminal \<Rightarrow> bool" where
  "goes_on a a' \<longleftrightarrow> fst (tm_io a') = fst (tm_io a) \<and> length (snd (tm_io a)) \<le> length (snd (tm_io a'))"

definition said_more :: "('q, text_console) terminal \<Rightarrow> ('q, text_console) terminal \<Rightarrow> nat" where
  "said_more a a' = length (snd (tm_io a')) - length (snd (tm_io a))"

definition tracks :: "(text_console \<Rightarrow> 's \<Rightarrow> bool) \<Rightarrow> ('s \<Rightarrow> nat) \<Rightarrow> ('q, text_console, 'x) command \<Rightarrow> ('q, 's, 'x) command \<Rightarrow> bool" where
  "tracks R room m m' \<longleftrightarrow> (\<forall>a x a'. m a = ret (x, a') \<longrightarrow> goes_on a a' \<and>
     (\<forall>t. R (tm_io a) (tm_io t) \<and> same_inside a t \<and> said_more a a' \<le> room (tm_io t) \<longrightarrow>
       (\<exists>t'. m' t = ret (x, t') \<and> R (tm_io a') (tm_io t') \<and> same_inside a' t' \<and>
         room (tm_io t) - said_more a a' \<le> room (tm_io t'))))"

lemma tracksI:
  assumes "\<And>a x a'. m a = ret (x, a') \<Longrightarrow> goes_on a a'"
    and "\<And>a x a' t. \<lbrakk>m a = ret (x, a'); R (tm_io a) (tm_io t); same_inside a t; said_more a a' \<le> room (tm_io t)\<rbrakk> \<Longrightarrow>
      \<exists>t'. m' t = ret (x, t') \<and> R (tm_io a') (tm_io t') \<and> same_inside a' t' \<and>
        room (tm_io t) - said_more a a' \<le> room (tm_io t')"
  shows "tracks R room m m'"
  using assms unfolding tracks_def by blast

lemma tracksD:
  assumes "tracks R room m m'" and "m a = ret (x, a')"
  shows "goes_on a a'"
    and "\<lbrakk>R (tm_io a) (tm_io t); same_inside a t; said_more a a' \<le> room (tm_io t)\<rbrakk> \<Longrightarrow>
      \<exists>t'. m' t = ret (x, t') \<and> R (tm_io a') (tm_io t') \<and> same_inside a' t' \<and>
        room (tm_io t) - said_more a a' \<le> room (tm_io t')"
  using assms unfolding tracks_def by blast+

named_theorems tracking \<open>commands that do the same on a console of lines and on another\<close>

lemma tracks_and_then [tracking]:
  assumes "tracks R room m m'" and "\<And>x. tracks R room (f x) (f' x)"
  shows "tracks R room (and_then m f) (and_then m' f')"
proof -
  have split: "\<exists>y b. m a = ret (y, b) \<and> f y b = ret (x, a') \<and> goes_on a a' \<and>
      said_more a a' = said_more a b + said_more b a'"
    if run: "and_then m f a = ret (x, a')" for a x a'
  proof -
    obtain y b where b: "m a = ret (y, b)" "f y b = ret (x, a')"
      using run by (auto simp: and_then_def io_bind_eq_ret)
    then show ?thesis
      using tracksD(1) [OF assms(1) b(1)] tracksD(1) [OF assms(2) b(2)] by (auto simp: goes_on_def said_more_def)
  qed
  show ?thesis
  proof (rule tracksI)
    fix a x a'
    assume run: "and_then m f a = ret (x, a')"
    then show "goes_on a a'" using split by blast
    fix t
    assume t: "R (tm_io a) (tm_io t)" "same_inside a t" "said_more a a' \<le> room (tm_io t)"
    obtain y b where b: "m a = ret (y, b)" "f y b = ret (x, a')" "said_more a a' = said_more a b + said_more b a'"
      using split [OF run] by blast
    obtain t1 where t1: "m' t = ret (y, t1)" "R (tm_io b) (tm_io t1)" "same_inside b t1"
      "room (tm_io t) - said_more a b \<le> room (tm_io t1)"
      using tracksD(2) [OF assms(1) b(1) t(1,2)] t(3) b(3) by auto
    moreover have "said_more b a' \<le> room (tm_io t1)" using t1(4) t(3) b(3) by linarith
    then obtain t2 where "f' y t1 = ret (x, t2)" "R (tm_io a') (tm_io t2)" "same_inside a' t2"
      "room (tm_io t1) - said_more b a' \<le> room (tm_io t2)"
      using tracksD(2) [OF assms(2) b(2) t1(2,3)] by blast
    ultimately show "\<exists>t'. and_then m' f' t = ret (x, t') \<and> R (tm_io a') (tm_io t') \<and> same_inside a' t' \<and>
        room (tm_io t) - said_more a a' \<le> room (tm_io t')"
      using b(3) by (auto simp: and_then_def)
  qed
qed

lemma tracks_done_with [tracking]: "tracks R room (done_with x) (done_with x)"
  by (rule tracksI) (auto simp: done_with_def goes_on_def said_more_def)

lemma tracks_fault [tracking]: "tracks R room (\<lambda>a. Some (Inl e)) (\<lambda>t. Some (Inl e))"
  by (rule tracksI) simp_all

lemma tracks_inside [tracking]:
  "tracks R room the_capsule the_capsule" "tracks R room the_node the_node"
  "tracks R room (change_capsule f) (change_capsule f)"
  by (rule tracksI; auto simp: the_capsule_def the_node_def change_capsule_def goes_on_def said_more_def same_inside_def)+

lemma tracks_inject [tracking]:
  "tracks R room (inject_now c) (inject_now c)" "tracks R room (inject_in_time c) (inject_in_time c)"
  by (rule tracksI; auto simp: inject_now_def inject_in_time_def io_bind_eq_ret goes_on_def said_more_def same_inside_def)+

lemma tracks_if [tracking]:
  "(P \<Longrightarrow> tracks R room m m') \<Longrightarrow> (\<not> P \<Longrightarrow> tracks R room n n') \<Longrightarrow>
     tracks R room (if P then m else n) (if P then m' else n')"
  by simp

lemma tracks_option [tracking]:
  "tracks R room n n' \<Longrightarrow> (\<And>y. tracks R room (f y) (f' y)) \<Longrightarrow>
     tracks R room (case z of None \<Rightarrow> n | Some y \<Rightarrow> f y) (case z of None \<Rightarrow> n' | Some y \<Rightarrow> f' y)"
  by (cases z) simp_all

lemma tracks_pair [tracking]:
  "(\<And>x y. tracks R room (f x y) (f' x y)) \<Longrightarrow>
     tracks R room (case z of (x, y) \<Rightarrow> f x y) (case z of (x, y) \<Rightarrow> f' x y)"
  by (cases z) simp

context console
begin

abbreviation shown where "shown \<equiv> shows_text ok pending closed said sz"

lemma tracks_say [tracking]: "tracks (shown s0) room (say text_send str) (say sends str)"
proof (rule tracksI)
  fix a :: "('q, text_console) terminal" and x a' and t :: "('q, 's) terminal"
  assume run: "say text_send str a = ret (x, a')"
  then show "goes_on a a'" by (auto simp: say_def text_send_def goes_on_def split: prod.splits)
  assume "shown s0 (tm_io a) (tm_io t)" "same_inside a t" "said_more a a' \<le> room (tm_io t)"
  then show "\<exists>t'. say sends str t = ret (x, t') \<and> shown s0 (tm_io a') (tm_io t') \<and> same_inside a' t' \<and>
      room (tm_io t) - said_more a a' \<le> room (tm_io t')"
    using run send_goes [of "tm_io t" str]
    by (auto simp: say_def text_send_def shows_text_def same_inside_def said_more_def string2bytes_def split: prod.splits)
qed

end


lemma text_sendLine:
  "sendLine text_send str (ls, out) = ret (SUCCESS, ls, out @ printed str @ [CHR 0x0A])"
  by (simp add: sendLine_def text_send_def printed_def)

lemma say_empty_say: "say_empty sends = say sends [CHR 0x0A]"
  by (simp add: say_empty_def say_def sendLine_empty_def)

lemmas command_defs = cmd_send_def cmd_src_def cmd_dst_def cmd_hop_def cmd_hash_def cmd_hexdata_def cmd_dx_def
  cmd_capsule_def cmd_peers_def cmd_sendmsg_def setDefaultCapsule_def

context console
begin

lemma tracks_sayLine [tracking]: "tracks (shown s0) room (sayLine text_send str) (sayLine sends str)"
proof (rule tracksI)
  fix a :: "('q, text_console) terminal" and x a' and t :: "('q, 's) terminal"
  assume run: "sayLine text_send str a = ret (x, a')"
  then show "goes_on a a'" by (cases "tm_io a") (auto simp: sayLine_def text_sendLine goes_on_def)
  assume "shown s0 (tm_io a) (tm_io t)" "same_inside a t" "said_more a a' \<le> room (tm_io t)"
  then show "\<exists>t'. sayLine sends str t = ret (x, t') \<and> shown s0 (tm_io a') (tm_io t') \<and> same_inside a' t' \<and>
      room (tm_io t) - said_more a a' \<le> room (tm_io t')"
    using run sendLine_goes [of "tm_io t" str]
    by (cases "tm_io a") (auto simp: sayLine_def text_sendLine shows_text_def same_inside_def said_more_def string2bytes_def)
qed

lemma tracks_say_empty [tracking]: "tracks (shown s0) room (say_empty text_send) (say_empty sends)"
  unfolding say_empty_say by (rule tracks_say)

lemma tracks_answered [tracking]: "tracks (shown s0) room (answered text_send str) (answered sends str)"
  unfolding answered_def by (intro tracking)

lemma tracks_say_peers [tracking]: "tracks (shown s0) room (say_peers text_send ifs) (say_peers sends ifs)"
proof (induction ifs)
  case Nil
  show ?case unfolding say_peers.simps by (intro tracking)
next
  case (Cons i ifs)
  show ?case unfolding say_peers.simps by (intro tracking Cons)
qed

lemma tracks_lineParser [tracking]:
  "tracks (shown s0) room (lineParser text_send heap args) (lineParser sends heap args)"
  unfolding lineParser_def command_defs Let_def by (intro tracking)

lemma tracks_do_line [tracking]:
  "tracks (shown s0) room (do_line text_send heap sline) (do_line sends heap sline)"
  unfolding do_line_def Let_def by (intro tracking)

lemma tracks_printShell [tracking]:
  "tracks (shown s0) room (printShell text_send) (printShell sends)"
  unfolding printShell_def by (intro tracking)

end


lemma io_loop_eq_ret:
  "io_loop body s = ret (x, s') \<longleftrightarrow>
     (\<exists>r s1. body s = ret (r, s1) \<and> (case r of Some y \<Rightarrow> y = x \<and> s1 = s' | None \<Rightarrow> io_loop body s1 = ret (x, s')))"
  by (subst io_loop.simps) (auto simp: ret_def split: option.splits sum.splits prod.splits)

lemma and_then_eq_ret: "and_then m f t = ret (x, t') \<longleftrightarrow> (\<exists>y t1. m t = ret (y, t1) \<and> f y t1 = ret (x, t'))"
  by (auto simp: and_then_def io_bind_eq_ret)

text \<open>The others' work while a line is awaited.\<close>

definition others_work :: "('q, 's) terminal \<Rightarrow> ('q, 's) terminal" where
  "others_work t = t\<lparr>tm_node := (case tm_others t of [] \<Rightarrow> tm_node t | f # _ \<Rightarrow> f (tm_node t)), tm_others := tl (tm_others t)\<rparr>"

lemma read_line_eq: "read_line reads t = io_bind (reads (tm_io t)) (\<lambda>(r, s). ret (r, others_work t\<lparr>tm_io := s\<rparr>))"
  by (simp add: read_line_def others_work_def)

lemma same_inside_work:
  "same_inside a t \<Longrightarrow> same_inside (others_work a\<lparr>tm_io := u\<rparr>) (others_work t\<lparr>tm_io := v\<rparr>)"
  by (auto simp: same_inside_def others_work_def split: list.splits)

lemma others_work_io [simp]: "tm_io (others_work t\<lparr>tm_io := s\<rparr>) = s"
  by (simp add: others_work_def)

context console
begin

lemma terminal_round_ends:
  assumes run: "terminal_round text_send text_readLine heap a = ret (r, a')" and "fst (tm_io a) = []"
  shows "r = Some PEER_DISCONNECT" and "length (snd (tm_io a)) \<le> length (snd (tm_io a'))"
    and "\<lbrakk>shown s0 (tm_io a) (tm_io t); same_inside a t; said_more a a' \<le> room (tm_io t)\<rbrakk> \<Longrightarrow>
      \<exists>t'. terminal_round sends reads heap t = ret (r, t') \<and> same_inside a' t' \<and>
        said (tm_io t') = s0 @ string2bytes (snd (tm_io a'))"
proof -
  obtain a1 where a1: "printShell text_send a = ret ((), a1)"
    and r: "and_then (read_line text_readLine) (\<lambda>(rval, line).
      if rval \<noteq> SUCCESS then done_with (Some (if rval = PEER_DISCONNECT then rval else SUCCESS))
      else do_line text_send heap line) a1 = ret (r, a')"
    using run unfolding terminal_round_def and_then_eq_ret by auto
  note g = tracksD(1) [OF tracks_printShell a1]
  obtain out where o: "tm_io a1 = ([], out)" using g assms(2) by (cases "tm_io a1") (simp add: goes_on_def)
  then have e: "r = Some PEER_DISCONNECT" "a' = others_work a1\<lparr>tm_io := ([], out)\<rparr>"
    using r by (auto simp: and_then_def read_line_eq text_readLine_def done_with_def)
  then show "r = Some PEER_DISCONNECT" "length (snd (tm_io a)) \<le> length (snd (tm_io a'))"
    using g o by (simp_all add: goes_on_def)
  assume t: "shown s0 (tm_io a) (tm_io t)" "same_inside a t" "said_more a a' \<le> room (tm_io t)"
  then have "said_more a a1 \<le> room (tm_io t)" using e o by (simp add: said_more_def)
  then obtain t1 where t1: "printShell sends t = ret ((), t1)" "shown s0 (tm_io a1) (tm_io t1)" "same_inside a1 t1"
    using tracksD(2) [OF tracks_printShell a1 t(1,2)] by blast
  then have "ok (tm_io t1)" "pending (tm_io t1) = []" "closed (tm_io t1)" and s: "said (tm_io t1) = s0 @ string2bytes out"
    using o by (simp_all add: shows_text_def lines_of_def)
  then obtain l s' where "reads (tm_io t1) = ret ((PEER_DISCONNECT, l), s')" "said s' = said (tm_io t1)"
    using read_ends by blast
  then show "\<exists>t'. terminal_round sends reads heap t = ret (r, t') \<and> same_inside a' t' \<and>
        said (tm_io t') = s0 @ string2bytes (snd (tm_io a'))"
    using t1(1) s same_inside_work [OF t1(3)]
    by (simp add: terminal_round_def and_then_def read_line_eq done_with_def e)
qed

lemma terminal_round_line:
  assumes run: "terminal_round text_send text_readLine heap a = ret (r, a')" and "fst (tm_io a) = l # ls"
  shows "fst (tm_io a') = ls" and "length (snd (tm_io a)) \<le> length (snd (tm_io a'))"
    and "\<lbrakk>shown s0 (tm_io a) (tm_io t); same_inside a t; said_more a a' \<le> room (tm_io t)\<rbrakk> \<Longrightarrow>
      \<exists>t'. terminal_round sends reads heap t = ret (r, t') \<and> shown s0 (tm_io a') (tm_io t') \<and> same_inside a' t' \<and>
        room (tm_io t) - said_more a a' \<le> room (tm_io t')"
proof -
  obtain a1 where a1: "printShell text_send a = ret ((), a1)"
    and r: "and_then (read_line text_readLine) (\<lambda>(rval, line).
      if rval \<noteq> SUCCESS then done_with (Some (if rval = PEER_DISCONNECT then rval else SUCCESS))
      else do_line text_send heap line) a1 = ret (r, a')"
    using run unfolding terminal_round_def and_then_eq_ret by auto
  note g = tracksD(1) [OF tracks_printShell a1]
  obtain out where o: "tm_io a1 = (l # ls, out)" using g assms(2) by (cases "tm_io a1") (simp add: goes_on_def)
  let ?a2 = "others_work a1\<lparr>tm_io := (ls, out)\<rparr>"
  have d: "do_line text_send heap l ?a2 = ret (r, a')"
    using r o by (simp add: and_then_def read_line_eq text_readLine_def)
  note g2 = tracksD(1) [OF tracks_do_line d]
  show "fst (tm_io a') = ls" "length (snd (tm_io a)) \<le> length (snd (tm_io a'))"
    using g g2 o by (simp_all add: goes_on_def)
  have split: "said_more a a' = said_more a a1 + said_more ?a2 a'"
    using g g2 o by (simp add: goes_on_def said_more_def)
  assume t: "shown s0 (tm_io a) (tm_io t)" "same_inside a t" "said_more a a' \<le> room (tm_io t)"
  then have "said_more a a1 \<le> room (tm_io t)" using split by simp
  then obtain t1 where t1: "printShell sends t = ret ((), t1)" "shown s0 (tm_io a1) (tm_io t1)" "same_inside a1 t1"
    "room (tm_io t) - said_more a a1 \<le> room (tm_io t1)"
    using tracksD(2) [OF tracks_printShell a1 t(1,2)] by blast
  then have s: "ok (tm_io t1)" "pending (tm_io t1) = string2bytes l @ 0x0A # lines_of ls" "closed (tm_io t1)"
    "said (tm_io t1) = s0 @ string2bytes out" "plain_line sz l" "list_all (plain_line sz) ls"
    using o by (simp_all add: shows_text_def lines_of_def)
  obtain s' where s': "reads (tm_io t1) = ret ((SUCCESS, l), s')" "ok s'" "pending s' = lines_of ls"
    "closed s' = closed (tm_io t1)" "said s' = said (tm_io t1)" "room s' = room (tm_io t1)"
    using read_gives [OF s(1,2,5)] by blast
  let ?t2 = "others_work t1\<lparr>tm_io := s'\<rparr>"
  have "shown s0 (tm_io ?a2) (tm_io ?t2)" using s s' by (simp add: shows_text_def)
  moreover have "said_more ?a2 a' \<le> room (tm_io ?t2)" using t(3) split t1(4) s'(6) by simp
  ultimately obtain t' where "do_line sends heap l ?t2 = ret (r, t')" "shown s0 (tm_io a') (tm_io t')" "same_inside a' t'"
    "room (tm_io ?t2) - said_more ?a2 a' \<le> room (tm_io t')"
    using tracksD(2) [OF tracks_do_line d _ same_inside_work [OF t1(3)]] by blast
  then show "\<exists>t'. terminal_round sends reads heap t = ret (r, t') \<and> shown s0 (tm_io a') (tm_io t') \<and> same_inside a' t' \<and>
        room (tm_io t) - said_more a a' \<le> room (tm_io t')"
    using t1(1,4) s'(1,6) split by (simp add: terminal_round_def and_then_def read_line_eq)
qed

lemma terminal_loop_obeys:
  assumes "io_loop (terminal_round text_send text_readLine heap) a = ret (c, a')"
  shows "length (snd (tm_io a)) \<le> length (snd (tm_io a')) \<and>
    (\<forall>t. shown s0 (tm_io a) (tm_io t) \<and> same_inside a t \<and> said_more a a' \<le> room (tm_io t) \<longrightarrow>
      (\<exists>t'. io_loop (terminal_round sends reads heap) t = ret (c, t') \<and> same_inside a' t' \<and>
        said (tm_io t') = s0 @ string2bytes (snd (tm_io a'))))"
  using assms
proof (induction "fst (tm_io a)" arbitrary: a)
  case Nil
  then obtain r a1 where "terminal_round text_send text_readLine heap a = ret (r, a1)"
    and "case r of Some y \<Rightarrow> y = c \<and> a1 = a' | None \<Rightarrow> io_loop (terminal_round text_send text_readLine heap) a1 = ret (c, a')"
    unfolding io_loop_eq_ret [of _ a] by blast
  moreover note terminal_round_ends [OF this(1) Nil.hyps [symmetric]]
  ultimately show ?case by (fastforce intro: io_loop_leaves)
next
  case (Cons l ls)
  obtain r a1 where a1: "terminal_round text_send text_readLine heap a = ret (r, a1)"
    and r: "case r of Some y \<Rightarrow> y = c \<and> a1 = a' | None \<Rightarrow> io_loop (terminal_round text_send text_readLine heap) a1 = ret (c, a')"
    using Cons.prems unfolding io_loop_eq_ret [of _ a] by blast
  note round = terminal_round_line [OF a1 Cons.hyps(2) [symmetric]]
  show ?case
  proof (cases r)
    case (Some y)
    then show ?thesis using r round(2,3)
      by (force intro: io_loop_leaves simp: shows_text_def split: prod.splits)
  next
    case None
    then have IH: "length (snd (tm_io a1)) \<le> length (snd (tm_io a')) \<and>
      (\<forall>t. shown s0 (tm_io a1) (tm_io t) \<and> same_inside a1 t \<and> said_more a1 a' \<le> room (tm_io t) \<longrightarrow>
        (\<exists>t'. io_loop (terminal_round sends reads heap) t = ret (c, t') \<and> same_inside a' t' \<and>
          said (tm_io t') = s0 @ string2bytes (snd (tm_io a'))))"
      using Cons.hyps(1) [of a1] r round(1) by simp
    then have split: "said_more a a' = said_more a a1 + said_more a1 a'" using round(2) by (simp add: said_more_def)
    show ?thesis
    proof (intro conjI allI impI; (elim conjE)?)
      show "length (snd (tm_io a)) \<le> length (snd (tm_io a'))" using IH round(2) by simp
      fix t
      assume t: "shown s0 (tm_io a) (tm_io t)" "same_inside a t" "said_more a a' \<le> room (tm_io t)"
      then have "said_more a a1 \<le> room (tm_io t)" using split by simp
      then obtain t1 where t1: "terminal_round sends reads heap t = ret (None, t1)" "shown s0 (tm_io a1) (tm_io t1)"
        "same_inside a1 t1" "room (tm_io t) - said_more a a1 \<le> room (tm_io t1)"
        using round(3) [OF t(1,2)] None by blast
      then show "\<exists>t'. io_loop (terminal_round sends reads heap) t = ret (c, t') \<and> same_inside a' t' \<and>
          said (tm_io t') = s0 @ string2bytes (snd (tm_io a'))"
        using IH t(3) split io_loop_round [of "terminal_round sends reads heap" t t1, OF t1(1)] by auto
    qed
  qed
qed

end


section \<open>Properties\<close>

text \<open>
  C12. The terminal does what its lines say. Take any plain lines, for which the terminal over a
  console of lines comes to an end with some text. Then over a pipe on which these lines arrive, in
  any pieces, before the peer closes it, and which takes that text, in any pieces, the terminal
  ends with the same code, has said exactly that text, and has done the same to its capsule and to
  the node.
\<close>

lemma terminal_obeys_lines:
  fixes nd :: "'q node"
  assumes "pipe_ok 512 p" and "pipe_pending p = lines_of ls" and "pipe_closed p" and "list_all (plain_line 512) ls"
    and "terminal_receive text_send text_readLine heap
      \<lparr>tm_io = (ls, []), tm_capsule = c, tm_node = nd, tm_wakes = ws, tm_others = fs\<rparr> = ret (code, a)"
    and "length (snd (tm_io a)) \<le> pipe_room p"
  shows "\<exists>t. terminal_receive pipe_say (pipe_readLine junk lineLen0 512) heap
      \<lparr>tm_io = p, tm_capsule = c, tm_node = nd, tm_wakes = ws, tm_others = fs\<rparr> = ret (code, t) \<and>
    pipe_said (tm_io t) = pipe_said p @ string2bytes (snd (tm_io a)) \<and>
    tm_capsule t = tm_capsule a \<and> tm_node t = tm_node a \<and> tm_wakes t = tm_wakes a \<and> tm_others t = tm_others a"
proof -
  let ?a0 = "\<lparr>tm_io = (ls, []), tm_capsule = c, tm_node = nd, tm_wakes = ws, tm_others = fs\<rparr>"
  let ?t0 = "\<lparr>tm_io = p, tm_capsule = c, tm_node = nd, tm_wakes = ws, tm_others = fs\<rparr>"
  let ?shown = "shows_text (pipe_ok 512) pipe_pending pipe_closed pipe_said 512 (pipe_said p)"
  have t0: "?shown (tm_io ?a0) (tm_io ?t0)" "same_inside ?a0 ?t0"
    using assms(1-4) by (simp_all add: shows_text_def same_inside_def string2bytes_def)
  obtain a1 where a1: "sayLine text_send ''Welcome to SAN node terminal'' ?a0 = ret ((), a1)"
    and loop: "io_loop (terminal_round text_send text_readLine heap) a1 = ret (code, a)"
    using assms(5) unfolding terminal_receive_def and_then_eq_ret by auto
  have l: "length (snd (tm_io a1)) \<le> length (snd (tm_io a))" using pipe_io.terminal_loop_obeys [OF loop] by blast
  have w: "tracks ?shown pipe_room (sayLine text_send ''Welcome to SAN node terminal'') (sayLine pipe_say ''Welcome to SAN node terminal'')"
    using pipe_io.tracks_sayLine [of 512] by simp
  have "said_more ?a0 a1 \<le> pipe_room (tm_io ?t0)" using l assms(6) by (simp add: said_more_def)
  then obtain t1 where t1: "sayLine pipe_say ''Welcome to SAN node terminal'' ?t0 = ret ((), t1)"
    "?shown (tm_io a1) (tm_io t1)" "same_inside a1 t1" "pipe_room p - said_more ?a0 a1 \<le> pipe_room (tm_io t1)"
    using tracksD(2) [OF w a1 t0] by auto
  have "said_more a1 a \<le> pipe_room (tm_io t1)" using t1(4) l assms(6) by (simp add: said_more_def)
  then obtain t where "io_loop (terminal_round pipe_say (pipe_readLine junk lineLen0 512) heap) t1 = ret (code, t)"
    "same_inside a t" "pipe_said (tm_io t) = pipe_said p @ string2bytes (snd (tm_io a))"
    using pipe_io.terminal_loop_obeys [OF loop, of 512 "pipe_said p" junk lineLen0] t1(2,3) by auto
  then show ?thesis
    using t1(1) by (intro exI [of _ t]) (simp add: terminal_receive_def and_then_def same_inside_def)
qed


text \<open>A session of two lines, the first of which does not do what it says.\<close>

definition sample_lines :: "string list" where
  "sample_lines = [''capsule dx off'', ''exit'']"

definition sample_text :: string where
  "sample_text = ''Welcome to SAN node terminal'' @ CHR 0x0A # ''n1>dx disabled OK'' @ CHR 0x0A # ''n1>exit requested'' @ [CHR 0x0A]"

definition sample_pipe :: pipe_console where
  "sample_pipe = (replicate 512 0, [], \<lparr>mReadBuffer = replicate 1024 0, mReadBufferLen = 0,
     sock = \<lparr>is_open = True,
       rx = [Ready False (Arrived (string2bytes ''capsule'')), Interrupted False,
         Ready False (Arrived (string2bytes ('' dx off'' @ CHR 0x0A # ''exit'' @ [CHR 0x0A]))), Ready False PeerClosed],
       tx = replicate 80 (Ready False (Taken 5)), wire = []\<rparr>\<rparr>)"

lemma sample_split:
  "split_string ''capsule dx off'' CHR 0x20 = [''capsule'', ''dx'', ''off'']" "split_string ''exit'' CHR 0x20 = [''exit'']"
  by (simp_all add: split_string_def)

lemma sample_session:
  "terminal_receive text_send text_readLine heap
      \<lparr>tm_io = (sample_lines, []), tm_capsule = c, tm_node = sample_node, tm_wakes = [], tm_others = []\<rparr> =
    ret (REQUEST_DISCONNECT,
      \<lparr>tm_io = ([], sample_text), tm_capsule = c\<lparr>m_flagDX := True\<rparr>, tm_node = sample_node, tm_wakes = [], tm_others = []\<rparr>)"
proof -
  have name: "nd_name sample_node = ''n1''" by (simp add: sample_node_def CNode_def)
  note steps = and_then_def done_with_def say_def sayLine_def answered_def the_capsule_def the_node_def change_capsule_def
    text_send_def sendLine_def printed_def text_readLine_def read_line_def printShell_def terminal_round_def do_line_def
    lineParser_def cmd_capsule_def cmd_dx_def setDX_def sample_split name
  have w: "sayLine text_send ''Welcome to SAN node terminal'' t = ret ((), t\<lparr>tm_io := (ls, out @ ''Welcome to SAN node terminal'' @ [CHR 0x0A])\<rparr>)"
    if "tm_io t = (ls, out)" for t :: "(nat, text_console) terminal" and ls out
    using that by (simp add: steps)
  have r1: "terminal_round text_send text_readLine heap t = ret (None, t\<lparr>tm_io := (ls, out @ ''n1>dx disabled OK'' @ [CHR 0x0A]),
      tm_capsule := (tm_capsule t)\<lparr>m_flagDX := True\<rparr>\<rparr>)"
    if "tm_io t = (''capsule dx off'' # ls, out)" "tm_node t = sample_node" "tm_others t = []" for t :: "(nat, text_console) terminal" and ls out
    using that by (cases t) (simp add: steps)
  have r2: "terminal_round text_send text_readLine heap t = ret (Some REQUEST_DISCONNECT, t\<lparr>tm_io := (ls, out @ ''n1>exit requested'' @ [CHR 0x0A])\<rparr>)"
    if "tm_io t = (''exit'' # ls, out)" "tm_node t = sample_node" "tm_others t = []" for t :: "(nat, text_console) terminal" and ls out
    using that by (cases t) (simp add: steps)
  show ?thesis
    by (simp add: terminal_receive_def and_then_def w sample_lines_def io_loop_round [OF r1] io_loop_leaves [OF r2] sample_text_def)
qed

lemma terminal_obeys_lines_witness:
  "\<exists>t. terminal_receive pipe_say (pipe_readLine 0 0 512) sample_capsule
      \<lparr>tm_io = sample_pipe, tm_capsule = sample_capsule, tm_node = sample_node, tm_wakes = [], tm_others = []\<rparr> = ret (REQUEST_DISCONNECT, t) \<and>
    pipe_said (tm_io t) = string2bytes sample_text \<and> m_flagDX (tm_capsule t)"
proof -
  have "pipe_ok 512 sample_pipe" "pipe_closed sample_pipe" "pipe_said sample_pipe = []"
    by (simp_all add: sample_pipe_def pipe_console_defs cppl_ok_def cppl_sends_def tcp_sends_def cppl_closed_def peer_closes_def
        list_all_iff string2bytes_def) (rule exI [of _ False], simp)
  moreover have "pipe_pending sample_pipe = lines_of sample_lines"
    by (simp add: sample_pipe_def pipe_console_defs cppl_pending_def lines_of_def sample_lines_def string2bytes_def byte_of_char_def)
  moreover have "list_all (plain_line 512) sample_lines"
    by (simp add: sample_lines_def plain_line_def string2bytes_def byte_of_char_def illegal_character_def)
  moreover have "length sample_text \<le> pipe_room sample_pipe"
    by (simp add: sample_text_def sample_pipe_def pipe_console_defs tx_room_def)
  ultimately show ?thesis
    using terminal_obeys_lines [OF _ _ _ _ sample_session, of sample_pipe sample_capsule 0 0]
    by fastforce
qed


section \<open>What the commands do\<close>

text \<open>
  A change of the capsule that keeps its shape and, with \<open>b\<close>, a set flag DX; and what a command
  does to the capsule and the node, whatever becomes of its output: the node gets the capsules \<open>cs\<close>.
\<close>

definition fair_change :: "bool \<Rightarrow> capsule \<Rightarrow> capsule \<Rightarrow> bool" where
  "fair_change b c c' \<longleftrightarrow> (wf_capsule c \<longrightarrow> wf_capsule c') \<and> m_flagDS c' = m_flagDS c \<and> (b \<longrightarrow> m_flagDX c \<longrightarrow> m_flagDX c')"

definition in_effect :: "bool \<Rightarrow> capsule list \<Rightarrow> ('q, 's) terminal \<Rightarrow> ('q, 's) terminal \<Rightarrow> bool" where
  "in_effect b cs t t' \<longleftrightarrow> fair_change b (tm_capsule t) (tm_capsule t') \<and> tm_wakes t' = tm_wakes t \<and> tm_others t' = tm_others t \<and>
     tm_node t' = (tm_node t)\<lparr>nd_inputQueue := nd_inputQueue (tm_node t) @ cs\<rparr>"

definition does :: "bool \<Rightarrow> ('q, 's, 'x) command \<Rightarrow> bool" where
  "does b m \<longleftrightarrow> (\<forall>t x t'. m t = ret (x, t') \<longrightarrow> in_effect b [] t t')"

lemma doesI: "(\<And>t x t'. m t = ret (x, t') \<Longrightarrow> in_effect b [] t t') \<Longrightarrow> does b m"
  by (simp add: does_def)

lemma in_effect_trans: "in_effect b cs t t1 \<Longrightarrow> in_effect b cs' t1 t2 \<Longrightarrow> in_effect b (cs @ cs') t t2"
  by (auto simp: in_effect_def fair_change_def)

named_theorems doing \<open>commands that only change the capsule\<close>

lemma does_and_then [doing]:
  assumes "does b m" and "\<And>x. does b (f x)"
  shows "does b (and_then m f)"
proof (rule doesI)
  fix t x t'
  assume "and_then m f t = ret (x, t')"
  then obtain y t1 where "m t = ret (y, t1)" "f y t1 = ret (x, t')" unfolding and_then_eq_ret by blast
  then show "in_effect b [] t t'" using assms in_effect_trans [of b "[]" t t1 "[]" t'] unfolding does_def by fastforce
qed

lemma does_basic [doing]:
  "does b (done_with x)" "does b the_capsule" "does b the_node" "does b (say sends str)" "does b (sayLine sends str)"
  "does b (say_empty sends)" "does b (\<lambda>t. Some (Inl e))"
  by (rule doesI; auto simp: done_with_def the_capsule_def the_node_def say_def sayLine_def say_empty_def io_bind_eq_ret
      in_effect_def fair_change_def)+

lemma does_answered [doing]: "does b (answered sends str)"
  unfolding answered_def by (intro doing)

lemma does_change_capsule: "(\<And>c. fair_change b c (f c)) \<Longrightarrow> does b (change_capsule f)"
  by (rule doesI) (auto simp: change_capsule_def in_effect_def)

lemma does_if [doing]: "(P \<Longrightarrow> does b m) \<Longrightarrow> (\<not> P \<Longrightarrow> does b n) \<Longrightarrow> does b (if P then m else n)"
  by simp

lemma does_option [doing]: "does b n \<Longrightarrow> (\<And>y. z = Some y \<Longrightarrow> does b (f y)) \<Longrightarrow> does b (case z of None \<Rightarrow> n | Some y \<Rightarrow> f y)"
  by (cases z) simp_all

lemma does_pair [doing]: "(\<And>x y. does b (f x y)) \<Longrightarrow> does b (case z of (x, y) \<Rightarrow> f x y)"
  by (cases z) simp

lemma does_setters [doing]:
  "length a = 32 \<Longrightarrow> does b (change_capsule (setSourceAddress a))"
  "length a = 32 \<Longrightarrow> does b (change_capsule (setDestinationAddress a))"
  "length h = 20 \<Longrightarrow> does b (change_capsule (setApplicationId h))"
  "does b (change_capsule (setHop n))" "does b (change_capsule (setData d))" "does b (change_capsule (setDX True))"
  "does False setDefaultCapsule"
  unfolding setDefaultCapsule_def
  by (rule does_change_capsule; simp add: fair_change_def wf_capsule_def size_defs step_simps defaultCapsule_def Let_def
      sanDefaultAddress_def sanDefaultApplicationId_def)+

lemma does_say_peers [doing]: "does b (say_peers sends ifs)"
proof (induction ifs)
  case Nil
  show ?case unfolding say_peers.simps by (intro doing)
next
  case (Cons i ifs)
  show ?case unfolding say_peers.simps by (intro doing Cons)
qed



definition gives_success :: "('q, 's, ErrorCode) command \<Rightarrow> bool" where
  "gives_success m \<longleftrightarrow> (\<forall>t x t'. m t = ret (x, t') \<longrightarrow> x = SUCCESS)"

lemma gives_success_steps [doing]:
  "(\<And>x. gives_success (f x)) \<Longrightarrow> gives_success (and_then m f)"
  "gives_success (done_with SUCCESS)" "gives_success (\<lambda>t. Some (Inl e))"
  "(P \<Longrightarrow> gives_success m1) \<Longrightarrow> (\<not> P \<Longrightarrow> gives_success m2) \<Longrightarrow> gives_success (if P then m1 else m2)"
  "gives_success m1 \<Longrightarrow> (\<And>y. gives_success (g y)) \<Longrightarrow> gives_success (case z of None \<Rightarrow> m1 | Some y \<Rightarrow> g y)"
  "(\<And>x y. gives_success (h x y)) \<Longrightarrow> gives_success (case w of (x, y) \<Rightarrow> h x y)"
  unfolding gives_success_def and_then_eq_ret by (auto simp: done_with_def split: option.splits prod.splits)

lemma gives_success_answered [doing]: "gives_success (answered sends str)"
  unfolding answered_def by (intro doing)


definition room_for_two :: "'q node \<Rightarrow> bool" where
  "room_for_two nd \<longleftrightarrow> \<not> nd_stopped nd \<and> length (nd_inputQueue nd) + 2 \<le> unat (nd_inputMax nd) \<and> unat (nd_inputMax nd) < 2 ^ 32"

text \<open>\<open>injected\<close> is the end of both commands that send.\<close>

definition injected :: "'s sending \<Rightarrow> (bool \<Rightarrow> string) \<Rightarrow> capsule \<Rightarrow> ('q, 's, ErrorCode) command" where
  "injected sends str c = and_then (inject_now c) (\<lambda>_. and_then (inject_in_time c) (\<lambda>r. answered sends (str r)))"

lemma injected_twice:
  assumes "injected sends str c t = ret (x, t')" and "room_for_two (tm_node t)"
  shows "in_effect b [c, c] t t'"
proof -
  let ?put = "\<lambda>cs. t\<lparr>tm_node := (tm_node t)\<lparr>nd_inputQueue := nd_inputQueue (tm_node t) @ cs\<rparr>\<rparr>"
  have room: "\<not> isFull (nd_inputMax (tm_node t)) (nd_inputQueue (tm_node t))"
    "\<not> isFull (nd_inputMax (tm_node t)) (nd_inputQueue (tm_node t) @ [c])" "\<not> nd_stopped (tm_node t)"
    using assms(2) by (simp_all add: room_for_two_def isFull_iff)
  have "inject_now c t = ret (False, ?put [c])"
    using inject_answers_false [of "tm_node t" c "tm_wakes t"] room by (simp add: inject_now_def)
  moreover have "inject_in_time c (?put [c]) = ret (False, ?put [c, c])"
    using inject_answers_false [of "(tm_node t)\<lparr>nd_inputQueue := nd_inputQueue (tm_node t) @ [c]\<rparr>" c "tm_wakes t"] room
    by (simp add: inject_in_time_def)
  ultimately have "answered sends (str False) (?put [c, c]) = ret (x, t')"
    using assms(1) by (simp add: injected_def and_then_def)
  then have "in_effect b [] (?put [c, c]) t'" using does_answered unfolding does_def by blast
  then show ?thesis by (simp add: in_effect_def)
qed














lemma do_line_eq:
  "do_line sends heap sline =
     (let args = split_string sline CHR 0x20
      in if args = [] then done_with None
         else if args ! 0 = ''exit'' then and_then (sayLine sends ''exit requested'') (\<lambda>_. done_with (Some REQUEST_DISCONNECT))
         else and_then (lineParser sends heap args) (\<lambda>rval. done_with (if rval = SUCCESS then None else Some rval)))"
  by (cases "split_string sline CHR 0x20") (auto simp: do_line_def split_string_def)



lemma split_two_words:
  "w \<noteq> [] \<Longrightarrow> v \<noteq> [] \<Longrightarrow> CHR 0x20 \<notin> set w \<Longrightarrow> CHR 0x20 \<notin> set v \<Longrightarrow>
     split_string (w @ CHR 0x20 # v) CHR 0x20 = [w, v]"
proof -
  assume w: "w \<noteq> []" "v \<noteq> []" "CHR 0x20 \<notin> set w" "CHR 0x20 \<notin> set v"
  have "CHR 0x20 \<notin> set v \<Longrightarrow> StrUtils.fields CHR 0x20 cur v = [cur @ v]" for cur
    by (induction v arbitrary: cur) auto
  then show ?thesis using w by (simp add: split_string_def fields_cut)
qed

text \<open>
  C14. A message without text stops the node. Let a terminal of a running, idle node be told to send a
  message to an address of the node, and no text be given. Then, if the command
  returns, the next round of the node's loop reads before the beginning of the empty message.
\<close>

lemma empty_message_stops_node:
  assumes "do_line sends heap (''sendmsg '' @ address2string a) t = ret (r, t')" and "room_for_two (tm_node t)"
    and "nd_inputQueue (tm_node t) = []" and "length a = 32" and "a \<in> if_address ` set (nd_interfaces (tm_node t))"
  shows "node_round bo cap (tm_node t') ws = Some (Inl OutOfRange)"
proof -
  let ?c = "message_capsule heap a []"
  have "isxdigit ch" if "ch \<in> set (address2string a)" for ch
    using that hex_pairs_print [of a] hex_pairs_None_iff [of "address2string a"]
    by (auto simp: address2string_def list_all_iff)
  moreover have "\<not> isxdigit (CHR 0x20)" by (simp add: isxdigit_def)
  ultimately have "CHR 0x20 \<notin> set (address2string a)" by blast
  moreover have "address2string a \<noteq> []" using assms(4) length_address2string [of a] by auto
  ultimately have args: "split_string (''sendmsg '' @ address2string a) CHR 0x20 = [''sendmsg'', address2string a]"
    using split_two_words [of "''sendmsg''" "address2string a"] by simp
  obtain x where run: "cmd_sendmsg sends heap [''sendmsg'', address2string a] t = ret (x, t')"
    using assms(1) unfolding do_line_eq args Let_def by (auto simp: and_then_eq_ret lineParser_def done_with_def)
  obtain t1 where t1: "in_effect True [] t t1" and i: "injected sends
      (\<lambda>r. if \<not> r then ''sendmsg inject OK'' else ''sendmsg FAIL (inputQueue full)'') ?c t1 = ret (x, t')"
  proof -
    have "length [''sendmsg'', address2string a] < 3" by simp
    have "does True (and_then (sayLine sends ''usage: sendmsg <DestinationSanAddress> <message text>'') (\<lambda>_.
        sayLine sends ''note: spaces are trimmed (will be fixed in later releases - parser is not so clever)''))" (is "does True ?u")
      by (intro doing)
    moreover obtain t1 where "?u t = ret ((), t1)" and i: "injected sends
      (\<lambda>r. if \<not> r then ''sendmsg inject OK'' else ''sendmsg FAIL (inputQueue full)'') ?c t1 = ret (x, t')"
      using run unfolding cmd_sendmsg_def and_then_eq_ret [of "if _ then _ else _"] injected_def
      by (auto simp: string2address_print [OF assms(4)] Let_def)
    ultimately show ?thesis using that unfolding does_def by blast
  qed
  have "room_for_two (tm_node t1)" using t1 assms(2) by (simp add: in_effect_def)
  then have e: "in_effect True [?c, ?c] t t'" using in_effect_trans [OF t1 injected_twice [OF i]] by simp
  have c: "getPortsDS bo ?c = None" "m_appId ?c = sanTestMessageApplicationId" "m_data ?c = []" "m_dstAddress ?c = a"
    by (simp_all add: message_capsule_def Let_def step_simps getPortsDS_def)
  have n: "tm_node t' = (tm_node t)\<lparr>nd_inputQueue := [?c, ?c]\<rparr>" using e assms(3) by (simp add: in_effect_def)
  have "atDestination (nd_interfaces (tm_node t)) ?c" using assms(5) c(4) by (simp add: atDestination_iff local_to_def)
  then show ?thesis
    using assms(2) c by (simp add: n node_round_def deliver_local_def room_for_two_def)
qed


lemma empty_message_stops_node_witness:
  "\<exists>r t'. do_line text_send sample_capsule (''sendmsg '' @ address2string (replicate 32 1))
     \<lparr>tm_io = ([], []), tm_capsule = sample_capsule, tm_node = sample_node\<lparr>nd_inputQueue := []\<rparr>, tm_wakes = [], tm_others = []\<rparr> =
       ret (r, t') \<and>
    node_round SAN_BIG_ENDIAN None (tm_node t') [] = Some (Inl OutOfRange)"
proof -
  let ?nd = "sample_node\<lparr>nd_inputQueue := []\<rparr>"
  let ?t = "\<lparr>tm_io = ([], []), tm_capsule = sample_capsule, tm_node = ?nd, tm_wakes = [], tm_others = []\<rparr> :: (nat, text_console) terminal"
  let ?a = "replicate 32 1 :: bytes" and ?c = "message_capsule sample_capsule (replicate 32 1) []"
  have args: "split_string (''sendmsg '' @ address2string ?a) CHR 0x20 = [''sendmsg'', address2string ?a]"
  proof -
    have "byteToString 1 = ''01''" by (simp add: byteToString_def hexTable_def)
    then show ?thesis by (simp add: split_string_def address2string_def numeral_eq_Suc)
  qed
  have "\<not> isFull 50 ([] :: capsule list)" "\<not> isFull 50 [?c]" by (simp_all add: isFull_iff)
  then have inject: "injectCapsule (Some ?c) ?nd [] = ret (False, sample_node\<lparr>nd_inputQueue := [?c]\<rparr>, [])"
    "injectCapsule_timed (Some ?c) (sample_node\<lparr>nd_inputQueue := [?c]\<rparr>) [] = ret (False, sample_node\<lparr>nd_inputQueue := [?c, ?c]\<rparr>, [])"
    using inject_answers_false [of ?nd ?c "[]"] inject_answers_false [of "sample_node\<lparr>nd_inputQueue := [?c]\<rparr>" ?c "[]"]
    by (simp_all add: sample_node_def CNode_def)
  have "\<exists>r t'. do_line text_send sample_capsule (''sendmsg '' @ address2string ?a) ?t = ret (r, t')"
    unfolding do_line_eq args Let_def
    by (simp add: Let_def lineParser_def cmd_sendmsg_def and_then_def sayLine_def text_sendLine inject_now_def inject_in_time_def inject
        answered_def done_with_def string2address_print)
  then obtain r t' where run: "do_line text_send sample_capsule (''sendmsg '' @ address2string ?a) ?t = ret (r, t')" by blast
  have "room_for_two ?nd" by (simp add: room_for_two_def sample_node_def CNode_def)
  moreover have "?a \<in> if_address ` set (nd_interfaces ?nd)" by (simp add: sample_node_def sample_iface_def)
  ultimately show ?thesis using empty_message_stops_node [OF run, of SAN_BIG_ENDIAN None "[]"] run by auto
qed

end
