(* ===== verification/Datagram.thy ===== *)
theory Datagram
  imports DataPack
begin

text \<open>
  The protection of the shell's datagrams: \<^verbatim>\<open>src/crypto/mac/hmac.cpp\<close>, the key derivation,
  AES in counter mode and the datagram en- and decryptor of \<^verbatim>\<open>src/crypto/drel\<close>, and the counter
  mode loop of \<^verbatim>\<open>src/crypto/aes/aes_modes.c\<close>. The hash function and the block cipher are
  arguments; \<open>cipher\<close> and \<open>cipher_pair\<close> state what is asked of the cipher, and \<open>Aes\<close> proves it for
  the one of the repository. The lemmas show that a datagram survives the way through both ends,
  which datagrams are accepted, what the counter makes of the key stream, and what the key
  derivation computes.
\<close>

section \<open>The hash and the block cipher\<close>

text \<open>
  \<^verbatim>\<open>HashInterface\<close>; its implementations pass their calls to OpenSSL. A hash fills its output,
  and HMAC takes one whose output is at most a block.
\<close>

record hash =
  h_hash :: "bytes \<Rightarrow> bytes"
  h_outputLen :: u32
  h_blockSize :: u32

definition hash_ok :: "hash \<Rightarrow> bool" where
  "hash_ok h \<longleftrightarrow> (\<forall>b. length (h_hash h b) = unat (h_outputLen h))"

type_synonym block_cipher = "bytes \<Rightarrow> bytes \<Rightarrow> bytes"

definition cipher_ok :: "block_cipher \<Rightarrow> bool" where
  "cipher_ok E \<longleftrightarrow> (\<forall>k b. length b = 16 \<longrightarrow> length (E k b) = 16)"

section \<open>\<^verbatim>\<open>Hmac\<close>\<close>

record hmac =
  hm_hash :: hash
  hm_key :: bytes
  ikeypad :: bytes
  okeypad :: bytes

definition Hmac :: "hash \<Rightarrow> bytes \<Rightarrow> hmac run" where
  "Hmac h key =
     (let padSize = h_blockSize h
      in if length key = 0 then Inl (Thrown ''Mac - empty key provided.'')
         else if length key > unat padSize then Inl (Thrown ''Mac - too long key provided. Hash it first.'')
         else
           let mKey = resize (unat padSize) 0 key
           in Inr \<lparr>hm_hash = h, hm_key = mKey, ikeypad = map (\<lambda>i. mKey ! i XOR 0x36) [0..<unat padSize],
                okeypad = map (\<lambda>i. mKey ! i XOR 0x5c) [0..<unat padSize]\<rparr>)"

definition hmac_hmac :: "hmac \<Rightarrow> bytes \<Rightarrow> bytes" where
  "hmac_hmac m data =
     (let res = h_hash (hm_hash m) (ikeypad m @ data)
      in h_hash (hm_hash m) (okeypad m @ res))"

section \<open>Key derivation\<close>

definition HASHKEYDERIVATOR_MIN_SESSIONKEY_SIZE :: nat where "HASHKEYDERIVATOR_MIN_SESSIONKEY_SIZE = 16"
definition HASHKEYDERIVATOR_MIN_DERIVSTR_SIZE :: nat where "HASHKEYDERIVATOR_MIN_DERIVSTR_SIZE = 8"
definition HASHKEYDERIVATOR_MIN_HASHOUT_SIZE :: u32 where "HASHKEYDERIVATOR_MIN_HASHOUT_SIZE = 8"

text \<open>A hash without output would keep the loop going, so it is a partial function.\<close>

partial_function (option) derive_loop :: "hash \<Rightarrow> nat \<Rightarrow> bytes \<Rightarrow> bytes \<Rightarrow> bytes \<Rightarrow> bytes option" where
  "derive_loop h len sessionSrpKey hashedDerivationString result =
     (if length result < len then
        derive_loop h len sessionSrpKey (h_hash h hashedDerivationString)
          (result @ h_hash h (sessionSrpKey @ hashedDerivationString))
      else Some result)"

definition deriveBytes :: "hash \<Rightarrow> u32 \<Rightarrow> string \<Rightarrow> bytes \<Rightarrow> bytes run option" where
  "deriveBytes h len derivationString sessionSrpKey =
     (if len = 0 then Some (Inl (Thrown ''HashKeyDerivator::deriveBytes: length == 0''))
      else if length derivationString < HASHKEYDERIVATOR_MIN_DERIVSTR_SIZE
      then Some (Inl (Thrown ''HashKeyDerivator::deriveBytes: derivationString.size() < HASHKEYDERIVATOR_MIN_DERIVSTR_SIZE''))
      else if h_outputLen h < HASHKEYDERIVATOR_MIN_HASHOUT_SIZE
      then Some (Inl (Thrown ''HashKeyDerivator::deriveBytes: hash.outputLen() < HASHKEYDERIVATOR_MIN_HASHOUT_SIZE''))
      else map_option (\<lambda>result. Inr (resize (unat len) 0 result))
             (derive_loop h (unat len) sessionSrpKey (h_hash h (string2bytes derivationString)) []))"

record session_keys =
  mClientEncryptionKey :: bytes
  mClientIV :: bytes
  mClientMacKey :: bytes
  mServerEncryptionKey :: bytes
  mServerIV :: bytes
  mServerMacKey :: bytes

text \<open>
  One after the other; the first that throws ends the constructor. The tests of the two lengths
  are equalities in the code.
\<close>

fun derive_all :: "(bytes run option) list \<Rightarrow> bytes list run option" where
  "derive_all [] = Some (Inr [])"
| "derive_all (None # ds) = None"
| "derive_all (Some (Inl e) # ds) = Some (Inl e)"
| "derive_all (Some (Inr b) # ds) =
     (case derive_all ds of None \<Rightarrow> None | Some (Inl e) \<Rightarrow> Some (Inl e) | Some (Inr bs) \<Rightarrow> Some (Inr (b # bs)))"

definition HashKeyDerivator :: "hash \<Rightarrow> bytes \<Rightarrow> u32 \<Rightarrow> u32 \<Rightarrow> u32 \<Rightarrow> session_keys run option" where
  "HashKeyDerivator h sessionSrpKey blockCipherKeyBytes blockCipherIVBytes macKeyBytes =
     (if blockCipherKeyBytes = 16
      then Some (Inl (Thrown ''SimpleKeyDerivator::SimpleKeyDerivator: blockCipherKeyBytes not long enough''))
      else if macKeyBytes = 8
      then Some (Inl (Thrown ''SimpleKeyDerivator::SimpleKeyDerivator: macKeyBytes not long enough''))
      else if length sessionSrpKey < HASHKEYDERIVATOR_MIN_SESSIONKEY_SIZE
      then Some (Inl (Thrown ''SimpleKeyDerivator::SimpleKeyDerivator: sessionKey not long enough''))
      else
        case derive_all
          [deriveBytes h blockCipherKeyBytes ''shell client encryption key'' sessionSrpKey,
           deriveBytes h blockCipherIVBytes ''shell client encrpytion IV'' sessionSrpKey,
           deriveBytes h macKeyBytes ''shell client MAC key'' sessionSrpKey,
           deriveBytes h blockCipherKeyBytes ''shell server encryption key'' sessionSrpKey,
           deriveBytes h blockCipherIVBytes ''shell server encrpytion IV'' sessionSrpKey,
           deriveBytes h macKeyBytes ''shell server MAC key'' sessionSrpKey] of
          None \<Rightarrow> None
        | Some (Inl e) \<Rightarrow> Some (Inl e)
        | Some (Inr bs) \<Rightarrow>
            Some (Inr \<lparr>mClientEncryptionKey = bs ! 0, mClientIV = bs ! 1, mClientMacKey = bs ! 2,
              mServerEncryptionKey = bs ! 3, mServerIV = bs ! 4, mServerMacKey = bs ! 5\<rparr>))"

text \<open>\<^verbatim>\<open>SimpleKeyDerivator\<close> cuts the session key up; the sum of the lengths is an \<^verbatim>\<open>unsigned int\<close>.\<close>

definition slice :: "nat \<Rightarrow> nat \<Rightarrow> bytes \<Rightarrow> bytes run" where
  "slice at n b = (if at + n \<le> length b then Inr (take n (drop at b)) else Inl OutOfRange)"

definition SimpleKeyDerivator :: "bytes \<Rightarrow> u32 \<Rightarrow> u32 \<Rightarrow> u32 \<Rightarrow> session_keys run" where
  "SimpleKeyDerivator sessionSrpKey blockCipherKeyBytes blockCipherIVBytes macKeyBytes =
     (if blockCipherKeyBytes = 16
      then Inl (Thrown ''SimpleKeyDerivator::SimpleKeyDerivator: blockCipherKeyBytes not long enough'')
      else if macKeyBytes = 8
      then Inl (Thrown ''SimpleKeyDerivator::SimpleKeyDerivator: macKeyBytes not long enough'')
      else if length sessionSrpKey < unat ((blockCipherKeyBytes + blockCipherIVBytes + macKeyBytes) * 2)
      then Inl (Thrown ''SimpleKeyDerivator::SimpleKeyDerivator: sessionKey not long enough'')
      else
        let k = unat blockCipherKeyBytes; i = unat blockCipherIVBytes; m = unat macKeyBytes
        in run_bind (slice 0 k sessionSrpKey) (\<lambda>ck.
           run_bind (slice k i sessionSrpKey) (\<lambda>ci.
           run_bind (slice (k + i) m sessionSrpKey) (\<lambda>cm.
           run_bind (slice (k + i + m) k sessionSrpKey) (\<lambda>sk.
           run_bind (slice (k + i + m + k) i sessionSrpKey) (\<lambda>si.
           run_bind (slice (k + i + m + k + i) m sessionSrpKey) (\<lambda>sm.
             Inr \<lparr>mClientEncryptionKey = ck, mClientIV = ci, mClientMacKey = cm,
               mServerEncryptionKey = sk, mServerIV = si, mServerMacKey = sm\<rparr>)))))))"

section \<open>Counter mode\<close>

definition AES_BLOCK_SIZE :: nat where "AES_BLOCK_SIZE = 16"
definition BFR_BLOCKS :: nat where "BFR_BLOCKS = 8"

text \<open>
  \<^verbatim>\<open>aes_ecb_encrypt\<close> on whole blocks, with the key schedule applied: \<open>E\<close> maps a block.
\<close>

fun aes_ecb_encrypt :: "(bytes \<Rightarrow> bytes) \<Rightarrow> nat \<Rightarrow> bytes \<Rightarrow> bytes" where
  "aes_ecb_encrypt E 0 ibuf = []"
| "aes_ecb_encrypt E (Suc nb) ibuf = E (take AES_BLOCK_SIZE ibuf) @ aes_ecb_encrypt E nb (drop AES_BLOCK_SIZE ibuf)"

definition xor_bytes :: "bytes \<Rightarrow> bytes \<Rightarrow> bytes" where
  "xor_bytes a b = map (\<lambda>(x, y). x XOR y) (zip a b)"

text \<open>
  \<open>c\<close> is the memory at \<^verbatim>\<open>cbuf\<close>: the counter block and, since the increment may touch it, what
  follows. The counter blocks of one buffer:
\<close>

fun counters :: "(bytes \<Rightarrow> bytes run) \<Rightarrow> nat \<Rightarrow> bytes \<Rightarrow> (bytes \<times> bytes) run" where
  "counters ctr_inc 0 c = Inr ([], c)"
| "counters ctr_inc (Suc n) c =
     run_bind (ctr_inc c) (\<lambda>c'. run_bind (counters ctr_inc n c') (\<lambda>(bs, c''). Inr (take AES_BLOCK_SIZE c @ bs, c'')))"

function ctr_loop :: "(bytes \<Rightarrow> bytes) \<Rightarrow> (bytes \<Rightarrow> bytes run) \<Rightarrow> bytes \<Rightarrow> bytes \<Rightarrow> nat \<Rightarrow> (bytes \<times> bytes \<times> nat) run" where
  "ctr_loop E ctr_inc ibuf c b_pos =
     (if ibuf = [] then Inr ([], c, b_pos)
      else
        let blen = min (BFR_BLOCKS * AES_BLOCK_SIZE) (length ibuf);
            whole = blen div AES_BLOCK_SIZE
        in case counters ctr_inc whole c of
             Inl e \<Rightarrow> Inl e
           | Inr (buf, c) \<Rightarrow>
               let part = (blen mod AES_BLOCK_SIZE \<noteq> 0);
                   buf = (if part then buf @ take AES_BLOCK_SIZE c else buf);
                   ks = aes_ecb_encrypt E (if part then whole + 1 else whole) buf;
                   done = whole * AES_BLOCK_SIZE;
                   obuf = xor_bytes (take done ibuf) (take done ks) @
                          xor_bytes (drop done (take blen ibuf)) (drop (done + b_pos) ks)
               in (case ctr_loop E ctr_inc (drop blen ibuf) c (b_pos + (blen - done)) of
                     Inl e \<Rightarrow> Inl e
                   | Inr (o', c, b_pos) \<Rightarrow> Inr (obuf @ o', c, b_pos)))"
  by pat_completeness auto
termination
  by (relation "measure (\<lambda>(E, ctr_inc, ibuf, c, b_pos). length ibuf)")
    (auto simp: BFR_BLOCKS_def AES_BLOCK_SIZE_def)

declare ctr_loop.simps [simp del]

text \<open>\<open>b_pos\<close>, kept in the key context, is the place in the last key block; a call goes on there.\<close>

definition aes_ctr_crypt :: "(bytes \<Rightarrow> bytes) \<Rightarrow> (bytes \<Rightarrow> bytes run) \<Rightarrow> bytes \<Rightarrow> bytes \<Rightarrow> nat \<Rightarrow> (bytes \<times> bytes \<times> nat) run" where
  "aes_ctr_crypt E ctr_inc ibuf c b_pos =
     (if b_pos = 0 then ctr_loop E ctr_inc ibuf c 0
      else
        let buf = aes_ecb_encrypt E 1 (take AES_BLOCK_SIZE c);
            n = min (AES_BLOCK_SIZE - b_pos) (length ibuf);
            obuf = xor_bytes (take n ibuf) (drop b_pos buf)
        in if drop n ibuf = [] then Inr (obuf, c, b_pos + n)
           else run_bind (ctr_inc c) (\<lambda>c.
                run_bind (ctr_loop E ctr_inc (drop n ibuf) c 0) (\<lambda>(o', c, b_pos). Inr (obuf @ o', c, b_pos))))"

section \<open>\<^verbatim>\<open>AesCounter\<close>\<close>

definition DREL_AES_BLOCKLEN_BYTES :: nat where "DREL_AES_BLOCKLEN_BYTES = 16"
definition DREL_AESCOUNTER_SECRETIVLEN :: nat where "DREL_AESCOUNTER_SECRETIVLEN = 6"
definition DREL_AES_KEYLEN :: nat where "DREL_AES_KEYLEN = 32"
definition DREL_AES_MAXPACKETOCT :: int where "DREL_AES_MAXPACKETOCT = 65534"

text \<open>
  \<open>a_beyond\<close> are the two bytes of memory after \<^verbatim>\<open>ctr_buf\<close>, the last member of the class:
  \<^verbatim>\<open>*blockCounter++\<close> moves the pointer, not the counter, so that the last assignment of
  \<^verbatim>\<open>aes_custom_inc\<close> reads and writes them.
\<close>

record aes_counter =
  a_secretIV :: bytes
  a_key :: bytes
  a_ctr_buf :: bytes
  a_beyond :: bytes

definition AesCounter :: "bytes \<Rightarrow> bytes \<Rightarrow> bytes \<Rightarrow> bytes \<Rightarrow> aes_counter run" where
  "AesCounter secretIV key garbage beyond =
     (if length secretIV \<noteq> DREL_AESCOUNTER_SECRETIVLEN then Inl (Thrown ''Worng secretIV length'')
      else if length key \<noteq> DREL_AES_KEYLEN then Inl (Thrown ''Worng key length'')
      else Inr \<lparr>a_secretIV = secretIV, a_key = key, a_ctr_buf = garbage, a_beyond = beyond\<rparr>)"

definition aes_custom_inc :: "byte_order \<Rightarrow> bytes \<Rightarrow> bytes run" where
  "aes_custom_inc bo ctr_buf =
     (let blockCounter = DREL_AESCOUNTER_SECRETIVLEN + 8;
          value = san_u_be16toh bo (mem_load bo (take 2 (drop blockCounter ctr_buf)));
          ctr_buf = copy_at blockCounter (mem_store bo 2 value) ctr_buf
      in if value = 0xFFFF then Inl (Thrown ''Block counter exceeded!'')
         else
           let blockCounter = blockCounter + 2;
               value = san_u_htobe16 bo (mem_load bo (take 2 (drop blockCounter ctr_buf)))
           in Inr (copy_at blockCounter (mem_store bo 2 value) ctr_buf))"

text \<open>
  \<^verbatim>\<open>len\<close> is an \<^verbatim>\<open>int\<close>. Setting the key up again puts \<open>b_pos\<close> back to 0; it cannot fail.
\<close>

definition aes_counter_encrypt :: "byte_order \<Rightarrow> block_cipher \<Rightarrow> bytes \<Rightarrow> u64 \<Rightarrow> aes_counter \<Rightarrow> (bytes \<times> aes_counter) run" where
  "aes_counter_encrypt bo E datain sequenceNumber a =
     (let len = sint (word_of_nat (length datain) :: u32)
      in if len \<le> 0 \<or> len > DREL_AES_MAXPACKETOCT
         then Inl (Thrown ''Invalid input plaintext message length'')
         else if sequenceNumber = 0xFFFFFFFFFFFFFFFF then Inl (Thrown ''Packet counter exceeded - IV'')
         else
           let ctr_buf = replicate DREL_AES_BLOCKLEN_BYTES 0;
               ctr_buf = copy_at 0 (a_secretIV a) ctr_buf;
               ctr_buf = copy_at DREL_AESCOUNTER_SECRETIVLEN (mem_store bo 8 (san_s_be64toh bo sequenceNumber)) ctr_buf;
               ctr_buf = copy_at (DREL_AESCOUNTER_SECRETIVLEN + 8) (mem_store bo 2 (san_u_htobe16 bo 1)) ctr_buf
           in run_bind (aes_ctr_crypt (E (a_key a)) (aes_custom_inc bo) datain (ctr_buf @ a_beyond a) 0) (\<lambda>(dataout, c, _).
                Inr (dataout, a\<lparr>a_ctr_buf := take DREL_AES_BLOCKLEN_BYTES c, a_beyond := drop DREL_AES_BLOCKLEN_BYTES c\<rparr>)))"

section \<open>\<^verbatim>\<open>DatagramEncryptor\<close> and \<^verbatim>\<open>DatagramDecryptor\<close>\<close>

definition DSRP_ENCPARAM_TRUNCDIGEST_SIZE :: nat where "DSRP_ENCPARAM_TRUNCDIGEST_SIZE = 12"

record datagram_crypt =
  dc_aes :: aes_counter
  dc_hmac :: hmac

text \<open>
  Both classes have the same members and constructor. \<^verbatim>\<open>&IV[0]\<close> and \<^verbatim>\<open>&encryptionKey[0]\<close>
  of an empty vector are not followed.
\<close>

definition DatagramCrypt :: "hash \<Rightarrow> bytes \<Rightarrow> bytes \<Rightarrow> bytes \<Rightarrow> bytes \<Rightarrow> bytes \<Rightarrow> datagram_crypt run" where
  "DatagramCrypt sha1 garbage beyond encryptionKey IV macKey =
     run_bind (AesCounter IV encryptionKey garbage beyond) (\<lambda>aesCtr.
       run_bind (Hmac sha1 macKey) (\<lambda>hmac.
         if length macKey < unat (h_outputLen sha1)
         then Inl (Thrown ''DatagramEncryptor::DatagramEncryptor: macKey not long enough'')
         else Inr \<lparr>dc_aes = aesCtr, dc_hmac = hmac\<rparr>))"

definition getOverheadLen :: nat where
  "getOverheadLen = 8 + DSRP_ENCPARAM_TRUNCDIGEST_SIZE"

text \<open>\<open>out\<close> is the caller's buffer; a write past its end, or a digest shorter than 12 bytes, is out of range.\<close>

definition encryptAndAuthenticate ::
  "byte_order \<Rightarrow> block_cipher \<Rightarrow> bytes \<Rightarrow> u64 \<Rightarrow> bytes \<Rightarrow> datagram_crypt \<Rightarrow> ((bytes \<times> nat) \<times> datagram_crypt) run" where
  "encryptAndAuthenticate bo E plaintext sequenceNumber out dc =
     run_bind (aes_counter_encrypt bo E plaintext sequenceNumber (dc_aes dc)) (\<lambda>(c, aes).
       let plaintextLen = length plaintext
       in if length out < plaintextLen + DSRP_ENCPARAM_TRUNCDIGEST_SIZE then Inl OutOfRange
          else
            let out = copy_at 0 c out;
                out = copy_at plaintextLen (mem_store bo 8 (san_u_htobe64 bo sequenceNumber)) out;
                toCalculate = take (plaintextLen + 8) out;
                digest = hmac_hmac (dc_hmac dc) toCalculate
            in if length digest < DSRP_ENCPARAM_TRUNCDIGEST_SIZE then Inl OutOfRange
               else Inr ((copy_at plaintextLen (take DSRP_ENCPARAM_TRUNCDIGEST_SIZE digest) out,
                      plaintextLen + DSRP_ENCPARAM_TRUNCDIGEST_SIZE), dc\<lparr>dc_aes := aes\<rparr>))"

definition decryptAndVerifyMac ::
  "byte_order \<Rightarrow> block_cipher \<Rightarrow> bytes \<Rightarrow> bytes \<Rightarrow> u64 \<Rightarrow> datagram_crypt \<Rightarrow> ((bytes \<times> nat) \<times> datagram_crypt) run" where
  "decryptAndVerifyMac bo E dataIn dataOut expectedSequenceNumber dc =
     (if length dataIn \<le> DSRP_ENCPARAM_TRUNCDIGEST_SIZE then Inl (Thrown ''Malformed packet decryption attempt'')
      else
        let n = length dataIn - DSRP_ENCPARAM_TRUNCDIGEST_SIZE
        in if length dataOut < n + 8 then Inl OutOfRange
           else
             let dataOut = copy_at 0 (take n dataIn) dataOut;
                 dataOut = copy_at n (mem_store bo 8 (san_u_htobe64 bo expectedSequenceNumber)) dataOut;
                 toCompute = take (n + 8) dataOut;
                 correctDigest = hmac_hmac (dc_hmac dc) toCompute
             in if length correctDigest < DSRP_ENCPARAM_TRUNCDIGEST_SIZE then Inl OutOfRange
                else if take DSRP_ENCPARAM_TRUNCDIGEST_SIZE correctDigest \<noteq> drop n dataIn
                then Inl (Thrown ''Mac signature inccorect. Possible attack detected.'')
                else run_bind (aes_counter_encrypt bo E (take n dataIn) expectedSequenceNumber (dc_aes dc)) (\<lambda>(p, aes).
                       Inr ((copy_at 0 p dataOut, n), dc\<lparr>dc_aes := aes\<rparr>)))"

section \<open>Counter mode adds a key stream\<close>

lemma length_xor_bytes [simp]: "length (xor_bytes a b) = min (length a) (length b)"
  by (simp add: xor_bytes_def)

lemma xor_bytes_append: "length a = length k \<Longrightarrow> xor_bytes (a @ b) (k @ l) = xor_bytes a k @ xor_bytes b l"
  by (simp add: xor_bytes_def)

lemma xor_bytes_nth: "i < length a \<Longrightarrow> i < length b \<Longrightarrow> xor_bytes a b ! i = a ! i XOR b ! i"
  by (simp add: xor_bytes_def)

lemma xor_bytes_twice: "length a \<le> length k \<Longrightarrow> xor_bytes (xor_bytes a k) k = a"
  by (rule nth_equalityI) (simp_all add: xor_bytes_nth xor.assoc)

lemma xor_bytes_take: "xor_bytes a (take (length a) k) = xor_bytes a k"
  by (rule nth_equalityI) (auto simp: xor_bytes_nth)

text \<open>
  \<open>f i\<close> is the memory at the counter after \<open>i\<close> increments; \<open>key_blocks E f k n\<close> are the \<open>n\<close>
  key blocks from the \<open>k\<close>th on.
\<close>

definition key_blocks :: "(bytes \<Rightarrow> bytes) \<Rightarrow> (nat \<Rightarrow> bytes) \<Rightarrow> nat \<Rightarrow> nat \<Rightarrow> bytes" where
  "key_blocks E f k n = concat (map (\<lambda>i. E (take 16 (f i))) [k..<k + n])"

definition counts :: "(bytes \<Rightarrow> bytes) \<Rightarrow> (bytes \<Rightarrow> bytes run) \<Rightarrow> (nat \<Rightarrow> bytes) \<Rightarrow> bool" where
  "counts E inc f \<longleftrightarrow> (\<forall>i. inc (f i) = Inr (f (Suc i)) \<and> 16 \<le> length (f i) \<and> length (E (take 16 (f i))) = 16)"

lemma upt_front: "[k..<Suc (k + n)] = k # [Suc k..<Suc k + n]"
  by (simp add: upt_conv_Cons del: upt_Suc)

lemma counters_counts:
  "counts E inc f \<Longrightarrow> counters inc n (f k) = Inr (concat (map (\<lambda>i. take 16 (f i)) [k..<k + n]), f (k + n))"
  by (induction n arbitrary: k) (simp_all add: counts_def AES_BLOCK_SIZE_def upt_front del: upt_Suc)

lemma ecb_blocks:
  assumes "\<And>i. length (g i) = 16"
  shows "aes_ecb_encrypt E n (concat (map g [k..<k + n]) @ rest) = concat (map (\<lambda>i. E (g i)) [k..<k + n])"
proof (induction n arbitrary: k)
  case (Suc n)
  show ?case
    using Suc [of "Suc k"] assms by (simp add: AES_BLOCK_SIZE_def upt_front del: upt_Suc)
qed simp

lemma length_key_blocks: "counts E inc f \<Longrightarrow> length (key_blocks E f k n) = 16 * n"
  by (induction n) (simp_all add: key_blocks_def counts_def)

lemma key_blocks_add: "key_blocks E f k (n + m) = key_blocks E f k n @ key_blocks E f (k + n) m"
  by (simp add: key_blocks_def add.assoc [symmetric] upt_add_eq_append [symmetric] flip: map_append concat_append)

lemma blocks_up: "(n + 15) div 16 = (if n mod 16 = 0 then n div 16 else Suc (n div 16))" for n :: nat
proof -
  have "(n + 15) div 16 = (n mod 16 + 15 + n div 16 * 16) div 16" by simp
  also have "\<dots> = n div 16 + (n mod 16 + 15) div 16" by (subst div_mult_self1) simp_all
  also have "(n mod 16 + 15) div 16 = (if n mod 16 = 0 then 0 else 1)"
    using mod_less_divisor [of 16 n] by (auto intro!: div_nat_eqI)
  finally show ?thesis by simp
qed

lemma blocks_128:
  "(128 + m + 15) div 16 = 8 + (m + 15) div 16" "(128 + m) div 16 = 8 + m div 16" "(128 + m) mod 16 = m mod 16" for m :: nat
  using div_mult_self1 [of 16 "m + 15" 8] div_mult_self1 [of 16 m 8] mod_mult_self1 [of m 8 16]
  by (simp_all add: add.commute add.left_commute)

lemma ctr_chunk:
  assumes "counts E inc f" and "ibuf \<noteq> []"
  defines "n \<equiv> min 128 (length ibuf)"
  shows "ctr_loop E inc ibuf (f k) 0 =
    run_bind (ctr_loop E inc (drop n ibuf) (f (k + n div 16)) (n mod 16)) (\<lambda>(o', c, b).
      Inr (xor_bytes (take n ibuf) (key_blocks E f k ((n + 15) div 16)) @ o', c, b))"
proof -
  let ?w = "n div 16" and ?g = "\<lambda>i. take 16 (f i)"
  have len: "length (?g i) = 16" for i using assms(1) by (simp add: counts_def)
  have c: "counters inc ?w (f k) = Inr (concat (map ?g [k..<k + ?w]), f (k + ?w))"
    by (rule counters_counts [OF assms(1)])
  have n: "n = 16 * ?w + n mod 16" "n - ?w * 16 = n mod 16" by (simp_all add: minus_div_mult_eq_mod)
  show ?thesis
  proof (cases "n mod 16 = 0")
    case True
    then have up: "(n + 15) div 16 = ?w" by (simp add: blocks_up)
    have e: "aes_ecb_encrypt E ?w (concat (map ?g [k..<k + ?w])) = key_blocks E f k ?w"
      using ecb_blocks [of ?g E ?w k "[]"] len by (simp add: key_blocks_def)
    have l: "length (key_blocks E f k ?w) = n" using n(1) True by (simp add: length_key_blocks [OF assms(1)])
    show ?thesis
      using assms(2) c e l n True up
      by (subst ctr_loop.simps)
        (auto simp: n_def [symmetric] BFR_BLOCKS_def AES_BLOCK_SIZE_def run_bind_def xor_bytes_def Let_def
          split: sum.splits)
  next
    case False
    then have up: "(n + 15) div 16 = Suc ?w" by (simp add: blocks_up)
    have "concat (map ?g [k..<k + ?w]) @ ?g (k + ?w) = concat (map ?g [k..<k + Suc ?w])" by simp
    then have e: "aes_ecb_encrypt E (Suc ?w) (concat (map ?g [k..<k + ?w]) @ ?g (k + ?w)) = key_blocks E f k (Suc ?w)"
      using ecb_blocks [of ?g E "Suc ?w" k "[]"] len by (simp add: key_blocks_def)
    have "take n ibuf = take (16 * ?w) ibuf @ drop (16 * ?w) (take n ibuf)"
      by (metis append_take_drop_id min.absorb1 n(1) le_add1 take_take)
    then have "xor_bytes (take n ibuf) (key_blocks E f k (Suc ?w)) =
        xor_bytes (take (16 * ?w) ibuf) (take (16 * ?w) (key_blocks E f k (Suc ?w))) @
        xor_bytes (drop (16 * ?w) (take n ibuf)) (drop (16 * ?w) (key_blocks E f k (Suc ?w)))"
      using xor_bytes_append [of "take (16 * ?w) ibuf" "take (16 * ?w) (key_blocks E f k (Suc ?w))"
          "drop (16 * ?w) (take n ibuf)" "drop (16 * ?w) (key_blocks E f k (Suc ?w))"] n(1)
      by (simp add: length_key_blocks [OF assms(1)] n_def)
    then show ?thesis
      using assms(2) c e n False up
      by (subst ctr_loop.simps)
        (auto simp: n_def [symmetric] BFR_BLOCKS_def AES_BLOCK_SIZE_def run_bind_def Let_def mult.commute
          split: sum.splits)
  qed
qed

lemma ctr_loop_xors:
  assumes "counts E inc f"
  shows "ctr_loop E inc ibuf (f k) 0 =
    Inr (xor_bytes ibuf (key_blocks E f k ((length ibuf + 15) div 16)), f (k + length ibuf div 16), length ibuf mod 16)"
proof (induction "length ibuf" arbitrary: ibuf k rule: less_induct)
  case less
  consider "ibuf = []" | "ibuf \<noteq> []" "length ibuf \<le> 128" | "128 < length ibuf" by linarith
  then show ?case
  proof cases
    case 1
    then show ?thesis by (subst ctr_loop.simps) (simp add: xor_bytes_def)
  next
    case 2
    then show ?thesis
      by (subst ctr_chunk [OF assms 2(1)]) (subst ctr_loop.simps, simp)
  next
    case 3
    then have "length (drop 128 ibuf) < length ibuf" by simp
    note IH = less [OF this, of "k + 8"]
    obtain m where m: "length ibuf = 128 + m" using 3 by (metis less_imp_add_positive)
    have up: "(length ibuf + 15) div 16 = 8 + (m + 15) div 16" "length ibuf div 16 = 8 + m div 16"
      "length ibuf mod 16 = m mod 16" unfolding m by (simp_all only: blocks_128)
    have "xor_bytes ibuf (key_blocks E f k (8 + (m + 15) div 16)) =
        xor_bytes (take 128 ibuf) (key_blocks E f k 8) @ xor_bytes (drop 128 ibuf) (key_blocks E f (k + 8) ((m + 15) div 16))"
      using xor_bytes_append [of "take 128 ibuf" "key_blocks E f k 8" "drop 128 ibuf"] 3
      by (simp add: key_blocks_add length_key_blocks [OF assms])
    then show ?thesis
      using 3 IH up m by (subst ctr_chunk [OF assms]) (auto simp: add.assoc)
  qed
qed

section \<open>The counter of \<^verbatim>\<open>AesCounter\<close>\<close>

text \<open>
  On a little-endian host an increment exchanges the two bytes of the block counter and the two
  bytes behind it; on a big-endian host it does nothing.
\<close>

definition turned :: "byte_order \<Rightarrow> nat \<Rightarrow> bytes \<Rightarrow> bytes" where
  "turned bo i b = (if bo = SAN_LITTLE_ENDIAN \<and> odd i then rev b else b)"

definition ctr_block :: "byte_order \<Rightarrow> bytes \<Rightarrow> u64 \<Rightarrow> nat \<Rightarrow> bytes" where
  "ctr_block bo iv seq i = iv @ be_bytes 8 seq @ turned bo i [0, 1]"

definition key_stream :: "byte_order \<Rightarrow> block_cipher \<Rightarrow> bytes \<Rightarrow> bytes \<Rightarrow> u64 \<Rightarrow> nat \<Rightarrow> bytes" where
  "key_stream bo E key iv seq n = concat (map (\<lambda>i. E key (ctr_block bo iv seq i)) [0..<n])"

lemma two_bytes: "length b = 2 \<Longrightarrow> \<exists>x y. b = [x, y]"
  by (metis (no_types) One_nat_def Suc_1 Suc_length_conv length_0_conv)

lemma turn_bytes:
  assumes "length b = 2"
  shows "mem_store bo 2 (san_u_be16toh bo (mem_load bo b)) = turned bo (Suc 0) b"
proof -
  have "san_u_be16toh bo (mem_load bo b) = (be_word b :: u16)"
    using assms unpack_network16(1) [of bo b 0] by (simp add: unpackUint16_def)
  moreover have "le_bytes 2 (be_word b :: u16) = rev b"
    using assms be_bytes_be_word [of b 2, where ?'a = 16] by (simp add: be_bytes_def rev_swap)
  ultimately show ?thesis by (simp add: mem_store_def turned_def)
qed

lemma turned_simps [simp]: "length (turned bo i b) = length b" "turned bo 0 b = b" "turned bo (Suc 0) (turned bo i b) = turned bo (Suc i) b"
  by (auto simp: turned_def)

lemma aes_custom_inc_turns:
  assumes "length p = 14" and "length beyond = 2"
  shows "aes_custom_inc bo (p @ turned bo i [0, 1] @ turned bo i beyond) =
    Inr (p @ turned bo (Suc i) [0, 1] @ turned bo (Suc i) beyond)"
proof -
  let ?a = "turned bo i [0, 1]" and ?b = "turned bo i beyond"
  let ?v = "san_u_be16toh bo (mem_load bo ?a)"
  have "?v = be_word ?a" using unpack_network16(1) [of bo ?a 0] by (simp add: unpackUint16_def)
  moreover have "be_word [0, 1] \<noteq> (0xFFFF :: u16)" "be_word [1, 0] \<noteq> (0xFFFF :: u16)"
    by (simp_all add: be_word_def)
  ultimately have "?v \<noteq> 0xFFFF" by (simp add: turned_def)
  moreover have "mem_store bo 2 ?v = turned bo (Suc i) [0, 1]"
    using turn_bytes [of ?a bo] by simp
  moreover have "mem_store bo 2 (san_u_htobe16 bo (mem_load bo ?b)) = turned bo (Suc i) beyond"
    using turn_bytes [of ?b bo] assms(2) by (simp add: san_u_htobe16_def san_u_be16toh_def)
  ultimately show ?thesis
    using assms by (simp add: aes_custom_inc_def DREL_AESCOUNTER_SECRETIVLEN_def Let_def copy_at_def)
qed

lemma aes_counter_counts:
  assumes "cipher_ok E" and "length iv = 6" and "length beyond = 2"
  shows "counts (E key) (aes_custom_inc bo) (\<lambda>i. ctr_block bo iv seq i @ turned bo i beyond)"
  using assms aes_custom_inc_turns [of "iv @ be_bytes 8 seq" beyond bo]
  by (simp add: counts_def ctr_block_def cipher_ok_def)

lemma key_blocks_stream:
  "length iv = 6 \<Longrightarrow> key_blocks (E key) (\<lambda>i. ctr_block bo iv seq i @ turned bo i beyond) 0 n = key_stream bo E key iv seq n"
  by (simp add: key_blocks_def key_stream_def ctr_block_def)

lemma length_key_stream: "cipher_ok E \<Longrightarrow> length iv = 6 \<Longrightarrow> length (key_stream bo E key iv seq n) = 16 * n"
  by (induction n) (simp_all add: key_stream_def cipher_ok_def ctr_block_def)

definition counter_ok :: "aes_counter \<Rightarrow> bool" where
  "counter_ok a \<longleftrightarrow> length (a_secretIV a) = 6 \<and> length (a_beyond a) = 2"

text \<open>A key block for every 16 bytes, or part of them.\<close>

lemma aes_counter_encrypt_xors:
  assumes "cipher_ok E" and "counter_ok a" and "data \<noteq> []" and "length data \<le> 65534" and "seq \<noteq> 0xFFFFFFFFFFFFFFFF"
  shows "\<exists>a'. aes_counter_encrypt bo E data seq a =
      Inr (xor_bytes data (key_stream bo E (a_key a) (a_secretIV a) seq ((length data + 15) div 16)), a') \<and>
    a_key a' = a_key a \<and> a_secretIV a' = a_secretIV a \<and>
    a_beyond a' = turned bo (length data div 16) (a_beyond a)"
proof -
  let ?f = "\<lambda>i. ctr_block bo (a_secretIV a) seq i @ turned bo i (a_beyond a)"
  have iv: "length (a_secretIV a) = 6" "length (a_beyond a) = 2" using assms(2) by (simp_all add: counter_ok_def)
  have c: "counts (E (a_key a)) (aes_custom_inc bo) ?f" by (rule aes_counter_counts [OF assms(1) iv])
  have len: "sint (word_of_nat (length data) :: u32) = int (length data)"
    using assms(4) by (simp add: signed_of_nat signed_take_bit_int_eq_self)
  have "mem_store bo 8 (san_s_be64toh bo seq) = be_bytes 8 seq"
    using pack_network(5) [of bo seq] by (simp add: pack_int64_def san_s_be64toh_def san_s_htobe64_def)
  moreover have "mem_store bo 2 (san_u_htobe16 bo 1) = [0, 1]"
    using pack_network(2) [of bo 1] by (simp add: pack_uint16_def be_bytes_def le_bytes_numeral)
  ultimately have start: "copy_at 14 (mem_store bo 2 (san_u_htobe16 bo 1))
      (copy_at 6 (mem_store bo 8 (san_s_be64toh bo seq)) (copy_at 0 (a_secretIV a) (replicate 16 0))) @ a_beyond a = ?f 0"
    using iv by (simp add: copy_at_def ctr_block_def)
  show ?thesis
    using assms(3-5) ctr_loop_xors [OF c, of data 0] len start iv
    by (simp add: aes_counter_encrypt_def DREL_AES_MAXPACKETOCT_def DREL_AES_BLOCKLEN_BYTES_def
        DREL_AESCOUNTER_SECRETIVLEN_def aes_ctr_crypt_def Let_def key_blocks_stream)
      (simp add: ctr_block_def)
qed

lemma aes_counter_encrypt_bad:
  "data = [] \<or> 65534 < length data \<and> length data < 2 ^ 31 \<Longrightarrow>
    aes_counter_encrypt bo E data seq a = Inl (Thrown ''Invalid input plaintext message length'')"
  by (auto simp: aes_counter_encrypt_def DREL_AES_MAXPACKETOCT_def signed_of_nat signed_take_bit_int_eq_self)

section \<open>Protected datagrams\<close>

lemma length_hmac: "hash_ok (hm_hash m) \<Longrightarrow> length (hmac_hmac m data) = unat (h_outputLen (hm_hash m))"
  by (simp add: hmac_hmac_def hash_ok_def Let_def)

text \<open>What goes out: the data under the key stream, and the first 12 bytes of the digest.\<close>

definition sealed :: "byte_order \<Rightarrow> block_cipher \<Rightarrow> datagram_crypt \<Rightarrow> u64 \<Rightarrow> bytes \<Rightarrow> bytes" where
  "sealed bo E dc seq data = xor_bytes data
     (key_stream bo E (a_key (dc_aes dc)) (a_secretIV (dc_aes dc)) seq ((length data + 15) div 16))"

definition tag :: "datagram_crypt \<Rightarrow> u64 \<Rightarrow> bytes \<Rightarrow> bytes" where
  "tag dc seq c = take 12 (hmac_hmac (dc_hmac dc) (c @ be_bytes 8 seq))"

definition same_keys :: "datagram_crypt \<Rightarrow> datagram_crypt \<Rightarrow> bool" where
  "same_keys d e \<longleftrightarrow> dc_hmac d = dc_hmac e \<and> a_key (dc_aes d) = a_key (dc_aes e) \<and> a_secretIV (dc_aes d) = a_secretIV (dc_aes e)"

definition crypt_ok :: "datagram_crypt \<Rightarrow> bool" where
  "crypt_ok dc \<longleftrightarrow> counter_ok (dc_aes dc) \<and> hash_ok (hm_hash (dc_hmac dc)) \<and> 12 \<le> h_outputLen (hm_hash (dc_hmac dc))"

lemma blocks_enough: "n \<le> 16 * ((n + 15) div 16)" for n :: nat
  using div_mult_mod_eq [of n 16] mod_less_divisor [of 16 n] unfolding blocks_up by auto

lemma sealed_short: "length data \<le> 16 \<Longrightarrow> sealed bo E dc seq data = sealed bo' E dc seq data"
proof -
  assume "length data \<le> 16"
  then have "(length data + 15) div 16 \<le> 1" by simp
  then consider "(length data + 15) div 16 = 0" | "(length data + 15) div 16 = 1" by linarith
  then show ?thesis by cases (simp_all add: sealed_def key_stream_def ctr_block_def)
qed

lemma length_sealed: "cipher_ok E \<Longrightarrow> crypt_ok dc \<Longrightarrow> length (sealed bo E dc seq data) = length data"
  using blocks_enough [of "length data"] by (simp add: sealed_def length_key_stream crypt_ok_def counter_ok_def)

lemma length_tag: "crypt_ok dc \<Longrightarrow> length (tag dc seq c) = 12"
  by (simp add: tag_def crypt_ok_def length_hmac word_le_nat_alt)

lemma sealed_twice:
  assumes "cipher_ok E" and "crypt_ok dc" and "same_keys e dc"
  shows "sealed bo E e seq (sealed bo E dc seq data) = data"
proof -
  have "length data \<le> length (key_stream bo E (a_key (dc_aes dc)) (a_secretIV (dc_aes dc)) seq ((length data + 15) div 16))"
    using assms(1,2) blocks_enough [of "length data"] by (simp add: length_key_stream crypt_ok_def counter_ok_def)
  then show ?thesis
    using assms length_sealed [OF assms(1,2), of bo seq data]
    by (simp add: sealed_def [of bo E e] same_keys_def) (simp add: sealed_def xor_bytes_twice)
qed

lemma encrypt_seals:
  assumes "cipher_ok E" and "crypt_ok dc" and "data \<noteq> []" and "length data \<le> 65534" and "seq \<noteq> 0xFFFFFFFFFFFFFFFF"
    and "length data + 12 \<le> length out"
  shows "\<exists>dc'. encryptAndAuthenticate bo E data seq out dc =
      Inr ((sealed bo E dc seq data @ tag dc seq (sealed bo E dc seq data) @ drop (length data + 12) out, length data + 12), dc') \<and>
    same_keys dc' dc \<and> crypt_ok dc'"
proof -
  obtain a' where a': "aes_counter_encrypt bo E data seq (dc_aes dc) = Inr (sealed bo E dc seq data, a')"
    "a_key a' = a_key (dc_aes dc)" "a_secretIV a' = a_secretIV (dc_aes dc)" "length (a_beyond a') = 2"
    using aes_counter_encrypt_xors [OF assms(1) _ assms(3-5), of "dc_aes dc" bo] assms(2)
    by (auto simp: crypt_ok_def sealed_def counter_ok_def)
  have len: "length (sealed bo E dc seq data) = length data" by (rule length_sealed [OF assms(1,2)])
  have seq: "mem_store bo 8 (san_u_htobe64 bo seq) = be_bytes 8 seq"
    using pack_network(6) [of bo seq] by (simp add: pack_uint64_def)
  let ?d = "hmac_hmac (dc_hmac dc) (sealed bo E dc seq data @ be_bytes 8 seq)"
  have d: "12 \<le> length ?d" using assms(2) by (simp add: crypt_ok_def length_hmac word_le_nat_alt)
  show ?thesis
    using a' len seq d assms(2,6)
    by (simp add: encryptAndAuthenticate_def DSRP_ENCPARAM_TRUNCDIGEST_SIZE_def Let_def copy_at_def tag_def
        same_keys_def crypt_ok_def counter_ok_def add.commute)
qed

text \<open>Decryption of \<open>c\<close> followed by 12 bytes \<open>t\<close>.\<close>

lemma decrypt_opens:
  assumes "cipher_ok E" and "crypt_ok dc" and "length t = 12" and "c \<noteq> []" and "length c + 8 \<le> length out"
  shows "(t = tag dc seq c \<and> length c \<le> 65534 \<and> seq \<noteq> 0xFFFFFFFFFFFFFFFF \<longrightarrow>
      (\<exists>dc' rest. decryptAndVerifyMac bo E (c @ t) out seq dc = Inr ((sealed bo E dc seq c @ rest, length c), dc') \<and>
        same_keys dc' dc \<and> crypt_ok dc')) \<and>
    (t \<noteq> tag dc seq c \<longrightarrow> decryptAndVerifyMac bo E (c @ t) out seq dc =
      Inl (Thrown ''Mac signature inccorect. Possible attack detected.''))"
proof -
  let ?d = "hmac_hmac (dc_hmac dc) (c @ be_bytes 8 seq)"
  have seq: "mem_store bo 8 (san_u_htobe64 bo seq) = be_bytes 8 seq"
    using pack_network(6) [of bo seq] by (simp add: pack_uint64_def)
  have d: "12 \<le> length ?d" using assms(2) by (simp add: crypt_ok_def length_hmac word_le_nat_alt)
  have len: "length (sealed bo E dc seq c) = length c" by (rule length_sealed [OF assms(1,2)])
  have *: "decryptAndVerifyMac bo E (c @ t) out seq dc =
    (if tag dc seq c \<noteq> t then Inl (Thrown ''Mac signature inccorect. Possible attack detected.'')
     else run_bind (aes_counter_encrypt bo E c seq (dc_aes dc)) (\<lambda>(p, aes).
       Inr ((copy_at 0 p (c @ be_bytes 8 seq @ drop (length c + 8) out), length c), dc\<lparr>dc_aes := aes\<rparr>)))"
    using assms(3-5) seq d
    by (simp add: decryptAndVerifyMac_def DSRP_ENCPARAM_TRUNCDIGEST_SIZE_def Let_def copy_at_def tag_def add.commute)
  have "\<exists>dc' rest. decryptAndVerifyMac bo E (c @ t) out seq dc = Inr ((sealed bo E dc seq c @ rest, length c), dc') \<and>
      same_keys dc' dc \<and> crypt_ok dc'" if t: "t = tag dc seq c" and l: "length c \<le> 65534" and s: "seq \<noteq> 0xFFFFFFFFFFFFFFFF"
  proof -
    obtain a' where "aes_counter_encrypt bo E c seq (dc_aes dc) = Inr (sealed bo E dc seq c, a')"
      "a_key a' = a_key (dc_aes dc)" "a_secretIV a' = a_secretIV (dc_aes dc)" "length (a_beyond a') = 2"
      using aes_counter_encrypt_xors [OF assms(1) _ assms(4) l s, of "dc_aes dc" bo] assms(2)
      by (auto simp: crypt_ok_def sealed_def counter_ok_def)
    then show ?thesis
      using assms(2) len unfolding * by (auto simp: t copy_at_def same_keys_def crypt_ok_def counter_ok_def)
  qed
  then show ?thesis using * by auto
qed

section \<open>Two ends with ciphers that agree\<close>

text \<open>
  What the protection asks of a block cipher, and of the ciphers of two hosts; \<open>Aes\<close> proves it
  for the AES library.
\<close>

locale cipher =
  fixes E :: block_cipher
  assumes block_for_block: "length b = 16 \<Longrightarrow> length (E k b) = 16"
begin

lemma ok: "cipher_ok E"
  by (simp add: cipher_ok_def block_for_block)

end

locale cipher_pair = snd_end: cipher E + rcv_end: cipher E' for E :: block_cipher and E' :: block_cipher +
  assumes agree: "length k = 32 \<Longrightarrow> length b = 16 \<Longrightarrow> E k b = E' k b"
begin

lemma key_stream_agrees: "length key = 32 \<Longrightarrow> length iv = 6 \<Longrightarrow> key_stream bo E key iv seq n = key_stream bo E' key iv seq n"
  by (simp add: key_stream_def agree ctr_block_def)

lemma sealed_agrees: "crypt_ok dc \<Longrightarrow> length (a_key (dc_aes dc)) = 32 \<Longrightarrow> sealed bo E dc seq data = sealed bo E' dc seq data"
  by (simp add: sealed_def key_stream_agrees crypt_ok_def counter_ok_def)

lemma datagram_opened:
  assumes "crypt_ok de" and "crypt_ok dd" and "same_keys dd de" and "length (a_key (dc_aes de)) = 32"
    and "bo' = bo \<or> length data \<le> 16"
    and "data \<noteq> []" and "length data \<le> 65534" and "seq \<noteq> 0xFFFFFFFFFFFFFFFF" and "length data + 20 \<le> length buf1" and "length data + 8 \<le> length buf2"
  shows "\<exists>out n de'. encryptAndAuthenticate bo E data seq buf1 de = Inr ((out, n), de') \<and> same_keys de' de \<and>
    (\<exists>plain dd'. decryptAndVerifyMac bo' E' (take n out) buf2 seq dd = Inr ((plain, length data), dd') \<and>
      take (length data) plain = data \<and> same_keys dd' dd) \<and>
    (\<forall>t. length t = 12 \<and> t \<noteq> drop (length data) (take n out) \<longrightarrow>
      decryptAndVerifyMac bo' E' (take (length data) out @ t) buf2 seq dd =
        Inl (Thrown ''Mac signature inccorect. Possible attack detected.''))"
proof -
  let ?c = "sealed bo E de seq data"
  let ?t = "tag de seq ?c"
  have len: "length ?c = length data" by (rule length_sealed [OF snd_end.ok assms(1)])
  have c: "?c \<noteq> []" "length ?c + 8 \<le> length buf2" "length ?c \<le> 65534" using len assms(6,7,10) by auto
  have tag: "tag dd seq ?c = ?t" using assms(3) by (simp add: tag_def same_keys_def)
  have tlen: "length ?t = 12" by (rule length_tag [OF assms(1)])
  obtain de' where e: "encryptAndAuthenticate bo E data seq buf1 de =
      Inr ((?c @ ?t @ drop (length data + 12) buf1, length data + 12), de')" "same_keys de' de"
    using encrypt_seals [OF snd_end.ok assms(1,6-8), of buf1 bo] assms(9) by auto
  obtain dd' rest where d: "decryptAndVerifyMac bo' E' (?c @ ?t) buf2 seq dd = Inr ((sealed bo' E' dd seq ?c @ rest, length ?c), dd')"
    "same_keys dd' dd"
    using decrypt_opens [OF rcv_end.ok assms(2) tlen c(1,2), of seq bo'] tag c(3) assms(8) by auto
  have bad: "decryptAndVerifyMac bo' E' (?c @ t) buf2 seq dd = Inl (Thrown ''Mac signature inccorect. Possible attack detected.'')"
    if "length t = 12" "t \<noteq> ?t" for t
    using decrypt_opens [OF rcv_end.ok assms(2) that(1) c(1,2), of seq bo'] tag that(2) by auto
  have key: "length (a_key (dc_aes dd)) = 32" using assms(3,4) by (simp add: same_keys_def)
  have "sealed bo' E' dd seq ?c = sealed bo E dd seq ?c"
    using assms(5) len sealed_short [of ?c bo' E dd seq bo] sealed_agrees [OF assms(2) key] by auto
  then have "sealed bo' E' dd seq ?c = data" using sealed_twice [OF snd_end.ok assms(1,3)] by simp
  then show ?thesis using e d bad len tlen by auto
qed

end

section \<open>Properties\<close>

text \<open>One end with a hash that adds up and a cipher that turns a block round and mixes in the key.\<close>

definition sample_hash :: hash where
  "sample_hash = \<lparr>h_hash = (\<lambda>b. replicate 19 7 @ [foldr (\<lambda>x y. 3 * y + x) b 1]), h_outputLen = 20, h_blockSize = 64\<rparr>"

definition sample_cipher :: block_cipher where
  "sample_cipher k b = map (\<lambda>x. x + hd k) (rev b)"

definition sample_crypt :: "bytes \<Rightarrow> datagram_crypt" where
  "sample_crypt beyond = \<lparr>dc_aes = \<lparr>a_secretIV = [1, 2, 3, 4, 5, 6], a_key = replicate 32 9, a_ctr_buf = [], a_beyond = beyond\<rparr>,
     dc_hmac = \<lparr>hm_hash = sample_hash, hm_key = [], ikeypad = [1], okeypad = [2]\<rparr>\<rparr>"

lemma sample_crypt_ok: "cipher_ok sample_cipher" "length b = 2 \<Longrightarrow> crypt_ok (sample_crypt b)"
  "same_keys (sample_crypt b) (sample_crypt c)"
  by (simp_all add: cipher_ok_def sample_cipher_def crypt_ok_def sample_crypt_def counter_ok_def hash_ok_def
      sample_hash_def same_keys_def)

lemma nth_blocks: "(\<And>i. length (g i) = 16) \<Longrightarrow> j < 16 * n \<Longrightarrow> concat (map g [0..<n]) ! j = g (j div 16) ! (j mod 16)"
proof (induction n)
  case (Suc n)
  have "length (concat (map g [0..<n])) = 16 * n"
    using Suc.prems(1) by (induction n) simp_all
  moreover have "\<not> j < 16 * n \<Longrightarrow> j div 16 = n \<and> j mod 16 = j - 16 * n"
  proof -
    assume "\<not> j < 16 * n"
    then obtain r where "j = r + n * 16" "r < 16"
      using Suc.prems(2) by (metis add.commute add_less_cancel_left le_add_diff_inverse mult.commute mult_Suc_right not_less)
    then show "j div 16 = n \<and> j mod 16 = j - 16 * n" by simp
  qed
  ultimately show ?case using Suc by (auto simp: nth_append)
qed simp

lemma sealed_nth:
  assumes "cipher_ok E" and "crypt_ok dc" and "j < length data"
  shows "sealed bo E dc seq data ! j = data ! j XOR
    E (a_key (dc_aes dc)) (ctr_block bo (a_secretIV (dc_aes dc)) seq (j div 16)) ! (j mod 16)"
proof -
  have iv: "length (a_secretIV (dc_aes dc)) = 6" using assms(2) by (simp add: crypt_ok_def counter_ok_def)
  have "length (E (a_key (dc_aes dc)) (ctr_block bo (a_secretIV (dc_aes dc)) seq i)) = 16" for i
    using assms(1) iv by (simp add: cipher_ok_def ctr_block_def)
  moreover have "j < 16 * ((length data + 15) div 16)" using assms(3) blocks_enough [of "length data"] by simp
  ultimately show ?thesis
    using assms(3) length_key_stream [OF assms(1) iv] by (simp add: sealed_def xor_bytes_nth key_stream_def nth_blocks)
qed

lemma xor_cancel: "(a XOR k) XOR (b XOR k) = a XOR (b :: byte)"
  by (rule bit_word_eqI) (auto simp: bit_simps)

text \<open>
  C17. The key stream repeats. Since the block counter does not count, two bytes of an encrypted
  datagram that are two blocks apart were encrypted with the same byte: their sum is the sum of
  the plain bytes, for everyone to see. On a big-endian host that holds of any two blocks.
\<close>

lemma key_stream_repeats:
  assumes "cipher_ok E" and "crypt_ok dc" and "data \<noteq> []" and "length data \<le> 65534" and "seq \<noteq> 0xFFFFFFFFFFFFFFFF"
    and "length data + 12 \<le> length buf"
  shows "\<exists>out n dc'. encryptAndAuthenticate bo E data seq buf dc = Inr ((out, n), dc') \<and>
    (\<forall>j. j + 32 < length data \<longrightarrow> out ! j XOR out ! (j + 32) = data ! j XOR data ! (j + 32)) \<and>
    (\<forall>j. bo = SAN_BIG_ENDIAN \<and> j + 16 < length data \<longrightarrow> out ! j XOR out ! (j + 16) = data ! j XOR data ! (j + 16))"
proof -
  let ?c = "sealed bo E dc seq data"
  have len: "length ?c = length data" by (rule length_sealed [OF assms(1,2)])
  have "turned bo (i + 2) b = turned bo i b" for i b by (simp add: turned_def)
  then have same: "ctr_block bo iv seq (i + 2) = ctr_block bo iv seq i" for iv i by (simp add: ctr_block_def)
  have all: "ctr_block SAN_BIG_ENDIAN iv seq i = ctr_block SAN_BIG_ENDIAN iv seq 0" for iv i
    by (simp add: ctr_block_def turned_def)
  have "(j + 32) div 16 = j div 16 + 2" "(j + 32) mod 16 = j mod 16" for j :: nat
    using div_mult_self1 [of 16 j 2] mod_mult_self1 [of j 2 16] by simp_all
  then have two: "?c ! j XOR ?c ! (j + 32) = data ! j XOR data ! (j + 32)" if "j + 32 < length data" for j
    using that sealed_nth [OF assms(1,2), of j data bo seq] sealed_nth [OF assms(1,2), of "j + 32" data bo seq]
    by (simp only: same) (simp add: xor_cancel)
  have one: "?c ! j XOR ?c ! (j + 16) = data ! j XOR data ! (j + 16)" if "bo = SAN_BIG_ENDIAN" "j + 16 < length data" for j
    using that(2) sealed_nth [OF assms(1,2), of j data bo seq] sealed_nth [OF assms(1,2), of "j + 16" data bo seq]
      all [of _ "j div 16"] all [of _ "(j + 16) div 16"] unfolding that(1) by (simp add: xor_cancel)
  obtain dc' where "encryptAndAuthenticate bo E data seq buf dc =
      Inr ((?c @ tag dc seq ?c @ drop (length data + 12) buf, length data + 12), dc')"
    using encrypt_seals [OF assms, of bo] by blast
  then show ?thesis using one two len by (auto simp: nth_append)
qed

lemma key_stream_repeats_witness:
  "\<exists>out n dc'. encryptAndAuthenticate SAN_LITTLE_ENDIAN sample_cipher (replicate 40 65) 5 (replicate 60 0) (sample_crypt [0, 0]) =
     Inr ((out, n), dc') \<and> out ! 0 XOR out ! 32 = 0"
proof -
  let ?p = "replicate 40 (65 :: byte)"
  obtain out n dc' where e: "encryptAndAuthenticate SAN_LITTLE_ENDIAN sample_cipher ?p 5 (replicate 60 0) (sample_crypt [0, 0]) =
      Inr ((out, n), dc')" and r: "\<forall>j. j + 32 < length ?p \<longrightarrow> out ! j XOR out ! (j + 32) = ?p ! j XOR ?p ! (j + 32)"
    using key_stream_repeats [OF sample_crypt_ok(1,2), of "[0, 0]" ?p 5 "replicate 60 0" SAN_LITTLE_ENDIAN] by auto
  from r [rule_format, of 0] have "out ! 0 XOR out ! 32 = 0" by simp
  with e show ?thesis by blast
qed

text \<open>The bytes that are derived from a session key under a name: hashes of hashes, cut off.\<close>

definition derived :: "hash \<Rightarrow> bytes \<Rightarrow> string \<Rightarrow> nat \<Rightarrow> bytes" where
  "derived h key name n = take n (concat (map (\<lambda>i. h_hash h (key @ (h_hash h ^^ Suc i) (string2bytes name))) [0..<n]))"

lemma derive_loop_stream:
  assumes "hash_ok h" and "len \<le> length r + k * unat (h_outputLen h)"
  shows "\<exists>result. derive_loop h len key s r = Some result \<and> len \<le> length result \<and>
    take len result = take len (r @ concat (map (\<lambda>i. h_hash h (key @ (h_hash h ^^ i) s)) [0..<k]))"
  using assms(2)
proof (induction k arbitrary: s r)
  case 0
  then show ?case by (subst derive_loop.simps) simp
next
  case (Suc k)
  show ?case
  proof (cases "length r < len")
    case False
    then show ?thesis by (subst derive_loop.simps) simp
  next
    case True
    have "map (\<lambda>i. h_hash h (key @ (h_hash h ^^ i) s)) [0..<Suc k] =
        h_hash h (key @ s) # map (\<lambda>i. h_hash h (key @ (h_hash h ^^ i) (h_hash h s))) [0..<k]"
      by (simp add: upt_conv_Cons map_Suc_upt [symmetric] funpow_swap1 del: upt_Suc)
    moreover have "len \<le> length (r @ h_hash h (key @ s)) + k * unat (h_outputLen h)"
      using Suc.prems assms(1) by (simp add: hash_ok_def)
    from Suc.IH [OF this, of "h_hash h s"] True show ?thesis
      unfolding calculation by (subst derive_loop.simps) simp
  qed
qed

lemma length_derived: "hash_ok h \<Longrightarrow> h_outputLen h \<noteq> 0 \<Longrightarrow> length (derived h key name n) = n"
proof -
  assume h: "hash_ok h" "h_outputLen h \<noteq> 0"
  have "length (concat (map (\<lambda>i. h_hash h (f i)) [0..<n])) = n * unat (h_outputLen h)" for f
    using h(1) by (induction n) (simp_all add: hash_ok_def)
  moreover have "1 \<le> unat (h_outputLen h)" using h(2) by (simp add: Suc_le_eq unat_gt_0)
  ultimately show ?thesis by (simp add: derived_def)
qed

lemma deriveBytes_derived:
  assumes "hash_ok h" and "8 \<le> h_outputLen h" and "8 \<le> length name" and "len \<noteq> 0"
  shows "deriveBytes h len name key = Some (Inr (derived h key name (unat len)))"
proof -
  have "1 \<le> unat (h_outputLen h)" using assms(2) by (simp add: word_le_nat_alt)
  then have "unat len \<le> unat len * unat (h_outputLen h)" by simp
  then obtain result where "derive_loop h (unat len) key (h_hash h (string2bytes name)) [] = Some result"
    "unat len \<le> length result" "take (unat len) result = derived h key name (unat len)"
    using derive_loop_stream [OF assms(1), of "unat len" "[]" "unat len" key "h_hash h (string2bytes name)"]
    by (auto simp: derived_def funpow_swap1)
  then show ?thesis
    using assms(2-4)
    by (simp add: deriveBytes_def HASHKEYDERIVATOR_MIN_DERIVSTR_SIZE_def HASHKEYDERIVATOR_MIN_HASHOUT_SIZE_def
        resize_cut not_less [symmetric])
qed

lemma HashKeyDerivator_derives:
  assumes "hash_ok h" and "8 \<le> h_outputLen h" and "16 \<le> length key"
    and "k \<noteq> 0" and "k \<noteq> 16" and "i \<noteq> 0" and "m \<noteq> 0" and "m \<noteq> 8"
  shows "HashKeyDerivator h key k i m = Some (Inr
      \<lparr>mClientEncryptionKey = derived h key ''shell client encryption key'' (unat k),
       mClientIV = derived h key ''shell client encrpytion IV'' (unat i),
       mClientMacKey = derived h key ''shell client MAC key'' (unat m),
       mServerEncryptionKey = derived h key ''shell server encryption key'' (unat k),
       mServerIV = derived h key ''shell server encrpytion IV'' (unat i),
       mServerMacKey = derived h key ''shell server MAC key'' (unat m)\<rparr>)"
  using assms deriveBytes_derived [OF assms(1,2)]
  by (simp add: HashKeyDerivator_def HASHKEYDERIVATOR_MIN_SESSIONKEY_SIZE_def)

text \<open>
  C18. The key derivation ends with six keys of exactly the lengths asked for, each the beginning of
  a stream of hashes of the session key and its own name, so that both ends derive the same keys
  from the same session key, and different directions different ones as far as the hash goes.
\<close>

lemma key_derivation:
  assumes "hash_ok h" and "8 \<le> h_outputLen h" and "16 \<le> length key"
    and "k \<noteq> 0" and "k \<noteq> 16" and "i \<noteq> 0" and "m \<noteq> 0" and "m \<noteq> 8"
  shows "HashKeyDerivator h key k i m = Some (Inr
      \<lparr>mClientEncryptionKey = derived h key ''shell client encryption key'' (unat k),
       mClientIV = derived h key ''shell client encrpytion IV'' (unat i),
       mClientMacKey = derived h key ''shell client MAC key'' (unat m),
       mServerEncryptionKey = derived h key ''shell server encryption key'' (unat k),
       mServerIV = derived h key ''shell server encrpytion IV'' (unat i),
       mServerMacKey = derived h key ''shell server MAC key'' (unat m)\<rparr>) \<and>
    (\<forall>name n. length (derived h key name n) = n)"
proof -
  have "h_outputLen h \<noteq> 0" using assms(2) by auto
  then show ?thesis using HashKeyDerivator_derives [OF assms] length_derived [OF assms(1)] by simp
qed

lemma key_derivation_witness:
  "\<exists>ks. HashKeyDerivator sample_hash (replicate 20 1) 32 6 20 = Some (Inr ks) \<and> length (derived sample_hash (replicate 20 1) ''x'' 6) = 6"
  using key_derivation [of sample_hash "replicate 20 1" 32 6 20] by (simp add: hash_ok_def sample_hash_def)

end
