(* ===== verification/Srp.thy ===== *)
theory Srp
  imports Datagram Hex
begin

text \<open>
  The log-in protocol SRP-6a of \<^verbatim>\<open>src/crypto/dsrp\<close> and its arithmetic in
  \<^verbatim>\<open>src/crypto/ossl/osslmathimpl.cpp\<close>. The hash and the big numbers of OpenSSL are arguments.
  The lemmas show that the two ends agree on a key when the password is right, and when the two
  ends hash different paddings of the same value.
\<close>

section \<open>The group: \<^verbatim>\<open>Ng\<close>\<close>

definition constant_1024_N :: string where
  "constant_1024_N =
     ''EEAF0AB9ADB38DD69C33F80AFA8FC5E86072618775FF3C0B9EA2314C9C256576D674DF7496EA81D3383B4813D6'' @
     ''92C6E0E0D5D8E250B98BE48E495C1D6089DAD15DC7D7B46154D6B6CE8EF4AD69B15D4982559B297BCF1885C529'' @
     ''F566660E57EC68EDBC3C05726CC02FD4CBF4976EAA9AFD5138FE8376435B9FC61D2FC0EB06E3''"

definition constant_1024_g :: string where
  "constant_1024_g =
     ''02''"

definition constant_2048_N :: string where
  "constant_2048_N =
     ''AC6BDB41324A9A9BF166DE5E1389582FAF72B6651987EE07FC3192943DB56050A37329CBB4A099ED8193E07577'' @
     ''67A13DD52312AB4B03310DCD7F48A9DA04FD50E8083969EDB767B0CF6095179A163AB3661A05FBD5FAAAE82918'' @
     ''A9962F0B93B855F97993EC975EEAA80D740ADBF4FF747359D041D5C33EA71D281E446B14773BCA97B43A23FB80'' @
     ''1676BD207A436C6481F1D2B9078717461A5B9D32E688F87748544523B524B0D57D5EA77A2775D2ECFA032CFBDB'' @
     ''F52FB3786160279004E57AE6AF874E7303CE53299CCC041C7BC308D82A5698F3A8D0C38271AE35F8E9DBFBB694'' @
     ''B5C803D89F7AE435DE236D525F54759B65E372FCD68EF20FA7111F9E4AFF73''"

definition constant_2048_g :: string where
  "constant_2048_g =
     ''02''"

definition constant_4096_N :: string where
  "constant_4096_N =
     ''FFFFFFFFFFFFFFFFC90FDAA22168C234C4C6628B80DC1CD129024E088A67CC74020BBEA63B139B22514A08798E'' @
     ''3404DDEF9519B3CD3A431B302B0A6DF25F14374FE1356D6D51C245E485B576625E7EC6F44C42E9A637ED6B0BFF'' @
     ''5CB6F406B7EDEE386BFB5A899FA5AE9F24117C4B1FE649286651ECE45B3DC2007CB8A163BF0598DA48361C55D3'' @
     ''9A69163FA8FD24CF5F83655D23DCA3AD961C62F356208552BB9ED529077096966D670C354E4ABC9804F1746C08'' @
     ''CA18217C32905E462E36CE3BE39E772C180E86039B2783A2EC07A28FB5C55DF06F4C52C9DE2BCBF69558171839'' @
     ''95497CEA956AE515D2261898FA051015728E5A8AAAC42DAD33170D04507A33A85521ABDF1CBA64ECFB850458DB'' @
     ''EF0A8AEA71575D060C7DB3970F85A6E1E4C7ABF5AE8CDB0933D71E8C94E04A25619DCEE3D2261AD2EE6BF12FFA'' @
     ''06D98A0864D87602733EC86A64521F2B18177B200CBBE117577A615D6C770988C0BAD946E208E24FA074E5AB31'' @
     ''43DB5BFCE0FD108E4B82D120A92108011A723C12A787E6D788719A10BDBA5B2699C327186AF4E23C1A946834B6'' @
     ''150BDA2583E9CA2AD44CE8DBBBC2DB04DE8EF92E8EFC141FBECAA6287C59474E6BC05D99B2964FA090C3A2233B'' @
     ''A186515BE7ED1F612970CEE2D7AFB81BDD762170481CD0069127D5B05AA993B4EA988D8FDDC186FFB7DC90A6C0'' @
     ''8F4DF435C934063199FFFFFFFFFFFFFFFF''"

definition constant_4096_g :: string where
  "constant_4096_g =
     ''05''"

definition constant_8192_N :: string where
  "constant_8192_N =
     ''FFFFFFFFFFFFFFFFC90FDAA22168C234C4C6628B80DC1CD129024E088A67CC74020BBEA63B139B22514A08798E'' @
     ''3404DDEF9519B3CD3A431B302B0A6DF25F14374FE1356D6D51C245E485B576625E7EC6F44C42E9A637ED6B0BFF'' @
     ''5CB6F406B7EDEE386BFB5A899FA5AE9F24117C4B1FE649286651ECE45B3DC2007CB8A163BF0598DA48361C55D3'' @
     ''9A69163FA8FD24CF5F83655D23DCA3AD961C62F356208552BB9ED529077096966D670C354E4ABC9804F1746C08'' @
     ''CA18217C32905E462E36CE3BE39E772C180E86039B2783A2EC07A28FB5C55DF06F4C52C9DE2BCBF69558171839'' @
     ''95497CEA956AE515D2261898FA051015728E5A8AAAC42DAD33170D04507A33A85521ABDF1CBA64ECFB850458DB'' @
     ''EF0A8AEA71575D060C7DB3970F85A6E1E4C7ABF5AE8CDB0933D71E8C94E04A25619DCEE3D2261AD2EE6BF12FFA'' @
     ''06D98A0864D87602733EC86A64521F2B18177B200CBBE117577A615D6C770988C0BAD946E208E24FA074E5AB31'' @
     ''43DB5BFCE0FD108E4B82D120A92108011A723C12A787E6D788719A10BDBA5B2699C327186AF4E23C1A946834B6'' @
     ''150BDA2583E9CA2AD44CE8DBBBC2DB04DE8EF92E8EFC141FBECAA6287C59474E6BC05D99B2964FA090C3A2233B'' @
     ''A186515BE7ED1F612970CEE2D7AFB81BDD762170481CD0069127D5B05AA993B4EA988D8FDDC186FFB7DC90A6C0'' @
     ''8F4DF435C93402849236C3FAB4D27C7026C1D4DCB2602646DEC9751E763DBA37BDF8FF9406AD9E530EE5DB382F'' @
     ''413001AEB06A53ED9027D831179727B0865A8918DA3EDBEBCF9B14ED44CE6CBACED4BB1BDB7F1447E6CC254B33'' @
     ''2051512BD7AF426FB8F401378CD2BF5983CA01C64B92ECF032EA15D1721D03F482D7CE6E74FEF6D55E702F4698'' @
     ''0C82B5A84031900B1C9E59E7C97FBEC7E8F323A97A7E36CC88BE0F1D45B7FF585AC54BD407B22B4154AACC8F6D'' @
     ''7EBF48E1D814CC5ED20F8037E0A79715EEF29BE32806A1D58BB7C5DA76F550AA3D8A1FBFF0EB19CCB1A313D55C'' @
     ''DA56C9EC2EF29632387FE8D76E3C0468043E8F663F4860EE12BF2D5B0B7474D6E694F91E6DBE115974A3926F12'' @
     ''FEE5E438777CB6A932DF8CD8BEC4D073B931BA3BC832B68D9DD300741FA7BF8AFC47ED2576F6936BA424663AAB'' @
     ''639C5AE4F5683423B4742BF1C978238F16CBE39D652DE3FDB8BEFC848AD922222E04A4037C0713EB57A81A23F0'' @
     ''C73473FC646CEA306B4BCBC8862F8385DDFA9D4B7FA2C087E879683303ED5BDD3A062B3CF5B3A278A66D2A13F8'' @
     ''3F44F82DDF310EE074AB6A364597E899A0255DC164F31CC50846851DF9AB48195DED7EA1B1D510BD7EE74D73FA'' @
     ''F36BC31ECFA268359046F4EB879F924009438B481C6CD7889A002ED5EE382BC9190DA6FC026E479558E4475677'' @
     ''E9AA9E3050E2765694DFC81F56E880B96E7160C980DD98EDD3DFFFFFFFFFFFFFFFFF''"

definition constant_8192_g :: string where
  "constant_8192_g =
     ''13''"

record ng =
  ng_N :: bytes
  ng_g :: bytes

definition predefined :: "u32 \<Rightarrow> ng run" where
  "predefined bitlen =
     (let group = (\<lambda>n g. run_bind (hexstring2bytes n) (\<lambda>n. run_bind (hexstring2bytes g) (\<lambda>g. Inr \<lparr>ng_N = n, ng_g = g\<rparr>)))
      in if bitlen = 1024 then group constant_1024_N constant_1024_g
         else if bitlen = 2048 then group constant_2048_N constant_2048_g
         else if bitlen = 4096 then group constant_4096_N constant_4096_g
         else if bitlen = 8192 then group constant_8192_N constant_8192_g
         else Inl (Thrown ''The bit len you have selected in Ng::predifined is unknown''))"

section \<open>Big numbers\<close>

text \<open>
  What the code uses of OpenSSL's \<^verbatim>\<open>BIGNUM\<close>, on integers, and what its documentation says of
  the calls: \<^verbatim>\<open>BN_bin2bn\<close> reads a number in big-endian form, \<^verbatim>\<open>BN_bn2bin\<close> writes the
  \<^verbatim>\<open>BN_num_bytes\<close> bytes of one, without leading zeros.
\<close>

record bignum =
  BN_bin2bn :: "bytes \<Rightarrow> int"
  BN_bn2bin :: "int \<Rightarrow> bytes"
  BN_num_bytes :: "int \<Rightarrow> nat"
  BN_sub :: "int \<Rightarrow> int \<Rightarrow> int"
  BN_mod :: "int \<Rightarrow> int \<Rightarrow> int"
  BN_mod_add :: "int \<Rightarrow> int \<Rightarrow> int \<Rightarrow> int"
  BN_mod_mul :: "int \<Rightarrow> int \<Rightarrow> int \<Rightarrow> int"
  BN_mod_exp :: "int \<Rightarrow> int \<Rightarrow> int \<Rightarrow> int"

definition bignum_ok :: "bignum \<Rightarrow> bool" where
  "bignum_ok L \<longleftrightarrow>
     (\<forall>b. BN_bin2bn L b = foldl (\<lambda>n x. 256 * n + int (unat x)) 0 b) \<and>
     (\<forall>n. n \<ge> 0 \<longrightarrow> BN_bin2bn L (BN_bn2bin L n) = n \<and> length (BN_bn2bin L n) = BN_num_bytes L n \<and>
        (BN_bn2bin L n = [] \<or> hd (BN_bn2bin L n) \<noteq> 0)) \<and>
     (\<forall>a b. BN_sub L a b = a - b) \<and>
     (\<forall>a m. a \<ge> 0 \<and> m > 0 \<longrightarrow> BN_mod L a m = a mod m) \<and>
     (\<forall>a b m. m > 0 \<longrightarrow> BN_mod_add L a b m = (a + b) mod m \<and> BN_mod_mul L a b m = a * b mod m) \<and>
     (\<forall>a p m. p \<ge> 0 \<and> m > 0 \<longrightarrow> BN_mod_exp L a p m = a ^ nat p mod m)"

section \<open>\<^verbatim>\<open>OsslMathImpl\<close>\<close>

record srp_math =
  sm_hash :: hash
  sm_N :: int
  sm_g :: int
  sm_k :: int

text \<open>The length that \<^verbatim>\<open>both\<close> is resized to wraps around when the generator is too long.\<close>

definition OsslMathImpl :: "bignum \<Rightarrow> hash \<Rightarrow> ng \<Rightarrow> srp_math run" where
  "OsslMathImpl L h ngVal =
     (let NN = ng_N ngVal; gg = ng_g ngVal
      in if 2 * length NN < length gg then Inl (Thrown ''vector::_M_default_append'')
         else
           let both = resize (2 * length NN - length gg) 0 (NN @ [0]) @ gg;
               kk = h_hash h both
           in Inr \<lparr>sm_hash = h, sm_N = BN_bin2bn L NN, sm_g = BN_bin2bn L gg, sm_k = BN_bin2bn L kk\<rparr>)"

definition checkNg :: "srp_math \<Rightarrow> unit run" where
  "checkNg m =
     (if sm_N m = 0 then Inl (Thrown ''OsslMathImpl: N was not set'')
      else if sm_g m = 0 then Inl (Thrown ''OsslMathImpl: g was not set'')
      else if sm_k m = 0 then Inl (Thrown ''OsslMathImpl: k was not set'')
      else Inr ())"

definition calculateA :: "bignum \<Rightarrow> srp_math \<Rightarrow> bytes \<Rightarrow> bytes run" where
  "calculateA L m aa =
     (if length aa = 0 then Inl (Thrown ''OsslMathImpl::calculateA: Zero parameter detected. (aa)'')
      else run_bind (checkNg m) (\<lambda>_.
        let a = BN_bin2bn L aa;
            A = BN_mod_exp L (sm_g m) a (sm_N m)
        in Inr (BN_bn2bin L A)))"

text \<open>\<open>x = H(salt || H(username || ":" || password))\<close>, as both the client and the maker of verificators compute it.\<close>

definition calculate_x :: "hash \<Rightarrow> bytes \<Rightarrow> bytes \<Rightarrow> bytes \<Rightarrow> bytes" where
  "calculate_x h username password salt =
     (let ucp = username @ [58] @ password;
          hashUcp = h_hash h ucp
      in h_hash h (salt @ hashUcp))"

definition calculateVerificator :: "bignum \<Rightarrow> srp_math \<Rightarrow> bytes \<Rightarrow> bytes \<Rightarrow> bytes \<Rightarrow> bytes run" where
  "calculateVerificator L m username password salt =
     (if length username = 0 \<or> length password = 0 \<or> length salt = 0
      then Inl (Thrown ''Create verificator null parameter.'')
      else
        let x = BN_bin2bn L (calculate_x (sm_hash m) username password salt);
            v = BN_mod_exp L (sm_g m) x (sm_N m)
        in Inr (BN_bn2bin L v))"

text \<open>
  \<open>u = H(PAD(A) || PAD(B))\<close>: what is hashed. The client puts \<open>A\<close> before its padding, and at
  both ends the padding of \<open>B\<close> resizes the whole vector.
\<close>

definition client_cu :: "nat \<Rightarrow> bytes \<Rightarrow> bytes \<Rightarrow> bytes" where
  "client_cu len_N AA BB =
     (let cu = [];
          cu = (if length AA < len_N then resize (len_N - length AA) 0 (cu @ [0]) else cu);
          cu = AA @ cu;
          cu = (if length BB < len_N then resize (len_N - length BB) 0 (cu @ [0]) else cu)
      in cu @ BB)"

definition server_cu :: "nat \<Rightarrow> bytes \<Rightarrow> bytes \<Rightarrow> bytes" where
  "server_cu len_N AA BB =
     (let cu = [];
          cu = (if length AA < len_N then resize (len_N - length AA) 0 (cu @ [0]) else cu);
          cu = cu @ AA;
          cu = (if length BB < len_N then resize (len_N - length BB) 0 (cu @ [0]) else cu)
      in cu @ BB)"

text \<open>
  The loops of \<^verbatim>\<open>interleaveS\<close> take every second byte; the second one overwrites the vector of
  the first. Whether a byte is skipped depends on the length with the leading zeros.
\<close>

fun every_second :: "bytes \<Rightarrow> bytes" where
  "every_second [] = []"
| "every_second [x] = [x]"
| "every_second (x # y # zs) = x # every_second zs"

definition interleaveS :: "hash \<Rightarrow> bytes \<Rightarrow> bytes run" where
  "interleaveS h S =
     (if length S = 0 then Inl (Thrown ''OsslMathImpl::interleaveS: Zero parameter detected. (S)'')
      else
        let i = length (takeWhile (\<lambda>x. x = 0) S);
            i = (if length S mod 2 \<noteq> 0 then i + 1 else i)
        in if i = length S then Inl (Thrown ''OsslMathImpl::interleaveS: something went terribly wrong'')
           else
             let halfLen = length S div 2;
                 E = replicate halfLen 0;
                 even = every_second (drop i S);
                 odd = every_second (drop (i + 1) S)
             in if length even > halfLen \<or> length odd > halfLen then Inl OutOfRange
                else
                  let E = copy_at 0 even E;
                      G = h_hash h E;
                      E = copy_at 0 odd E;
                      H = h_hash h E
                  in Inr (concat (map (\<lambda>i. [G ! i, H ! i]) [0..<unat (h_outputLen h)])))"

definition session_key :: "hash \<Rightarrow> bool \<Rightarrow> bytes \<Rightarrow> bytes run" where
  "session_key h interleave SS = (if \<not> interleave then Inr (h_hash h SS) else interleaveS h SS)"

definition calculateM1 :: "bignum \<Rightarrow> srp_math \<Rightarrow> bytes \<Rightarrow> bytes \<Rightarrow> bytes \<Rightarrow> bytes \<Rightarrow> bytes \<Rightarrow> bytes run" where
  "calculateM1 L m username s A B K =
     (if length username = 0 then Inl (Thrown ''OsslMathImpl::calculateM1: Zero parameter detected. (username)'')
      else if length s = 0 then Inl (Thrown ''OsslMathImpl::calculateM1: Zero parameter detected. (s)'')
      else if length A = 0 then Inl (Thrown ''OsslMathImpl::calculateM1: Zero parameter detected. (A)'')
      else if length B = 0 then Inl (Thrown ''OsslMathImpl::calculateM1: Zero parameter detected. (B)'')
      else if length K = 0 then Inl (Thrown ''OsslMathImpl::calculateM1: Zero parameter detected. (K)'')
      else
        let h = sm_hash m;
            H_N = h_hash h (BN_bn2bin L (sm_N m));
            H_g = h_hash h (BN_bn2bin L (sm_g m));
            H_username = h_hash h username;
            H_xor = map (\<lambda>i. H_N ! i XOR H_g ! i) [0..<unat (h_outputLen h)]
        in Inr (h_hash h (H_xor @ H_username @ s @ A @ B @ K)))"

text \<open>The result of the challenges: the out parameters \<open>M1\<close>, \<open>M2\<close> and \<open>K\<close>, for the server \<open>B\<close> before them.\<close>

definition clientChallange ::
  "bignum \<Rightarrow> srp_math \<Rightarrow> bytes \<Rightarrow> bytes \<Rightarrow> bytes \<Rightarrow> bytes \<Rightarrow> bytes \<Rightarrow> bytes \<Rightarrow> bool \<Rightarrow> (bytes \<times> bytes \<times> bytes) run" where
  "clientChallange L m salt aa AA BB username password interleave =
     (if length salt = 0 then Inl (Thrown ''OsslMathImpl::clientChallange: Zero parameter detected. (salt)'')
      else if length aa = 0 then Inl (Thrown ''OsslMathImpl::clientChallange: Zero parameter detected. (aa)'')
      else if length AA = 0 then Inl (Thrown ''OsslMathImpl::clientChallange: Zero parameter detected. (AA)'')
      else if length BB = 0 then Inl (Thrown ''OsslMathImpl::clientChallange: Zero parameter detected. (BB)'')
      else if length username = 0 then Inl (Thrown ''OsslMathImpl::clientChallange: Zero parameter detected. (username)'')
      else if length password = 0 then Inl (Thrown ''OsslMathImpl::clientChallange: Zero parameter detected. (password)'')
      else run_bind (checkNg m) (\<lambda>_.
        let h = sm_hash m; N = sm_N m;
            u = BN_bin2bn L (h_hash h (client_cu (BN_num_bytes L N) AA BB));
            B = BN_bin2bn L BB;
            x = BN_bin2bn L (calculate_x h username password salt)
        in if B = 0 \<or> u = 0 then Inl (Thrown ''Dsrp:Authentification failed:B or u is zero.'')
           else
             let a = BN_bin2bn L aa;
                 tmp1 = BN_mod_mul L u x N;
                 tmp2 = BN_mod_add L a tmp1 N;
                 tmp1 = BN_mod_exp L (sm_g m) x N;
                 tmp3 = BN_mod_mul L (sm_k m) tmp1 N;
                 tmp1 = BN_sub L B tmp3;
                 S = BN_mod_exp L tmp1 tmp2 N
             in run_bind (session_key h interleave (BN_bn2bin L S)) (\<lambda>K.
                run_bind (calculateM1 L m username salt AA BB K) (\<lambda>M1.
                  Inr (M1, h_hash h (AA @ M1 @ K), K)))))"

definition serverChallange ::
  "bignum \<Rightarrow> srp_math \<Rightarrow> bytes \<Rightarrow> bytes \<Rightarrow> bytes \<Rightarrow> bytes \<Rightarrow> bytes \<Rightarrow> bool \<Rightarrow> (bytes \<times> bytes \<times> bytes \<times> bytes) run" where
  "serverChallange L m username salt verificator AA bb interleave =
     (if length username = 0 then Inl (Thrown ''OsslMathImpl::serverChallange: Zero parameter detected. (username)'')
      else if length salt = 0 then Inl (Thrown ''OsslMathImpl::serverChallange: Zero parameter detected. (salt)'')
      else if length verificator = 0 then Inl (Thrown ''OsslMathImpl::serverChallange: Zero parameter detected. (verificator)'')
      else if length AA = 0 then Inl (Thrown ''OsslMathImpl::serverChallange: Zero parameter detected. (AA)'')
      else if length bb = 0 then Inl (Thrown ''OsslMathImpl::serverChallange: Zero parameter detected. (bb)'')
      else run_bind (checkNg m) (\<lambda>_.
        let h = sm_hash m; N = sm_N m;
            A = BN_bin2bn L AA; b = BN_bin2bn L bb; v = BN_bin2bn L verificator
        in if BN_mod L A N = 0 \<or> v = 0
           then Inl (Thrown ''Dsrp:Authentification failed:serverChalange: invalid parameters'')
           else
             let tmp1 = BN_mod_mul L (sm_k m) v N;
                 tmp2 = BN_mod_exp L (sm_g m) b N;
                 B_out = BN_bn2bin L (BN_mod_add L tmp1 tmp2 N);
                 u = BN_bin2bn L (h_hash h (server_cu (BN_num_bytes L N) AA B_out));
                 tmp1 = BN_mod_exp L v u N;
                 tmp2 = BN_mod_mul L A tmp1 N;
                 S = BN_mod_exp L tmp2 b N
             in run_bind (session_key h interleave (BN_bn2bin L S)) (\<lambda>K.
                run_bind (calculateM1 L m username salt AA B_out K) (\<lambda>M1.
                  Inr (B_out, M1, h_hash h (AA @ M1 @ K), K)))))"

section \<open>\<^verbatim>\<open>SrpClient\<close>\<close>

record authenticator =
  sca_username :: bytes
  sca_password :: bytes
  sca_a :: bytes
  sca_A :: bytes
  sca_K :: bytes
  M2_calculated :: bytes

text \<open>\<open>rnd\<close> is what \<^verbatim>\<open>random.getRandom(32)\<close> does: 32 bytes, or throwing.\<close>

definition getAuthenticator :: "bignum \<Rightarrow> srp_math \<Rightarrow> bytes run \<Rightarrow> bytes \<Rightarrow> bytes \<Rightarrow> authenticator run" where
  "getAuthenticator L m rnd username password =
     run_bind rnd (\<lambda>a. run_bind (calculateA L m a) (\<lambda>A.
       Inr \<lparr>sca_username = username, sca_password = password, sca_a = a, sca_A = A, sca_K = [], M2_calculated = []\<rparr>))"

definition getM1 :: "bignum \<Rightarrow> srp_math \<Rightarrow> bool \<Rightarrow> bytes \<Rightarrow> bytes \<Rightarrow> authenticator \<Rightarrow> (bytes \<times> authenticator) run" where
  "getM1 L m interleave salt B sca =
     run_bind (clientChallange L m salt (sca_a sca) (sca_A sca) B (sca_username sca) (sca_password sca) interleave)
       (\<lambda>(M1, M2, K). Inr (M1, sca\<lparr>M2_calculated := M2, sca_K := K\<rparr>))"

definition getSessionKey :: "bytes \<Rightarrow> authenticator \<Rightarrow> bytes run" where
  "getSessionKey M2_from_server sca =
     (if length M2_from_server = 0 then Inl (Thrown ''SrpClientAuthenticator::getSessionKey: M2_from_server.size() == 0'')
      else if length (M2_calculated sca) = 0
      then Inl (Thrown ''SrpClientAuthenticator::getSessionKey: M2_calculated.size() == 0'')
      else if M2_from_server \<noteq> M2_calculated sca then Inl (Thrown ''Authentification failed, bad password'')
      else Inr (sca_K sca))"

section \<open>\<^verbatim>\<open>SrpServer\<close>\<close>

record user =
  usr_username :: bytes
  usr_verificator :: bytes
  usr_salt :: bytes

type_synonym lookup = "bytes \<Rightarrow> user option"

definition getByName :: "bytes \<Rightarrow> lookup \<Rightarrow> user run" where
  "getByName username db = (case db username of None \<Rightarrow> Inl (Thrown ''User not found.'') | Some u \<Rightarrow> Inr u)"

definition userAdd :: "user \<Rightarrow> lookup \<Rightarrow> bool \<times> lookup" where
  "userAdd u db =
     (case db (usr_username u) of Some _ \<Rightarrow> (False, db) | None \<Rightarrow> (True, db(usr_username u \<mapsto> u)))"

definition clearDb :: "lookup \<Rightarrow> lookup" where "clearDb db = Map.empty"

record verificator =
  ver_salt :: bytes
  ver_B :: bytes
  calc_M1 :: bytes
  calc_M2 :: bytes
  ver_username :: bytes
  ver_K :: bytes

definition getVerificator :: "bignum \<Rightarrow> srp_math \<Rightarrow> bool \<Rightarrow> lookup \<Rightarrow> bytes run \<Rightarrow> bytes \<Rightarrow> bytes \<Rightarrow> verificator run" where
  "getVerificator L m interleave db rnd username AA =
     run_bind (getByName username db) (\<lambda>usr.
     run_bind rnd (\<lambda>b.
     run_bind (serverChallange L m username (usr_salt usr) (usr_verificator usr) AA b interleave) (\<lambda>(B, M1, M2, K).
       Inr \<lparr>ver_salt = usr_salt usr, ver_B = B, calc_M1 = M1, calc_M2 = M2, ver_username = username, ver_K = K\<rparr>)))"

definition authenticate :: "bytes \<Rightarrow> verificator \<Rightarrow> (bytes \<times> bytes) run" where
  "authenticate M1_from_client ver =
     (if length (calc_M1 ver) = 0 then Inl (Thrown ''SrpVerificator::authenticate: calc_M1.size() == 0'')
      else if length M1_from_client = 0 then Inl (Thrown ''SrpVerificator::authenticate: M1_from_client.size() == 0'')
      else if calc_M1 ver \<noteq> M1_from_client then Inl (Thrown ''Authentification failed; possibly wrong password'')
      else Inr (calc_M2 ver, ver_K ver))"

section \<open>The shared secret\<close>

lemma bin2bn_ge0: "bignum_ok L \<Longrightarrow> 0 \<le> BN_bin2bn L b"
proof -
  have "0 \<le> n \<Longrightarrow> 0 \<le> foldl (\<lambda>n x. 256 * n + int (unat x)) n b" for n
    by (induction b arbitrary: n) simp_all
  then show "bignum_ok L \<Longrightarrow> 0 \<le> BN_bin2bn L b" by (simp add: bignum_ok_def)
qed

lemma bn2bin_empty: "bignum_ok L \<Longrightarrow> 0 \<le> n \<Longrightarrow> BN_bn2bin L n = [] \<longleftrightarrow> n = 0"
proof
  assume L: "bignum_ok L" "0 \<le> n" and "BN_bn2bin L n = []"
  then have "BN_bin2bn L [] = n" unfolding bignum_ok_def by metis
  then show "n = 0" using L(1) by (simp add: bignum_ok_def)
next
  have ge: "0 \<le> n \<Longrightarrow> n \<le> foldl (\<lambda>n x. 256 * n + int (unat x)) n b" for n and b :: bytes
  proof (induction b arbitrary: n)
    case (Cons x b)
    have "n \<le> 256 * n + int (unat x)" using Cons.prems by (simp add: add_increasing2)
    also have "\<dots> \<le> foldl (\<lambda>n x. 256 * n + int (unat x)) (256 * n + int (unat x)) b"
      using Cons.prems by (intro Cons.IH) simp
    finally show ?case by simp
  qed simp
  assume L: "bignum_ok L" and n: "n = 0"
  show "BN_bn2bin L n = []"
  proof (rule ccontr)
    assume "BN_bn2bin L n \<noteq> []"
    then obtain x b where b: "BN_bn2bin L n = x # b" by (cases "BN_bn2bin L n") auto
    have r: "BN_bin2bn L (BN_bn2bin L n) = n \<and> (BN_bn2bin L n = [] \<or> hd (BN_bn2bin L n) \<noteq> 0)"
      using L n unfolding bignum_ok_def by blast
    then have "x \<noteq> 0" by (simp add: b)
    then have "0 < unat x" by (simp add: unat_gt_0)
    then have "0 < int (unat x)" by linarith
    moreover have "int (unat x) \<le> foldl (\<lambda>n x. 256 * n + int (unat x)) (int (unat x)) b" by (rule ge) simp
    moreover have "BN_bin2bn L (x # b) = foldl (\<lambda>n x. 256 * n + int (unat x)) (int (unat x)) b"
      using L by (simp add: bignum_ok_def)
    moreover have "BN_bin2bn L (x # b) = 0" using r n b by metis
    ultimately show False by linarith
  qed
qed

lemma srp_secret:
  fixes N g k :: int and a b u x :: nat
  shows "((k * (g ^ x mod N) mod N + g ^ b mod N) mod N - k * (g ^ x mod N) mod N) ^ (a + u * x) mod N =
    ((g ^ a mod N) * ((g ^ x mod N) ^ u mod N) mod N) ^ b mod N"
proof -
  let ?B = "(k * (g ^ x mod N) mod N + g ^ b mod N) mod N - k * (g ^ x mod N) mod N"
  have "?B mod N = g ^ b mod N" by (simp add: mod_simps)
  then have "?B ^ (a + u * x) mod N = (g ^ b) ^ (a + u * x) mod N" by (metis power_mod)
  also have "(g ^ b) ^ (a + u * x) = (g ^ a * (g ^ x) ^ u) ^ b"
    by (simp add: power_mult [symmetric] power_add [symmetric] power_mult_distrib algebra_simps)
  also have "\<dots> mod N = ((g ^ a mod N) * ((g ^ x mod N) ^ u mod N) mod N) ^ b mod N"
    by (simp add: power_mod mod_mult_eq)
  finally show ?thesis .
qed

lemma cu_full: "length A = len \<Longrightarrow> client_cu len A B = server_cu len A B"
  by (simp add: client_cu_def server_cu_def)

text \<open>The public value of the server and the exponents of an exchange, as numbers.\<close>

definition public_B :: "bignum \<Rightarrow> srp_math \<Rightarrow> bytes \<Rightarrow> bytes \<Rightarrow> bytes" where
  "public_B L m v b = BN_bn2bin L ((sm_k m * BN_bin2bn L v mod sm_N m +
      sm_g m ^ nat (BN_bin2bn L b) mod sm_N m) mod sm_N m)"

definition scramble :: "bignum \<Rightarrow> srp_math \<Rightarrow> bytes \<Rightarrow> bytes \<Rightarrow> int" where
  "scramble L m A B = BN_bin2bn L (h_hash (sm_hash m) (server_cu (BN_num_bytes L (sm_N m)) A B))"

definition password_exponent :: "bignum \<Rightarrow> srp_math \<Rightarrow> bytes \<Rightarrow> bytes \<Rightarrow> bytes \<Rightarrow> int" where
  "password_exponent L m username password salt = BN_bin2bn L (calculate_x (sm_hash m) username password salt)"

definition secret :: "bignum \<Rightarrow> srp_math \<Rightarrow> bytes \<Rightarrow> bytes \<Rightarrow> bytes \<Rightarrow> int \<Rightarrow> bytes" where
  "secret L m A v b u = BN_bn2bin L ((BN_bin2bn L A * (BN_bin2bn L v ^ nat u mod sm_N m) mod sm_N m) ^ nat (BN_bin2bn L b) mod sm_N m)"

lemma length_every_second: "length (every_second xs) = (length xs + 1) div 2"
  by (induction xs rule: every_second.induct) simp_all

text \<open>Without leading zeros the interleaved hash fails on strings of less than two bytes only.\<close>

lemma interleaveS_succeeds:
  assumes "2 \<le> length S" and "hd S \<noteq> 0"
  shows "\<exists>K. interleaveS h S = Inr K \<and> length K = 2 * unat (h_outputLen h)"
proof -
  have i: "takeWhile (\<lambda>x. x = 0) S = []" using assms(1,2) by (cases S) auto
  have "length (concat (map (\<lambda>i. [G ! i, H ! i]) [0..<n])) = 2 * n" for G H :: bytes and n
    by (induction n) simp_all
  moreover have "length (every_second (drop 1 S)) \<le> length S div 2" using assms(1) by (simp add: length_every_second)
  moreover have "length S mod 2 = 0 \<Longrightarrow> length (every_second S) \<le> length S div 2"
    by (simp add: length_every_second flip: even_iff_mod_2_eq_zero)
  moreover have "length (every_second (drop 2 S)) \<le> length S div 2" by (simp add: length_every_second)
  moreover have "S \<noteq> []" using assms(1) by auto
  ultimately show ?thesis
    using assms(1) by (cases "length S mod 2 = 0") (simp_all add: interleaveS_def Let_def i numeral_2_eq_2)
qed

lemma interleaveS_short: "length S < 2 \<Longrightarrow> S = [] \<or> hd S \<noteq> 0 \<Longrightarrow> \<exists>e. interleaveS h S = Inl e"
  by (cases S) (auto simp: interleaveS_def)

text \<open>
  An exchange in which no value degenerates: \<open>A\<close> is as long as the modulus, \<open>B\<close> and \<open>u\<close> are not
  zero, the client's exponent does not wrap around at the modulus, and, with an interleaved key,
  the shared secret has two bytes.
\<close>

definition exchange_ok :: "bignum \<Rightarrow> srp_math \<Rightarrow> bool \<Rightarrow> user \<Rightarrow> bytes \<Rightarrow> bytes \<Rightarrow> bytes \<Rightarrow> bytes \<Rightarrow> bytes \<Rightarrow> bool" where
  "exchange_ok L m interleave u0 username password a b A \<longleftrightarrow>
     (let B = public_B L m (usr_verificator u0) b; u = scramble L m A B
      in length A = BN_num_bytes L (sm_N m) \<and> B \<noteq> [] \<and> u \<noteq> 0 \<and>
         (interleave \<longrightarrow> 2 \<le> length (secret L m A (usr_verificator u0) b u)) \<and>
         BN_bin2bn L a + u * password_exponent L m username password (usr_salt u0) < sm_N m)"

text \<open>Both ends compute the same proofs and the same key.\<close>

lemma srp_exchange:
  assumes L: "bignum_ok L" and h: "hash_ok (sm_hash m)" "h_outputLen (sm_hash m) \<noteq> 0"
    and m: "checkNg m = Inr ()" "sm_N m > 0"
    and user: "db username = Some u0" "calculateVerificator L m username password (usr_salt u0) = Inr (usr_verificator u0)"
    and "usr_verificator u0 \<noteq> []" and "a \<noteq> []" and "b \<noteq> []"
    and auth: "getAuthenticator L m (Inr a) username password = Inr sca"
    and ex: "exchange_ok L m interleave u0 username password a b (sca_A sca)"
  shows "\<exists>ver M1 M2 K. getVerificator L m interleave db (Inr b) username (sca_A sca) = Inr ver \<and>
    ver_salt ver = usr_salt u0 \<and> ver_B ver = public_B L m (usr_verificator u0) b \<and>
    calc_M1 ver = M1 \<and> calc_M2 ver = M2 \<and> ver_K ver = K \<and>
    getM1 L m interleave (ver_salt ver) (ver_B ver) sca = Inr (M1, sca\<lparr>M2_calculated := M2, sca_K := K\<rparr>) \<and>
    length M1 = unat (h_outputLen (sm_hash m)) \<and> length M2 = unat (h_outputLen (sm_hash m)) \<and>
    unat (h_outputLen (sm_hash m)) \<le> length K"
proof -
  let ?N = "sm_N m" and ?g = "sm_g m" and ?k = "sm_k m" and ?h = "sm_hash m" and ?A = "sca_A sca"
  let ?salt = "usr_salt u0" and ?v = "usr_verificator u0"
  define B where "B = public_B L m ?v b"
  define u where "u = scramble L m ?A B"
  define x where "x = password_exponent L m username password ?salt"
  have auth_len: "length ?A = BN_num_bytes L ?N" and degenerate: "B \<noteq> []" "u \<noteq> 0" "BN_bin2bn L a + u * x < ?N"
    and long: "interleave \<longrightarrow> 2 \<le> length (secret L m ?A ?v b u)"
    using ex by (simp_all add: exchange_ok_def B_def u_def x_def Let_def)
  note B_def = B_def [unfolded public_B_def] and u_def = u_def [unfolded scramble_def]
    and x_def = x_def [unfolded password_exponent_def]
  have ok: "BN_sub L c d = c - d" "BN_mod_add L c d ?N = (c + d) mod ?N" "BN_mod_mul L c d ?N = c * d mod ?N"
    "0 \<le> p \<Longrightarrow> BN_mod_exp L c p ?N = c ^ nat p mod ?N" "0 \<le> n \<Longrightarrow> BN_bin2bn L (BN_bn2bin L n) = n"
    "0 \<le> n \<Longrightarrow> BN_mod L n ?N = n mod ?N" for c d p n
    using L m(2) unfolding bignum_ok_def by blast+
  note ge = bin2bn_ge0 [OF L]
  have nonempty: "username \<noteq> []" "password \<noteq> []" "?salt \<noteq> []"
    and v: "?v = BN_bn2bin L (?g ^ nat x mod ?N)"
    using user(2) ge by (auto simp: calculateVerificator_def ok x_def split: if_splits)
  then have vn: "BN_bin2bn L ?v = ?g ^ nat x mod ?N" using m(2) by (simp add: ok)
  moreover have "?v \<noteq> []" by fact
  ultimately have v0: "BN_bin2bn L ?v \<noteq> 0" using v bn2bin_empty [OF L, of "?g ^ nat x mod ?N"] m(2) by simp
  have sca: "sca_a sca = a" "sca_username sca = username" "sca_password sca = password"
    and A: "?A = BN_bn2bin L (?g ^ nat (BN_bin2bn L a) mod ?N)"
    using auth m(1) ge by (auto simp: getAuthenticator_def calculateA_def ok split: if_splits)
  have An: "BN_bin2bn L ?A = ?g ^ nat (BN_bin2bn L a) mod ?N" using A m(2) by (simp add: ok)
  have "BN_bn2bin L ?N \<noteq> []" using bn2bin_empty [OF L, of ?N] m(2) by simp
  moreover have "length (BN_bn2bin L ?N) = BN_num_bytes L ?N" using L m(2) unfolding bignum_ok_def by simp
  ultimately have A0: "?A \<noteq> []" using auth_len by auto
  then have An0: "BN_bin2bn L ?A \<noteq> 0" using A An bn2bin_empty [OF L, of "?g ^ nat (BN_bin2bn L a) mod ?N"] m(2) by simp
  have Amod: "BN_bin2bn L ?A mod ?N = BN_bin2bn L ?A" using An m(2) by simp
  have Bn: "BN_bin2bn L B = (?k * (?g ^ nat x mod ?N) mod ?N + ?g ^ nat (BN_bin2bn L b) mod ?N) mod ?N"
    using m(2) by (simp add: B_def ok vn)
  then have Bn0: "BN_bin2bn L B \<noteq> 0"
    using degenerate(1) bn2bin_empty [OF L, of "BN_bin2bn L B"] m(2) by (auto simp: B_def vn)
  have ug: "0 \<le> u" "0 \<le> x" using ge by (simp_all add: u_def x_def)
  have exp: "(BN_bin2bn L a + u * x mod ?N) mod ?N = BN_bin2bn L a + u * x"
  proof -
    have "0 \<le> u * x" using ug by simp
    moreover have "u * x < ?N" using degenerate(3) ge [of a] by linarith
    ultimately show ?thesis using degenerate(3) ge [of a] by simp
  qed
  define SC where "SC = (BN_bin2bn L B - ?k * (?g ^ nat x mod ?N) mod ?N) ^ nat (BN_bin2bn L a + u * x) mod ?N"
  define SS where "SS = (BN_bin2bn L ?A * (BN_bin2bn L ?v ^ nat u mod ?N) mod ?N) ^ nat (BN_bin2bn L b) mod ?N"
  have n: "nat (BN_bin2bn L a + u * x) = nat (BN_bin2bn L a) + nat u * nat x"
    using ug ge [of a] by (simp add: nat_add_distrib nat_mult_distrib)
  have same: "SC = SS" unfolding SC_def SS_def Bn An vn n by (rule srp_secret)
  have hash: "h_hash ?h z \<noteq> []" for z
    using h by (metis hash_ok_def length_0_conv unat_eq_zero)
  have "interleave \<Longrightarrow> 2 \<le> length (BN_bn2bin L SS)"
    using long by (simp add: secret_def SS_def)
  moreover have "0 \<le> SS" using m(2) by (simp add: SS_def)
  moreover have "BN_bn2bin L n = [] \<or> hd (BN_bn2bin L n) \<noteq> 0" if "0 \<le> n" for n
    using L that unfolding bignum_ok_def by blast
  ultimately have "interleave \<Longrightarrow> \<exists>K. interleaveS ?h (BN_bn2bin L SS) = Inr K \<and> length K = 2 * unat (h_outputLen ?h)"
    by (intro interleaveS_succeeds) fastforce+
  then obtain K where K: "session_key ?h interleave (BN_bn2bin L SS) = Inr K" "unat (h_outputLen ?h) \<le> length K"
    using h(1) by (cases interleave) (auto simp: session_key_def hash_ok_def)
  have "K \<noteq> []" using K(2) h(2) by (auto simp: unat_eq_zero)
  then obtain M1 where M1: "calculateM1 L m username ?salt ?A B K = Inr M1" "length M1 = unat (h_outputLen ?h)"
    using nonempty A0 degenerate(1) h(1) by (simp add: calculateM1_def Let_def hash_ok_def)
  have server: "serverChallange L m username ?salt ?v ?A b interleave = Inr (B, M1, h_hash ?h (?A @ M1 @ K), K)"
  proof -
    have "BN_bn2bin L (BN_mod_add L (BN_mod_mul L ?k (BN_bin2bn L ?v) ?N) (BN_mod_exp L ?g (BN_bin2bn L b) ?N) ?N) = B"
      by (simp add: B_def ok ge)
    then show ?thesis
      using nonempty \<open>?v \<noteq> []\<close> A0 \<open>b \<noteq> []\<close> m(1) An0 Amod v0 ge ug M1(1)
      by (simp add: serverChallange_def Let_def ok u_def [symmetric] SS_def [symmetric] K(1))
  qed
  have client: "clientChallange L m ?salt a ?A B username password interleave = Inr (M1, h_hash ?h (?A @ M1 @ K), K)"
    using nonempty A0 \<open>a \<noteq> []\<close> degenerate(1) m(1) Bn0 degenerate(2) ge ug M1(1) same exp
    by (simp add: clientChallange_def Let_def ok cu_full [OF auth_len] u_def [symmetric] x_def [symmetric]
        SC_def [symmetric] K(1))
  show ?thesis
    using user(1) server client sca M1(2) K(2) h(1)
    by (simp add: getVerificator_def getByName_def getM1_def B_def public_B_def hash_ok_def)
qed

section \<open>Properties\<close>

text \<open>
  C4. The two ends agree. Let the server have a verificator that was made of the client's name,
  password and salt. Then, in an exchange in which no value degenerates, the server accepts the
  client's proof, the client accepts the server's, and both have the same session key; any other
  proof is refused by either.
\<close>

lemma srp_agrees:
  assumes "bignum_ok L" and "hash_ok (sm_hash m)" and "h_outputLen (sm_hash m) \<noteq> 0"
    and "checkNg m = Inr ()" and "sm_N m > 0"
    and "db username = Some u0" and "calculateVerificator L m username password (usr_salt u0) = Inr (usr_verificator u0)"
    and "usr_verificator u0 \<noteq> []" and "a \<noteq> []" and "b \<noteq> []"
    and "getAuthenticator L m (Inr a) username password = Inr sca"
    and "exchange_ok L m interleave u0 username password a b (sca_A sca)"
  shows "\<exists>ver M1 sca' M2 K. getVerificator L m interleave db (Inr b) username (sca_A sca) = Inr ver \<and>
    getM1 L m interleave (ver_salt ver) (ver_B ver) sca = Inr (M1, sca') \<and>
    authenticate M1 ver = Inr (M2, K) \<and> getSessionKey M2 sca' = Inr K \<and>
    (\<forall>M. M \<noteq> M1 \<longrightarrow> (\<exists>e. authenticate M ver = Inl e)) \<and> (\<forall>M. M \<noteq> M2 \<longrightarrow> (\<exists>e. getSessionKey M sca' = Inl e))"
proof -
  obtain ver M1 M2 K where e: "getVerificator L m interleave db (Inr b) username (sca_A sca) = Inr ver"
    "calc_M1 ver = M1" "calc_M2 ver = M2" "ver_K ver = K"
    "getM1 L m interleave (ver_salt ver) (ver_B ver) sca = Inr (M1, sca\<lparr>M2_calculated := M2, sca_K := K\<rparr>)"
    "length M1 = unat (h_outputLen (sm_hash m))" "length M2 = unat (h_outputLen (sm_hash m))"
    using srp_exchange [of L m db username u0 password a b sca interleave] assms by blast
  have "0 < unat (h_outputLen (sm_hash m))" using assms(3) by (simp add: unat_gt_0)
  then have "M1 \<noteq> []" "M2 \<noteq> []" using e(6,7) by auto
  then have "authenticate M1 ver = Inr (M2, K)" "M \<noteq> M1 \<Longrightarrow> \<exists>e. authenticate M ver = Inl e"
    "getSessionKey M2 (sca\<lparr>M2_calculated := M2, sca_K := K\<rparr>) = Inr K"
    "M \<noteq> M2 \<Longrightarrow> \<exists>e. getSessionKey M (sca\<lparr>M2_calculated := M2, sca_K := K\<rparr>) = Inl e" for M
    using e(2-4) by (simp_all add: authenticate_def getSessionKey_def)
  then show ?thesis using e(1,5) by blast
qed

text \<open>Big numbers as the documentation has them, a small modulus, and a hash into one byte.\<close>

fun number_bytes :: "nat \<Rightarrow> bytes" where
  "number_bytes n = (if n = 0 then [] else number_bytes (n div 256) @ [word_of_nat (n mod 256)])"

declare number_bytes.simps [simp del]

definition sample_bignum :: bignum where
  "sample_bignum = \<lparr>BN_bin2bn = foldl (\<lambda>n x. 256 * n + int (unat x)) 0, BN_bn2bin = (\<lambda>n. number_bytes (nat n)),
     BN_num_bytes = (\<lambda>n. length (number_bytes (nat n))), BN_sub = (\<lambda>a b. a - b), BN_mod = (\<lambda>a m. a mod m),
     BN_mod_add = (\<lambda>a b m. (a + b) mod m), BN_mod_mul = (\<lambda>a b m. a * b mod m), BN_mod_exp = (\<lambda>a p m. a ^ nat p mod m)\<rparr>"

lemma number_bytes_value: "foldl (\<lambda>n x. 256 * n + int (unat x)) 0 (number_bytes n) = int n"
proof (induction n rule: number_bytes.induct)
  case (1 n)
  have u: "uint (word_of_nat (n mod 256) :: byte) = int (n mod 256)"
    by (simp add: unsigned_of_nat take_bit_eq_mod zmod_int)
  have "foldl (\<lambda>n x. 256 * n + int (unat x)) 0 (number_bytes n) = 256 * int (n div 256) + int (n mod 256)" if "n \<noteq> 0"
    using 1 that u by (subst number_bytes.simps) (simp only: foldl_append foldl.simps if_False of_nat_unat simp_thms)
  moreover have "int n = 256 * int (n div 256) + int (n mod 256)" by (simp add: zdiv_int zmod_int)
  moreover have "number_bytes 0 = []" by (simp add: number_bytes.simps)
  ultimately show ?case by (cases "n = 0") simp_all
qed

lemma number_bytes_hd: "number_bytes n = [] \<or> hd (number_bytes n) \<noteq> 0"
proof (induction n rule: number_bytes.induct)
  case (1 n)
  show ?case
  proof (cases "n div 256 = 0")
    case True
    have "unat (word_of_nat (n mod 256) :: byte) = n mod 256" by (simp add: unsigned_of_nat take_bit_eq_mod)
    moreover have "n mod 256 = n" using True by (simp add: div_eq_0_iff)
    ultimately show ?thesis
      using True by (subst number_bytes.simps, subst (2) number_bytes.simps)
        (auto simp: number_bytes.simps [of 0] dest: arg_cong [of _ _ unat])
  next
    case False
    then have "number_bytes (n div 256) \<noteq> []" by (subst number_bytes.simps) simp
    then show ?thesis using 1 False by (subst number_bytes.simps, subst (2) number_bytes.simps) auto
  qed
qed

lemma sample_bignum_ok: "bignum_ok sample_bignum"
  using number_bytes_value number_bytes_hd by (simp add: bignum_ok_def sample_bignum_def)

definition sample_math :: srp_math where
  "sample_math = \<lparr>sm_hash = \<lparr>h_hash = (\<lambda>b. [1]), h_outputLen = 1, h_blockSize = 64\<rparr>, sm_N = 65521, sm_g = 300, sm_k = 1\<rparr>"

definition sample_user :: user where
  "sample_user = \<lparr>usr_username = [65], usr_verificator = [1, 44], usr_salt = [3]\<rparr>"

lemma sample_numbers: "number_bytes 300 = [1, 44]" "number_bytes 24779 = [96, 203]" "number_bytes 65521 = [255, 241]"
  "number_bytes 31896 = [124, 152]"
  by (simp_all add: number_bytes.simps)

lemma srp_agrees_witness:
  "\<exists>ver M1 sca' M2 K. getVerificator sample_bignum sample_math True [[65] \<mapsto> sample_user] (Inr [2]) [65] [1, 44] = Inr ver \<and>
     getM1 sample_bignum sample_math True (ver_salt ver) (ver_B ver)
       \<lparr>sca_username = [65], sca_password = [66], sca_a = [1], sca_A = [1, 44], sca_K = [], M2_calculated = []\<rparr> = Inr (M1, sca') \<and>
     authenticate M1 ver = Inr (M2, K) \<and> getSessionKey M2 sca' = Inr K"
proof -
  let ?sca = "\<lparr>sca_username = [65], sca_password = [66], sca_a = [1], sca_A = [1, 44], sca_K = [], M2_calculated = []\<rparr>"
  have B: "public_B sample_bignum sample_math (usr_verificator sample_user) [2] = [96, 203]"
    by (simp add: public_B_def sample_math_def sample_user_def sample_bignum_def sample_numbers)
  have u: "scramble sample_bignum sample_math A B' = 1" "password_exponent sample_bignum sample_math n p s = 1" for A B' n p s
    by (simp_all add: scramble_def password_exponent_def calculate_x_def sample_math_def sample_bignum_def)
  have "getAuthenticator sample_bignum sample_math (Inr [1]) [65] [66] = Inr ?sca"
    by (simp add: getAuthenticator_def calculateA_def checkNg_def sample_math_def sample_bignum_def sample_numbers)
  moreover have "calculateVerificator sample_bignum sample_math [65] [66] (usr_salt sample_user) = Inr (usr_verificator sample_user)"
    by (simp add: calculateVerificator_def calculate_x_def sample_math_def sample_bignum_def sample_user_def sample_numbers)
  moreover have "hash_ok (sm_hash sample_math)" "h_outputLen (sm_hash sample_math) \<noteq> 0" "checkNg sample_math = Inr ()"
    "0 < sm_N sample_math" "usr_verificator sample_user \<noteq> []"
    by (simp_all add: hash_ok_def sample_math_def checkNg_def sample_user_def sample_bignum_def sample_numbers)
  moreover have "2 \<le> length (secret sample_bignum sample_math [1, 44] (usr_verificator sample_user) [2] 1)"
    by (simp add: secret_def sample_math_def sample_user_def sample_bignum_def sample_numbers)
  then have "exchange_ok sample_bignum sample_math True sample_user [65] [66] [1] [2] [1, 44]"
    by (simp add: exchange_ok_def B u) (simp add: sample_math_def sample_bignum_def sample_numbers)
  ultimately show ?thesis
    using srp_agrees [OF sample_bignum_ok, of sample_math "[[65] \<mapsto> sample_user]" "[65]" sample_user "[66]" "[1]" "[2]" ?sca True]
    by simp blast
qed

text \<open>
  C36. A short public value breaks the log-in. When \<open>A\<close> has fewer bytes than the modulus, the
  client pads it at the end and the server in front, so the two hash different strings into \<open>u\<close>.
\<close>

lemma short_A_is_padded_differently:
  assumes "bignum_ok L" and "sm_N m > 0" and "calculateA L m a = Inr A" and "A \<noteq> []"
    and "length A < BN_num_bytes L (sm_N m)"
  shows "client_cu (BN_num_bytes L (sm_N m)) A B \<noteq> server_cu (BN_num_bytes L (sm_N m)) A B"
proof -
  let ?n = "BN_num_bytes L (sm_N m)"
  have "A = BN_bn2bin L (BN_mod_exp L (sm_g m) (BN_bin2bn L a) (sm_N m))"
    using assms(3) by (auto simp: calculateA_def checkNg_def split: if_splits)
  moreover have "0 \<le> BN_mod_exp L (sm_g m) (BN_bin2bn L a) (sm_N m)"
    using assms(1,2) bin2bn_ge0 [OF assms(1), of a] unfolding bignum_ok_def by simp
  ultimately have hd: "hd A \<noteq> 0" using assms(1,4) unfolding bignum_ok_def by blast
  obtain x as where A: "A = x # as" using assms(4) by (cases A) auto
  obtain k where k: "?n - length A = Suc k" using assms(5) by (metis Suc_diff_Suc)
  have "hd (client_cu ?n A B) = x"
    using assms(5) by (simp add: client_cu_def A resize_def Let_def hd_append take_Cons')
  moreover have "hd (server_cu ?n A B) = 0"
    using assms(5) k by (simp add: server_cu_def resize_def Let_def hd_append take_Cons')
  ultimately show ?thesis using hd A by force
qed

lemma short_A_is_padded_differently_witness:
  "client_cu 2 [7] [96, 203] \<noteq> server_cu 2 [7] [96, 203]"
proof -
  let ?m = "sample_math\<lparr>sm_g := 7\<rparr>"
  have "number_bytes 7 = [7]" by (simp_all add: number_bytes.simps)
  then have "calculateA sample_bignum ?m [1] = Inr [7]"
    by (simp add: calculateA_def checkNg_def sample_math_def sample_bignum_def)
  then show ?thesis
    using short_A_is_padded_differently [OF sample_bignum_ok, of ?m "[1]" "[7]" "[96, 203]"]
    by (simp add: sample_math_def sample_bignum_def sample_numbers numeral_2_eq_2)
qed

end
