(* ===== verification/Messages.thy ===== *)
theory Messages
  imports DataPack
begin

text \<open>
  The messages of the encrypted shell session, \<^verbatim>\<open>src/shell/messageconstructor.cpp\<close>: A and B
  from the client and P and Q from the server log in, C carries a request, R its response,
  D closes. A reference parameter is an argument and a part of the result. The lemmas show that
  a parser accepts a message with certain values exactly if its constructor builds the message from
  them, for four of the seven messages, and what the other parsers accept beyond that.
\<close>

section \<open>Constants\<close>

definition ENC_PROTOCOL_ID :: byte where "ENC_PROTOCOL_ID = 0x45"
definition ENC_PROTOCOL_INDEX :: nat where "ENC_PROTOCOL_INDEX = 0"
definition ENC_MSGTYPE_INDEX :: nat where "ENC_MSGTYPE_INDEX = 1"
definition ENC_ERROR_INDEX :: nat where "ENC_ERROR_INDEX = 2"
definition ENC_MIN_CLIENT_HEADER :: nat where "ENC_MIN_CLIENT_HEADER = 2"
definition ENC_MIN_SERVER_HEADER :: nat where "ENC_MIN_SERVER_HEADER = 3"
definition ENC_MAX_USERNAME :: nat where "ENC_MAX_USERNAME = 32"
definition ENC_MIN_USERNAME :: nat where "ENC_MIN_USERNAME = 1"
definition ENC_MAX_SRPA :: nat where "ENC_MAX_SRPA = 1024"
definition ENC_MIN_SRPA :: nat where "ENC_MIN_SRPA = 64"
definition ENC_MAX_SRPB :: nat where "ENC_MAX_SRPB = 1024"
definition ENC_MIN_SRPB :: nat where "ENC_MIN_SRPB = 64"
definition ENC_MAX_SALT :: nat where "ENC_MAX_SALT = 64"
definition ENC_MIN_SALT :: nat where "ENC_MIN_SALT = 16"
definition ENC_MAX_M1 :: nat where "ENC_MAX_M1 = 512"
definition ENC_MIN_M1 :: nat where "ENC_MIN_M1 = 16"
definition ENC_MAX_M2 :: nat where "ENC_MAX_M2 = 512"
definition ENC_MIN_M2 :: nat where "ENC_MIN_M2 = 16"
definition ENC_MSGTYPE_A :: byte where "ENC_MSGTYPE_A = 0x41"
definition ENC_MSGTYPE_B :: byte where "ENC_MSGTYPE_B = 0x42"
definition ENC_MSGTYPE_C :: byte where "ENC_MSGTYPE_C = 0x43"
definition ENC_MSGTYPE_D :: byte where "ENC_MSGTYPE_D = 0x44"
definition ENC_MSGTYPE_P :: byte where "ENC_MSGTYPE_P = 0x50"
definition ENC_MSGTYPE_Q :: byte where "ENC_MSGTYPE_Q = 0x51"
definition ENC_MSGTYPE_R :: byte where "ENC_MSGTYPE_R = 0x52"

lemmas enc_defs = ENC_PROTOCOL_ID_def ENC_PROTOCOL_INDEX_def ENC_MSGTYPE_INDEX_def ENC_ERROR_INDEX_def
  ENC_MIN_CLIENT_HEADER_def ENC_MIN_SERVER_HEADER_def ENC_MAX_USERNAME_def ENC_MIN_USERNAME_def
  ENC_MAX_SRPA_def ENC_MIN_SRPA_def ENC_MAX_SRPB_def ENC_MIN_SRPB_def ENC_MAX_SALT_def ENC_MIN_SALT_def
  ENC_MAX_M1_def ENC_MIN_M1_def ENC_MAX_M2_def ENC_MIN_M2_def ENC_MSGTYPE_A_def ENC_MSGTYPE_B_def
  ENC_MSGTYPE_C_def ENC_MSGTYPE_D_def ENC_MSGTYPE_P_def ENC_MSGTYPE_Q_def ENC_MSGTYPE_R_def

section \<open>A: the user name and the client's public value\<close>

definition enc_construct_A_message :: "string \<Rightarrow> bytes \<Rightarrow> bytes \<Rightarrow> int \<times> bytes" where
  "enc_construct_A_message username srpA out =
     (if length username < ENC_MIN_USERNAME then (-1, out)
      else if length username > ENC_MAX_USERNAME then (-2, out)
      else if length srpA < ENC_MIN_SRPA then (-3, out)
      else if length srpA > ENC_MAX_SRPA then (-4, out)
      else (0, [ENC_PROTOCOL_ID, ENC_MSGTYPE_A] @ string2bytes username @ [0x00] @ srpA))"

text \<open>
  The scan for the NUL does not stop at the end: without one, it reads past the message. The
  code's test for having reached the end comes after that.
\<close>

definition enc_parse_A_message :: "bytes \<Rightarrow> bytes \<Rightarrow> bytes \<Rightarrow> (int \<times> bytes \<times> bytes) run" where
  "enc_parse_A_message messageIn username srpA =
     (if length messageIn < ENC_MIN_CLIENT_HEADER + ENC_MIN_USERNAME + ENC_MIN_SRPA then Inr (-1, username, srpA)
      else if messageIn ! ENC_PROTOCOL_INDEX \<noteq> ENC_PROTOCOL_ID then Inr (-2, username, srpA)
      else if messageIn ! ENC_MSGTYPE_INDEX \<noteq> ENC_MSGTYPE_A then Inr (-3, username, srpA)
      else
        let scanned = drop ENC_MIN_CLIENT_HEADER messageIn;
            name = takeWhile (\<lambda>b. b \<noteq> 0x00) scanned
        in if length name = length scanned then Inl OutOfRange
           else Inr (0, name, drop (length name + 1) scanned))"

definition enc_testA :: "int run" where
  "enc_testA =
     (let username = ''a'';
          srpA = resize ENC_MIN_SRPA 0x00 [0x00, 0x00, 0x00, 0x33]
      in case enc_construct_A_message username srpA [] of (r, out) \<Rightarrow>
           if r \<noteq> 0 then Inr (-1)
           else run_bind (enc_parse_A_message out [] []) (\<lambda>(r, username2b, srpA2).
             if r \<noteq> 0 then Inr (-2)
             else if username \<noteq> bytes2string username2b then Inr (-3)
             else if srpA \<noteq> srpA2 then Inr (-4)
             else Inr 0))"

section \<open>P: the salt and the server's public value\<close>

definition enc_construct_P_message_success :: "bytes \<Rightarrow> bytes \<Rightarrow> bytes \<Rightarrow> int \<times> bytes" where
  "enc_construct_P_message_success salt srpB out =
     (if length salt < ENC_MIN_SALT then (-1, out)
      else if length salt > ENC_MAX_SALT then (-2, out)
      else if length srpB < ENC_MIN_SRPB then (-3, out)
      else if length srpB > ENC_MAX_SRPB then (-4, out)
      else if length salt > 255 then (-5, out)
      else
        let saltSize = (word_of_nat (length salt) :: byte);
            out = resize (ENC_MIN_SERVER_HEADER + 1 + length salt + length srpB) 0 [];
            out = out[ENC_PROTOCOL_INDEX := ENC_PROTOCOL_ID];
            out = out[ENC_MSGTYPE_INDEX := ENC_MSGTYPE_P];
            out = out[ENC_ERROR_INDEX := 0];
            out = out[ENC_ERROR_INDEX + 1 := saltSize];
            iter = ENC_MIN_SERVER_HEADER + 1;
            out = copy_at iter salt out;
            iter = iter + unat saltSize
        in (0, copy_at iter srpB out))"

definition enc_construct_P_message_fail :: "bytes \<Rightarrow> byte \<Rightarrow> int \<times> bytes" where
  "enc_construct_P_message_fail out errorCode =
     (let out = resize ENC_MIN_SERVER_HEADER 0 out;
          out = out[ENC_PROTOCOL_INDEX := ENC_PROTOCOL_ID];
          out = out[ENC_MSGTYPE_INDEX := ENC_MSGTYPE_P]
      in (0, out[ENC_ERROR_INDEX := errorCode]))"

definition enc_parse_P_message :: "bytes \<Rightarrow> bytes \<Rightarrow> bytes \<Rightarrow> byte \<Rightarrow> int \<times> bytes \<times> bytes \<times> byte" where
  "enc_parse_P_message messageIn salt srpB errorCode =
     (if length messageIn < ENC_MIN_SERVER_HEADER then (-1, salt, srpB, errorCode)
      else if messageIn ! ENC_PROTOCOL_INDEX \<noteq> ENC_PROTOCOL_ID then (-2, salt, srpB, errorCode)
      else if messageIn ! ENC_MSGTYPE_INDEX \<noteq> ENC_MSGTYPE_P then (-3, salt, srpB, errorCode)
      else
        let errorCode = messageIn ! ENC_ERROR_INDEX
        in if errorCode \<noteq> 0 then (0, [], [], errorCode)
           else if length messageIn < ENC_MIN_SERVER_HEADER + 1 + ENC_MIN_SALT + ENC_MIN_SRPB
           then (-4, salt, srpB, errorCode)
           else
             let saltSize = unat (messageIn ! (ENC_ERROR_INDEX + 1))
             in if saltSize < ENC_MIN_SALT \<or> saltSize > ENC_MAX_SALT then (-5, salt, srpB, errorCode)
                else
                  let salt = take saltSize (drop (ENC_MIN_SERVER_HEADER + 1) messageIn);
                      srpB = drop (ENC_MIN_SERVER_HEADER + 1 + saltSize) messageIn
                  in if length salt < ENC_MIN_SALT then (-6, salt, srpB, errorCode)
                     else if length salt > ENC_MAX_SALT then (-7, salt, srpB, errorCode)
                     else if length srpB < ENC_MIN_SRPB then (-8, salt, srpB, errorCode)
                     else if length srpB > ENC_MAX_SRPB then (-9, salt, srpB, errorCode)
                     else (0, salt, srpB, errorCode))"

text \<open>\<open>junk\<close> is the uninitialised \<^verbatim>\<open>errorCode2\<close>.\<close>

definition enc_testP :: "byte \<Rightarrow> int" where
  "enc_testP junk =
     (let salt = resize ENC_MIN_SALT 0x45 [];
          srpB = resize ENC_MIN_SRPB 0x78 []
      in case enc_construct_P_message_success salt srpB [] of (r, out) \<Rightarrow>
           if r \<noteq> 0 then -1
           else case enc_parse_P_message out [] [] junk of (r, salt2, srpB2, errorCode2) \<Rightarrow>
             if r \<noteq> 0 then -2
             else if errorCode2 \<noteq> 0 then -3
             else if salt \<noteq> salt2 then -4
             else if srpB \<noteq> srpB2 then -5
             else 0)"

section \<open>B: the client's proof\<close>

definition enc_construct_B_message :: "bytes \<Rightarrow> bytes \<Rightarrow> int \<times> bytes" where
  "enc_construct_B_message srpM1 out =
     (if length srpM1 < ENC_MIN_M1 then (-1, out)
      else if length srpM1 > ENC_MAX_M1 then (-2, out)
      else
        let out = resize (ENC_MIN_CLIENT_HEADER + length srpM1) 0 out;
            out = out[ENC_PROTOCOL_INDEX := ENC_PROTOCOL_ID];
            out = out[ENC_MSGTYPE_INDEX := ENC_MSGTYPE_B]
        in (0, copy_at ENC_MIN_CLIENT_HEADER srpM1 out))"

definition enc_parse_B_message :: "bytes \<Rightarrow> bytes \<Rightarrow> int \<times> bytes" where
  "enc_parse_B_message messageIn srpM1 =
     (if length messageIn < ENC_MIN_CLIENT_HEADER + ENC_MIN_M1 then (-1, srpM1)
      else if messageIn ! ENC_PROTOCOL_INDEX \<noteq> ENC_PROTOCOL_ID then (-2, srpM1)
      else if messageIn ! ENC_MSGTYPE_INDEX \<noteq> ENC_MSGTYPE_B then (-3, srpM1)
      else
        let m1size = length messageIn - ENC_MIN_CLIENT_HEADER
        in if m1size < ENC_MIN_M1 \<or> m1size > ENC_MAX_M1 then (-4, srpM1)
           else (0, drop (length messageIn - m1size) messageIn))"

definition enc_testB :: int where
  "enc_testB =
     (let srpM1_1 = resize ENC_MIN_M1 0x45 []
      in case enc_construct_B_message srpM1_1 [] of (r, out) \<Rightarrow>
           if r \<noteq> 0 then -1
           else case enc_parse_B_message out [] of (r, srpM1_2) \<Rightarrow>
             if r \<noteq> 0 then -2 else if srpM1_1 \<noteq> srpM1_2 then -3 else 0)"

section \<open>Q: the server's proof\<close>

definition enc_construct_Q_message_fail :: "bytes \<Rightarrow> byte \<Rightarrow> int \<times> bytes" where
  "enc_construct_Q_message_fail out errorCode =
     (let out = resize ENC_MIN_SERVER_HEADER 0 out;
          out = out[ENC_PROTOCOL_INDEX := ENC_PROTOCOL_ID];
          out = out[ENC_MSGTYPE_INDEX := ENC_MSGTYPE_Q]
      in (0, out[ENC_ERROR_INDEX := errorCode]))"

definition enc_construct_Q_message_success :: "bytes \<Rightarrow> bytes \<Rightarrow> int \<times> bytes" where
  "enc_construct_Q_message_success srpM2 out =
     (if length srpM2 < ENC_MIN_M2 then (-1, out)
      else if length srpM2 > ENC_MAX_M2 then (-2, out)
      else
        let out = resize (ENC_MIN_SERVER_HEADER + length srpM2) 0 out;
            out = out[ENC_PROTOCOL_INDEX := ENC_PROTOCOL_ID];
            out = out[ENC_MSGTYPE_INDEX := ENC_MSGTYPE_Q];
            out = out[ENC_ERROR_INDEX := 0]
        in (0, copy_at ENC_MIN_SERVER_HEADER srpM2 out))"

text \<open>Unlike the constructor and the other parsers, this one has no maximum.\<close>

definition enc_parse_Q_message :: "bytes \<Rightarrow> bytes \<Rightarrow> byte \<Rightarrow> int \<times> bytes \<times> byte" where
  "enc_parse_Q_message messageIn srpM2 errorCode =
     (if length messageIn < ENC_MIN_SERVER_HEADER then (-1, srpM2, errorCode)
      else if messageIn ! ENC_PROTOCOL_INDEX \<noteq> ENC_PROTOCOL_ID then (-2, srpM2, errorCode)
      else if messageIn ! ENC_MSGTYPE_INDEX \<noteq> ENC_MSGTYPE_Q then (-3, srpM2, errorCode)
      else
        let errorCode = messageIn ! ENC_ERROR_INDEX
        in if errorCode \<noteq> 0 then (0, [], errorCode)
           else if length messageIn < ENC_MIN_SERVER_HEADER + ENC_MIN_M2 then (-4, srpM2, errorCode)
           else (0, drop ENC_MIN_SERVER_HEADER messageIn, errorCode))"

definition enc_testQ :: "byte \<Rightarrow> byte \<Rightarrow> int" where
  "enc_testQ junk1 junk2 =
     (let srpM2_1 = resize ENC_MIN_M2 0x45 []
      in case enc_construct_Q_message_success srpM2_1 [] of (r, out) \<Rightarrow>
           if r \<noteq> 0 then -1
           else case enc_parse_Q_message out [] junk1 of (r, srpM2_2, errorCodeSuccess) \<Rightarrow>
             if r \<noteq> 0 then -2
             else if errorCodeSuccess \<noteq> 0 then -3
             else if srpM2_1 \<noteq> srpM2_2 then -4
             else
               let errorCode1 = 87
               in case enc_construct_Q_message_fail out errorCode1 of (r, out) \<Rightarrow>
                    if r \<noteq> 0 then -5
                    else case enc_parse_Q_message out srpM2_2 junk2 of (r, _, errorCode2) \<Rightarrow>
                      if r \<noteq> 0 then -5 else if errorCode1 \<noteq> errorCode2 then -6 else 0)"

section \<open>C and R: requests and responses\<close>

definition enc_construct_C_message :: "bytes \<Rightarrow> bytes \<Rightarrow> int \<times> bytes" where
  "enc_construct_C_message request out =
     (let out = resize (ENC_MIN_CLIENT_HEADER + length request) 0 out;
          out = out[ENC_PROTOCOL_INDEX := ENC_PROTOCOL_ID];
          out = out[ENC_MSGTYPE_INDEX := ENC_MSGTYPE_C]
      in (0, copy_at ENC_MIN_CLIENT_HEADER request out))"

definition enc_parse_C_message :: "bytes \<Rightarrow> bytes \<Rightarrow> int \<times> bytes" where
  "enc_parse_C_message messageIn request =
     (if length messageIn < ENC_MIN_CLIENT_HEADER then (-1, request)
      else if messageIn ! ENC_PROTOCOL_INDEX \<noteq> ENC_PROTOCOL_ID then (-2, request)
      else if messageIn ! ENC_MSGTYPE_INDEX \<noteq> ENC_MSGTYPE_C then (-3, request)
      else
        let requestSize = length messageIn - ENC_MIN_CLIENT_HEADER
        in (0, if requestSize > 0 then drop (length messageIn - requestSize) messageIn else []))"

definition enc_testC :: int where
  "enc_testC =
     (let request1 = string2bytes ''Sample request''
      in case enc_construct_C_message request1 [] of (r, out) \<Rightarrow>
           if r \<noteq> 0 then -1
           else case enc_parse_C_message out [] of (r, request2) \<Rightarrow>
             if r \<noteq> 0 then -2 else if request1 \<noteq> request2 then -3 else 0)"

definition enc_construct_R_message :: "bytes \<Rightarrow> byte \<Rightarrow> bytes \<Rightarrow> int \<times> bytes" where
  "enc_construct_R_message response errorCode out =
     (let out = resize (ENC_MIN_SERVER_HEADER + length response) 0 out;
          out = out[ENC_PROTOCOL_INDEX := ENC_PROTOCOL_ID];
          out = out[ENC_MSGTYPE_INDEX := ENC_MSGTYPE_R];
          out = out[ENC_ERROR_INDEX := errorCode]
      in (0, copy_at ENC_MIN_SERVER_HEADER response out))"

definition enc_parse_R_message :: "bytes \<Rightarrow> bytes \<Rightarrow> byte \<Rightarrow> int \<times> bytes \<times> byte" where
  "enc_parse_R_message messageIn response errorCode =
     (if length messageIn < ENC_MIN_SERVER_HEADER then (-1, response, errorCode)
      else if messageIn ! ENC_PROTOCOL_INDEX \<noteq> ENC_PROTOCOL_ID then (-2, response, errorCode)
      else if messageIn ! ENC_MSGTYPE_INDEX \<noteq> ENC_MSGTYPE_R then (-3, response, errorCode)
      else
        let errorCode = messageIn ! ENC_ERROR_INDEX;
            responseSize = length messageIn - ENC_MIN_SERVER_HEADER
        in (0, if responseSize > 0 then drop ENC_MIN_SERVER_HEADER messageIn else [], errorCode))"

definition enc_testR :: "byte \<Rightarrow> int" where
  "enc_testR junk =
     (let errorCode1 = 91;
          response1 = string2bytes ''Sample response''
      in case enc_construct_R_message response1 errorCode1 [] of (r, out) \<Rightarrow>
           if r \<noteq> 0 then -1
           else case enc_parse_R_message out [] junk of (r, response2, errorCode2) \<Rightarrow>
             if r \<noteq> 0 then -2
             else if errorCode1 \<noteq> errorCode2 then -3
             else if response1 \<noteq> response2 then -3
             else 0)"

section \<open>D: the end of the session\<close>

definition enc_construct_D_message :: "bytes \<Rightarrow> int \<times> bytes" where
  "enc_construct_D_message out =
     (let out = resize ENC_MIN_CLIENT_HEADER 0 out;
          out = out[ENC_PROTOCOL_INDEX := ENC_PROTOCOL_ID]
      in (0, out[ENC_MSGTYPE_INDEX := ENC_MSGTYPE_D]))"

definition enc_parse_D_message :: "bytes \<Rightarrow> int" where
  "enc_parse_D_message messageIn =
     (if length messageIn \<noteq> ENC_MIN_CLIENT_HEADER then -1
      else if messageIn ! ENC_PROTOCOL_INDEX \<noteq> ENC_PROTOCOL_ID then -2
      else if messageIn ! ENC_MSGTYPE_INDEX \<noteq> ENC_MSGTYPE_D then -3
      else 0)"

definition enc_testD :: int where
  "enc_testD =
     (case enc_construct_D_message [] of (r, out) \<Rightarrow>
        if r \<noteq> 0 then -1 else if enc_parse_D_message out \<noteq> 0 then -2 else 0)"

section \<open>Lemmas\<close>

text \<open>What the constructors build by writing into a resized vector.\<close>

lemma header2: "length ys = 2 + length x \<Longrightarrow> copy_at 2 x (ys[0 := a, Suc 0 := b]) = a # b # x"
  by (cases ys; cases "tl ys") (auto simp: copy_at_def numeral_2_eq_2)

lemma header3: "length ys = 3 + length x \<Longrightarrow> copy_at 3 x (ys[0 := a, Suc 0 := b, 2 := c]) = a # b # c # x"
  by (cases ys; cases "tl ys"; cases "tl (tl ys)") (auto simp: copy_at_def numeral_3_eq_3 numeral_2_eq_2)

lemma bare2: "length ys = 2 \<Longrightarrow> ys[0 := a, Suc 0 := b] = [a, b]"
  using header2 [of ys "[]" a b] by (simp add: copy_at_def)

lemma bare3: "length ys = 3 \<Longrightarrow> ys[0 := a, Suc 0 := b, 2 := c] = [a, b, c]"
  using header3 [of ys "[]" a b c] by (simp add: copy_at_def)

lemma header4:
  assumes "length ys = 4 + length x + length y"
  shows "copy_at (4 + length x) y (copy_at 4 x (ys[0 := a, Suc 0 := b, 2 := c, Suc 2 := d])) = a # b # c # d # x @ y"
proof -
  obtain y0 y1 y2 y3 zs where ys: "ys = y0 # y1 # y2 # y3 # zs" "length zs = length x + length y"
    using assms by (cases ys; cases "tl ys"; cases "tl (tl ys)"; cases "tl (tl (tl ys))") auto
  then show ?thesis by (simp add: copy_at_def numeral_2_eq_2 numeral_3_eq_3 eval_nat_numeral)
qed

named_theorems message_simps \<open>what the constructors build\<close>

lemma construct_A [message_simps]:
  "1 \<le> length u \<Longrightarrow> length u \<le> 32 \<Longrightarrow> 64 \<le> length a \<Longrightarrow> length a \<le> 1024 \<Longrightarrow>
     enc_construct_A_message u a out = (0, [0x45, 0x41] @ string2bytes u @ [0] @ a)"
  by (cases u) (simp_all add: enc_construct_A_message_def enc_defs)

lemma construct_P_success [message_simps]:
  assumes "16 \<le> length salt" "length salt \<le> 64" "64 \<le> length b" "length b \<le> 1024"
  shows "enc_construct_P_message_success salt b out =
     (0, [0x45, 0x50, 0, word_of_nat (length salt)] @ salt @ b)"
proof -
  have "unat (word_of_nat (length salt) :: byte) = length salt"
    using assms(2) by (simp add: unsigned_of_nat take_bit_eq_mod)
  then show ?thesis
    using assms header4 [of "resize (4 + length salt + length b) 0 []" salt b "0x45" "0x50" 0 "word_of_nat (length salt)"]
    by (simp add: enc_construct_P_message_success_def enc_defs Let_def add.commute
        numeral_3_eq_3 [symmetric])
qed

lemma construct_P_fail [message_simps]: "enc_construct_P_message_fail out e = (0, [0x45, 0x50, e])"
  by (simp add: enc_construct_P_message_fail_def enc_defs Let_def bare3)

lemma construct_B [message_simps]:
  "16 \<le> length m \<Longrightarrow> length m \<le> 512 \<Longrightarrow> enc_construct_B_message m out = (0, [0x45, 0x42] @ m)"
  by (simp add: enc_construct_B_message_def enc_defs Let_def header2)

lemma construct_Q_fail [message_simps]: "enc_construct_Q_message_fail out e = (0, [0x45, 0x51, e])"
  by (simp add: enc_construct_Q_message_fail_def enc_defs Let_def bare3)

lemma construct_Q_success [message_simps]:
  "16 \<le> length m \<Longrightarrow> length m \<le> 512 \<Longrightarrow> enc_construct_Q_message_success m out = (0, [0x45, 0x51, 0] @ m)"
  by (simp add: enc_construct_Q_message_success_def enc_defs Let_def header3)

lemma construct_C [message_simps]: "enc_construct_C_message r out = (0, [0x45, 0x43] @ r)"
  by (simp add: enc_construct_C_message_def enc_defs Let_def header2)

lemma construct_R [message_simps]: "enc_construct_R_message r e out = (0, [0x45, 0x52, e] @ r)"
  by (simp add: enc_construct_R_message_def enc_defs Let_def header3)

lemma construct_D [message_simps]: "enc_construct_D_message out = (0, [0x45, 0x44])"
  by (simp add: enc_construct_D_message_def enc_defs Let_def bare2)

text \<open>A constructor that refuses its argument leaves the output parameter alone.\<close>

lemma construct_refuses:
  "fst (enc_construct_A_message u a out) \<noteq> 0 \<Longrightarrow> enc_construct_A_message u a out = (fst (enc_construct_A_message u a out), out)"
  "fst (enc_construct_P_message_success salt b out) \<noteq> 0 \<Longrightarrow>
     enc_construct_P_message_success salt b out = (fst (enc_construct_P_message_success salt b out), out)"
  "fst (enc_construct_B_message m out) \<noteq> 0 \<Longrightarrow> enc_construct_B_message m out = (fst (enc_construct_B_message m out), out)"
  "fst (enc_construct_Q_message_success m out) \<noteq> 0 \<Longrightarrow>
     enc_construct_Q_message_success m out = (fst (enc_construct_Q_message_success m out), out)"
  by (auto simp: enc_construct_A_message_def enc_construct_P_message_success_def enc_construct_B_message_def
      enc_construct_Q_message_success_def Let_def)

text \<open>The parsers on a message split into its header and the rest.\<close>

lemma parse_A:
  "enc_parse_A_message (0x45 # 0x41 # x) u a =
     (if length x < 65 then Inr (-1, u, a)
      else if 0 \<notin> set x then Inl OutOfRange
      else Inr (0, takeWhile (\<lambda>b. b \<noteq> 0) x, tl (dropWhile (\<lambda>b. b \<noteq> 0) x)))"
proof -
  have "length (takeWhile (\<lambda>b. b \<noteq> 0) x) = length x \<longleftrightarrow> 0 \<notin> set x"
    by (induction x) auto
  moreover have "drop (length (takeWhile (\<lambda>b. b \<noteq> 0) x) + 1) x = tl (dropWhile (\<lambda>b. b \<noteq> 0) x)"
    unfolding dropWhile_eq_drop by (simp add: drop_Suc tl_drop)
  ultimately show ?thesis
    by (simp add: enc_parse_A_message_def enc_defs Let_def)
qed

lemma up_to_NUL:
  assumes "0 \<notin> set u"
  shows "takeWhile (\<lambda>b. b \<noteq> 0) (u @ 0 # a) = u" "dropWhile (\<lambda>b. b \<noteq> 0) (u @ 0 # a) = 0 # a"
  using assms by (induction u) auto

lemma parse_A_message:
  "0 \<notin> set u \<Longrightarrow> 64 \<le> length u + length a \<Longrightarrow>
     enc_parse_A_message ([0x45, 0x41] @ u @ [0] @ a) u' a' = Inr (0, u, a)"
  using parse_A [of "u @ [0] @ a" u' a'] by (simp add: up_to_NUL)

lemma parse_C: "enc_parse_C_message ([0x45, 0x43] @ r) r' = (0, r)"
  by (auto simp: enc_parse_C_message_def enc_defs Let_def)

lemma parse_R: "enc_parse_R_message ([0x45, 0x52, e] @ r) r' e' = (0, r, e)"
  by (auto simp: enc_parse_R_message_def enc_defs Let_def)

lemma parse_B: "16 \<le> length m \<Longrightarrow> length m \<le> 512 \<Longrightarrow> enc_parse_B_message ([0x45, 0x42] @ m) m' = (0, m)"
  by (simp add: enc_parse_B_message_def enc_defs Let_def)

lemma parse_Q: "16 \<le> length m \<Longrightarrow> enc_parse_Q_message ([0x45, 0x51, 0] @ m) m' e' = (0, m, 0)"
  by (simp add: enc_parse_Q_message_def enc_defs Let_def)

lemma parse_Q_fail: "e \<noteq> 0 \<Longrightarrow> enc_parse_Q_message [0x45, 0x51, e] m' e' = (0, [], e)"
  by (simp add: enc_parse_Q_message_def enc_defs Let_def)

lemma parse_P_fail: "e \<noteq> 0 \<Longrightarrow> enc_parse_P_message [0x45, 0x50, e] s' b' e' = (0, [], [], e)"
  by (simp add: enc_parse_P_message_def enc_defs Let_def)

lemma parse_P:
  assumes "16 \<le> length salt" "length salt \<le> 64" "64 \<le> length b" "length b \<le> 1024"
  shows "enc_parse_P_message ([0x45, 0x50, 0, word_of_nat (length salt)] @ salt @ b) s' b' e' = (0, salt, b, 0)"
proof -
  have "unat (word_of_nat (length salt) :: byte) = length salt"
    using assms(2) by (simp add: unsigned_of_nat take_bit_eq_mod)
  moreover have "drop (4 + n) (w # x # y # z # zs) = drop n zs" for n and w x y z :: byte and zs
    by (simp add: eval_nat_numeral)
  ultimately show ?thesis using assms by (simp add: enc_parse_P_message_def enc_defs Let_def)
qed

text \<open>What the parsers accept.\<close>

lemma split2: "2 \<le> length m \<Longrightarrow> \<exists>a b x. m = a # b # x"
  by (cases m; cases "tl m") auto

lemma split3: "3 \<le> length m \<Longrightarrow> \<exists>a b c x. m = a # b # c # x"
  by (cases m; cases "tl m"; cases "tl (tl m)") auto

lemma accepts_B: "enc_parse_B_message m x = (0, M) \<longleftrightarrow> enc_construct_B_message M out = (0, m)"
proof
  assume ok: "enc_parse_B_message m x = (0, M)"
  then have "2 \<le> length m" by (auto simp: enc_parse_B_message_def enc_defs split: if_splits)
  then obtain a b y where m: "m = a # b # y" using split2 by blast
  then have "a = 0x45" "b = 0x42" "16 \<le> length y" "length y \<le> 512"
    using ok by (auto simp: enc_parse_B_message_def enc_defs Let_def split: if_splits)
  then show "enc_construct_B_message M out = (0, m)"
    using ok m parse_B [of y x] construct_B [of y out] by simp
next
  assume ok: "enc_construct_B_message M out = (0, m)"
  then have "16 \<le> length M" "length M \<le> 512" by (auto simp: enc_construct_B_message_def enc_defs split: if_splits)
  then show "enc_parse_B_message m x = (0, M)" using ok parse_B [of M x] construct_B [of M out] by auto
qed

lemma accepts_C: "enc_parse_C_message m x = (0, r) \<longleftrightarrow> enc_construct_C_message r out = (0, m)"
proof
  assume ok: "enc_parse_C_message m x = (0, r)"
  then have "2 \<le> length m" by (auto simp: enc_parse_C_message_def enc_defs split: if_splits)
  then obtain a b y where m: "m = a # b # y" using split2 by blast
  then have "a = 0x45" "b = 0x43"
    using ok by (auto simp: enc_parse_C_message_def enc_defs Let_def split: if_splits)
  then show "enc_construct_C_message r out = (0, m)"
    using ok m parse_C [of y x] construct_C [of y out] by simp
qed (use parse_C [of r x] construct_C [of r out] in auto)

lemma accepts_R: "enc_parse_R_message m x e0 = (0, r, e) \<longleftrightarrow> enc_construct_R_message r e out = (0, m)"
proof
  assume ok: "enc_parse_R_message m x e0 = (0, r, e)"
  then have "3 \<le> length m" by (auto simp: enc_parse_R_message_def enc_defs split: if_splits)
  then obtain a b e' y where m: "m = a # b # e' # y" using split3 by blast
  then have "a = 0x45" "b = 0x52"
    using ok by (auto simp: enc_parse_R_message_def enc_defs Let_def split: if_splits)
  then show "enc_construct_R_message r e out = (0, m)"
    using ok m parse_R [of e' y x e0] construct_R [of y e' out] by simp
qed (use parse_R [of e r x e0] construct_R [of r e out] in auto)

lemma accepts_D: "enc_parse_D_message m = 0 \<longleftrightarrow> enc_construct_D_message out = (0, m)"
proof
  assume ok: "enc_parse_D_message m = 0"
  then have "2 \<le> length m" by (auto simp: enc_parse_D_message_def enc_defs split: if_splits)
  then obtain a b x where "m = a # b # x" using split2 by blast
  then show "enc_construct_D_message out = (0, m)"
    using ok by (auto simp: construct_D enc_parse_D_message_def enc_defs split: if_splits)
next
  assume "enc_construct_D_message out = (0, m)"
  then show "enc_parse_D_message m = 0" by (auto simp: construct_D enc_parse_D_message_def enc_defs)
qed

text \<open>The server's answers: a failure is recognised by its error code alone.\<close>

lemma constructs_P:
  "enc_construct_P_message_success salt srpB out = (0, m) \<longleftrightarrow> 16 \<le> length salt \<and> length salt \<le> 64 \<and>
     64 \<le> length srpB \<and> length srpB \<le> 1024 \<and> m = [0x45, 0x50, 0, word_of_nat (length salt)] @ salt @ srpB"
proof
  assume ok: "enc_construct_P_message_success salt srpB out = (0, m)"
  then have l: "16 \<le> length salt" "length salt \<le> 64" "64 \<le> length srpB" "length srpB \<le> 1024"
    by (auto simp: enc_construct_P_message_success_def enc_defs Let_def split: if_splits)
  with ok construct_P_success [OF this, of out] show "16 \<le> length salt \<and> length salt \<le> 64 \<and>
     64 \<le> length srpB \<and> length srpB \<le> 1024 \<and> m = [0x45, 0x50, 0, word_of_nat (length salt)] @ salt @ srpB" by simp
qed (use construct_P_success [of salt srpB out] in simp)

lemma accepts_P_success:
  "enc_parse_P_message m s b e0 = (0, salt, srpB, 0) \<longleftrightarrow> enc_construct_P_message_success salt srpB out = (0, m)"
proof
  assume ok: "enc_parse_P_message m s b e0 = (0, salt, srpB, 0)"
  then have "84 \<le> length m" by (auto simp: enc_parse_P_message_def enc_defs Let_def split: if_splits)
  moreover from this have "3 \<le> length m" by simp
  then obtain a0 b0 e x where m0: "m = a0 # b0 # e # x" using split3 by blast
  ultimately obtain n y where m: "m = a0 # b0 # e # n # y" by (cases x) auto
  have h: "a0 = 0x45" "b0 = 0x50" "e = 0"
    using ok unfolding m by (auto simp: enc_parse_P_message_def enc_defs Let_def split: if_splits)
  let ?salt = "take (unat n) y" and ?B = "drop (unat n) y"
  have "drop (4 + k) (w # x # y # z # zs) = drop k zs" for k and w x y z :: byte and zs
    by (simp add: eval_nat_numeral)
  then have n: "16 \<le> unat n" "unat n \<le> 64" "64 \<le> length ?B" "length ?B \<le> 1024" "unat n \<le> length y" "salt = ?salt" "srpB = ?B"
    using ok unfolding m h by (auto simp: enc_parse_P_message_def enc_defs Let_def split: if_splits)
  then have "length ?salt = unat n" by simp
  then have "m = [0x45, 0x50, 0, word_of_nat (length ?salt)] @ ?salt @ ?B" using m h by simp
  then show "enc_construct_P_message_success salt srpB out = (0, m)" unfolding constructs_P using n by auto
next
  assume "enc_construct_P_message_success salt srpB out = (0, m)"
  then show "enc_parse_P_message m s b e0 = (0, salt, srpB, 0)" unfolding constructs_P using parse_P by auto
qed

lemma accepts_P:
  "enc_parse_P_message m s b e0 = (0, salt, srpB, e) \<longleftrightarrow>
     (if e = 0 then enc_construct_P_message_success salt srpB out = (0, m)
      else enc_construct_P_message_fail out e = (0, take 3 m) \<and> salt = [] \<and> srpB = [])"
proof (cases "e = 0")
  case False
  show ?thesis
  proof (cases "3 \<le> length m")
    case True
    then obtain a0 b0 e' x where "m = a0 # b0 # e' # x" using split3 by blast
    then show ?thesis using False
      by (auto simp: construct_P_fail enc_parse_P_message_def enc_defs Let_def split: if_splits)
  next
    case shorter: False
    then have "take 3 m \<noteq> [0x45, 0x50, e]" by (auto dest: arg_cong [where f = length])
    then show ?thesis using False shorter by (auto simp: construct_P_fail enc_parse_P_message_def enc_defs)
  qed
qed (simp add: accepts_P_success [of _ _ _ _ _ _ out])

text \<open>Q's parser takes a proof of any length from the minimum on.\<close>

lemma accepts_Q:
  "enc_parse_Q_message m x e0 = (0, M, e) \<longleftrightarrow>
     (if e = 0 then m = [0x45, 0x51, 0] @ M \<and> 16 \<le> length M
      else enc_construct_Q_message_fail out e = (0, take 3 m) \<and> M = [])"
proof (cases "3 \<le> length m")
  case True
  then obtain a0 b0 e' y where "m = a0 # b0 # e' # y" using split3 by blast
  then show ?thesis by (auto simp: construct_Q_fail enc_parse_Q_message_def enc_defs Let_def split: if_splits)
next
  case False
  then have "take 3 m \<noteq> [0x45, 0x51, e]" "m \<noteq> [0x45, 0x51, 0] @ M" by (auto dest: arg_cong [where f = length])
  then show ?thesis using False by (auto simp: construct_Q_fail enc_parse_Q_message_def enc_defs)
qed

lemma constructs_Q:
  "enc_construct_Q_message_success M out = (0, m) \<longleftrightarrow> length M \<le> ENC_MAX_M2 \<and> enc_parse_Q_message m x e0 = (0, M, 0)"
proof (cases "16 \<le> length M \<and> length M \<le> 512")
  case True
  then show ?thesis using construct_Q_success [of M out] by (auto simp: accepts_Q [of _ _ _ _ _ out] enc_defs)
next
  case False
  then show ?thesis by (auto simp: accepts_Q [of _ _ _ _ _ out] enc_construct_Q_message_success_def enc_defs)
qed

text \<open>A's parser knows no limits of the user name, none of the public value from above, and reads names without NUL.\<close>

lemma NUL_in_name: "0 \<in> set (string2bytes u) \<longleftrightarrow> CHR 0x00 \<in> set u"
proof -
  have "char_of_byte 0 = CHR 0x00" by code_simp
  then have "byte_of_char c = 0 \<longleftrightarrow> c = CHR 0x00" for c by (metis char_of_byte_of_char byte_of_char_of_byte)
  then show ?thesis unfolding string2bytes_def set_map by force
qed

lemma accepts_A:
  "enc_parse_A_message m u a = Inr (0, name, A) \<longleftrightarrow>
     m = [0x45, 0x41] @ name @ [0] @ A \<and> 0 \<notin> set name \<and> 64 \<le> length name + length A"
proof
  assume ok: "enc_parse_A_message m u a = Inr (0, name, A)"
  then have "2 \<le> length m" by (auto simp: enc_parse_A_message_def enc_defs split: if_splits)
  then obtain x y z where m: "m = x # y # z" using split2 by blast
  have h: "x = 0x45" "y = 0x41" using ok unfolding m by (auto simp: enc_parse_A_message_def enc_defs split: if_splits)
  have z: "65 \<le> length z" "0 \<in> set z" "name = takeWhile (\<lambda>b. b \<noteq> 0) z" "A = tl (dropWhile (\<lambda>b. b \<noteq> 0) z)"
    using ok unfolding m h parse_A by (auto split: if_splits)
  obtain before after where "z = before @ 0 # after" "0 \<notin> set before" using split_list_first [OF z(2)] by blast
  with z have "z = name @ 0 # A" "0 \<notin> set name" by (simp_all add: up_to_NUL)
  with m h z(1) show "m = [0x45, 0x41] @ name @ [0] @ A \<and> 0 \<notin> set name \<and> 64 \<le> length name + length A" by simp
qed (use parse_A_message [of name A u a] in simp)

lemma constructs_A:
  "enc_construct_A_message username A out = (0, m) \<and> CHR 0x00 \<notin> set username \<longleftrightarrow>
     length username \<in> {ENC_MIN_USERNAME..ENC_MAX_USERNAME} \<and> length A \<in> {ENC_MIN_SRPA..ENC_MAX_SRPA} \<and>
     enc_parse_A_message m u a = Inr (0, string2bytes username, A)"
  by (auto simp: accepts_A NUL_in_name enc_construct_A_message_def enc_defs Suc_le_eq split: if_splits)

section \<open>Properties\<close>

text \<open>
  Log-in messages within the limits of the protocol are constructed and read back:
  the user name (which has no NUL) with A, the salt with B, both proofs, and
  the error codes of a refusal.
\<close>

lemma login_messages_roundtrip:
  assumes "CHR 0x00 \<notin> set username" and "1 \<le> length username" and "length username \<le> 32"
    and "64 \<le> length A" and "length A \<le> 1024" and "16 \<le> length salt" and "length salt \<le> 64"
    and "64 \<le> length B" and "length B \<le> 1024" and "16 \<le> length M" and "length M \<le> 512" and "e \<noteq> 0"
  shows "\<exists>mA mP mP' mB mQ mQ'.
    enc_construct_A_message username A out = (0, mA) \<and> enc_parse_A_message mA u a = Inr (0, string2bytes username, A) \<and>
    enc_construct_P_message_success salt B out = (0, mP) \<and> enc_parse_P_message mP s b e0 = (0, salt, B, 0) \<and>
    enc_construct_P_message_fail out e = (0, mP') \<and> enc_parse_P_message mP' s b e0 = (0, [], [], e) \<and>
    enc_construct_B_message M out = (0, mB) \<and> enc_parse_B_message mB m = (0, M) \<and>
    enc_construct_Q_message_success M out = (0, mQ) \<and> enc_parse_Q_message mQ m e0 = (0, M, 0) \<and>
    enc_construct_Q_message_fail out e = (0, mQ') \<and> enc_parse_Q_message mQ' m e0 = (0, [], e)"
proof -
  have "0 \<notin> set (string2bytes username)" using assms(1) by (simp add: NUL_in_name)
  moreover have "64 \<le> length (string2bytes username) + length A" using assms(4) by simp
  ultimately show ?thesis
    by (intro exI conjI)
      (rule construct_A parse_A_message construct_P_success parse_P construct_P_fail parse_P_fail
        construct_B parse_B construct_Q_success parse_Q construct_Q_fail parse_Q_fail assms | assumption)+
qed

text \<open>
  C24. Parsers against constructors. For B, C, R and D the parser accepts a message with certain values
  exactly when the constructor builds that message from these values. For P, with error code 0 the same
  holds; with any other error code the parser accepts a message as soon as its first three bytes are
  the constructed failure, whatever follows, and gives nothing but the code. Q's failures are the same; of
  its successes and of A the constructors build exactly what is within their own limits of those the
  parsers accept, for a user name without NUL: Q's parser does not look for the maximum and A's for
  no limit of the name or the value.
\<close>

lemma parsers_accept_constructed:
  "(enc_parse_B_message m x = (0, M1) \<longleftrightarrow> enc_construct_B_message M1 out = (0, m)) \<and>
   (enc_parse_C_message m x = (0, request) \<longleftrightarrow> enc_construct_C_message request out = (0, m)) \<and>
   (enc_parse_R_message m x e0 = (0, response, e) \<longleftrightarrow> enc_construct_R_message response e out = (0, m)) \<and>
   (enc_parse_D_message m = 0 \<longleftrightarrow> enc_construct_D_message out = (0, m)) \<and>
   (enc_parse_P_message m s b e0 = (0, salt, srpB, e) \<longleftrightarrow>
     (if e = 0 then enc_construct_P_message_success salt srpB out = (0, m)
      else enc_construct_P_message_fail out e = (0, take 3 m) \<and> salt = [] \<and> srpB = [])) \<and>
   (enc_parse_Q_message m x e0 = (0, M2, e) \<longleftrightarrow>
     (if e = 0 then m = [0x45, 0x51, 0] @ M2 \<and> ENC_MIN_M2 \<le> length M2
      else enc_construct_Q_message_fail out e = (0, take 3 m) \<and> M2 = [])) \<and>
   (enc_construct_Q_message_success M2 out = (0, m) \<longleftrightarrow>
     length M2 \<le> ENC_MAX_M2 \<and> enc_parse_Q_message m x e0 = (0, M2, 0)) \<and>
   (enc_parse_A_message m u a = Inr (0, name, A) \<longleftrightarrow>
     m = [0x45, 0x41] @ name @ [0] @ A \<and> 0 \<notin> set name \<and> ENC_MIN_SRPA \<le> length name + length A) \<and>
   (enc_construct_A_message username A out = (0, m) \<and> CHR 0x00 \<notin> set username \<longleftrightarrow>
     length username \<in> {ENC_MIN_USERNAME..ENC_MAX_USERNAME} \<and> length A \<in> {ENC_MIN_SRPA..ENC_MAX_SRPA} \<and>
     enc_parse_A_message m u a = Inr (0, string2bytes username, A))"
  using accepts_B accepts_C accepts_R accepts_D accepts_P constructs_Q constructs_A accepts_Q [of m x e0 M2 e out]
    accepts_A [of m u a name A]
  by (intro conjI) (simp_all only: ENC_MIN_M2_def ENC_MIN_SRPA_def)

text \<open>
  The parser of A runs past the end of every message with its header that is long enough
  and has no NUL after the header; and it accepts an empty user name, which the constructor
  refuses.
\<close>

lemma parse_A_past_the_end:
  "(enc_parse_A_message m u a = Inl OutOfRange \<longleftrightarrow> 67 \<le> length m \<and> take 2 m = [0x45, 0x41] \<and> 0 \<notin> set (drop 2 m)) \<and>
   enc_parse_A_message ([0x45, 0x41, 0] @ replicate 64 7) u a = Inr (0, [], replicate 64 7) \<and>
   enc_construct_A_message [] (replicate 64 7) out = (-1, out)"
proof -
  have "enc_parse_A_message m u a = Inl OutOfRange \<longleftrightarrow> 67 \<le> length m \<and> take 2 m = [0x45, 0x41] \<and> 0 \<notin> set (drop 2 m)"
  proof (cases "2 \<le> length m")
    case True
    then obtain x y z where m: "m = x # y # z" using split2 by blast
    show ?thesis
    proof (cases "x = 0x45 \<and> y = 0x41")
      case True
      then show ?thesis using m parse_A [of z u a] by auto
    next
      case False
      then show ?thesis using m by (auto simp: enc_parse_A_message_def enc_defs)
    qed
  qed (simp add: enc_parse_A_message_def enc_defs)
  moreover have "enc_parse_A_message ([0x45, 0x41, 0] @ replicate 64 7) u a = Inr (0, [], replicate 64 7)"
    using parse_A_message [of "[]" "replicate 64 7" u a] by simp
  ultimately show ?thesis by (simp add: enc_construct_A_message_def enc_defs)
qed

text \<open>The seven self tests of the file pass, whatever their uninitialised variables hold.\<close>

lemma self_tests_pass:
  "enc_testA = Inr 0 \<and> enc_testP j = 0 \<and> enc_testB = 0 \<and> enc_testQ j k = 0 \<and> enc_testC = 0 \<and> enc_testR j = 0 \<and>
   enc_testD = 0"
proof -
  have a: "string2bytes ''a'' = [0x61]" by code_simp
  then have "enc_testA = Inr 0"
    using construct_A [of "''a''" "resize 64 0 [0, 0, 0, 0x33]" "[]"]
      parse_A_message [of "[0x61]" "resize 64 0 [0, 0, 0, 0x33]" "[]" "[]"]
      bytes2string_string2bytes [of "''a''"]
    by (simp add: enc_testA_def enc_defs Let_def)
  moreover have "enc_testP j = 0"
    using parse_P [of "resize 16 0x45 []" "resize 64 0x78 []" "[]" "[]" j]
    by (simp add: enc_testP_def enc_defs Let_def message_simps)
  moreover have "enc_testB = 0"
    using parse_B [of "resize 16 0x45 []" "[]"] by (simp add: enc_testB_def enc_defs Let_def message_simps)
  moreover have "enc_testQ j k = 0"
    using parse_Q [of "resize 16 0x45 []" "[]" j] parse_Q_fail [of 87 "resize 16 0x45 []" k]
    by (simp add: enc_testQ_def enc_defs Let_def message_simps)
  moreover have "enc_testC = 0"
    using parse_C [of "string2bytes ''Sample request''" "[]"] by (simp add: enc_testC_def Let_def message_simps)
  moreover have "enc_testR j = 0"
    using parse_R [of 91 "string2bytes ''Sample response''" "[]" j] by (simp add: enc_testR_def Let_def message_simps)
  moreover have "enc_testD = 0"
    by (simp add: enc_testD_def enc_parse_D_message_def message_simps enc_defs)
  ultimately show ?thesis by simp
qed

end
