(* ===== verification/Arq.thy ===== *)
theory Arq
  imports Interfaces
begin

text \<open>
  The stop-and-wait protocol between the shell client and the shell server:
  \<^verbatim>\<open>src/shell/stopwaittx.cpp\<close>, \<^verbatim>\<open>src/shell/stopwaitrx.cpp\<close> and
  \<^verbatim>\<open>src/shell/sessionmanager.hpp\<close>. The connector's calls are arguments. The lemmas run
  both ends over a network that loses, repeats and reorders capsules at will.
\<close>

section \<open>\<^verbatim>\<open>StopWaitTx\<close>\<close>

text \<open>
  \<open>heap\<close> is what a new capsule holds. A connector's \<^verbatim>\<open>waitForCapsule\<close> gets the caller's
  capsule and gives back a code with the capsule it filled.
\<close>

type_synonym 'w send_capsule = "bytes \<Rightarrow> 'w \<Rightarrow> (bool \<times> 'w) io"
type_synonym 'w wait_for_capsule = "capsule \<Rightarrow> u32 \<Rightarrow> 'w \<Rightarrow> ((u32 \<times> capsule) \<times> 'w) io"

record stopwaittx =
  tx_repetitions :: nat
  tx_timeout :: u32
  tx_serverAddress :: bytes
  tx_serverPort :: u16
  tx_clientAddress :: bytes
  tx_clientPort :: u16
  tx_expectedSeqNum :: u64

definition StopWaitTx :: "nat \<Rightarrow> u32 \<Rightarrow> bytes \<Rightarrow> u16 \<Rightarrow> bytes \<Rightarrow> u16 \<Rightarrow> stopwaittx" where
  "StopWaitTx repetitions timeout serverAddress serverPort clientAddress clientPort =
     \<lparr>tx_repetitions = repetitions, tx_timeout = timeout, tx_serverAddress = serverAddress,
      tx_serverPort = serverPort, tx_clientAddress = clientAddress, tx_clientPort = clientPort,
      tx_expectedSeqNum = 1\<rparr>"

text \<open>On failure the caller's \<open>data\<close> is left as it was.\<close>

definition awaitDatagram ::
  "byte_order \<Rightarrow> 'w wait_for_capsule \<Rightarrow> capsule \<Rightarrow> stopwaittx \<Rightarrow> bytes \<Rightarrow> u32 \<Rightarrow> 'w \<Rightarrow> ((bool \<times> bytes) \<times> 'w) io" where
  "awaitDatagram bo waitForCapsule heap swt data maxWaitMsec w =
     io_bind (waitForCapsule heap maxWaitMsec w) (\<lambda>((code, capsule), w).
       if code \<noteq> SAN2_WAITFORCAPSULE_SUCCESS then ret ((False, data), w)
       else case getPortsDS bo capsule of
           None \<Rightarrow> ret ((False, data), w)
         | Some (dstport, srcport) \<Rightarrow>
             if dstport \<noteq> tx_clientPort swt then ret ((False, data), w)
             else if srcport \<noteq> tx_serverPort swt then ret ((False, data), w)
             else if m_srcAddress capsule \<noteq> tx_serverAddress swt then ret ((False, data), w)
             else ret ((True, drop 4 (m_data capsule)), w))"

definition tx_datagram :: "byte_order \<Rightarrow> stopwaittx \<Rightarrow> bytes \<Rightarrow> bytes" where
  "tx_datagram bo swt request = [0x53] @ pack_uint64 bo (tx_expectedSeqNum swt) @ request"

definition tx_capsule :: "byte_order \<Rightarrow> capsule \<Rightarrow> stopwaittx \<Rightarrow> bytes \<Rightarrow> capsule" where
  "tx_capsule bo heap swt request =
     setSourceAddress (tx_clientAddress swt)
       (setDestinationAddress (tx_serverAddress swt)
         (setDSdata bo (tx_serverPort swt) (tx_clientPort swt) (tx_datagram bo swt request) heap))"

text \<open>The loop over the tries. A response that is too short or has no start byte ends the call.\<close>

primrec send_tries ::
  "byte_order \<Rightarrow> 'w send_capsule \<Rightarrow> 'w wait_for_capsule \<Rightarrow> capsule \<Rightarrow> bytes \<Rightarrow> nat \<Rightarrow>
     stopwaittx \<Rightarrow> bytes \<Rightarrow> 'w \<Rightarrow> ((bool \<times> bytes \<times> stopwaittx) \<times> 'w) io" where
  "send_tries bo sendCapsule waitForCapsule heap serializedCapsule 0 swt response w = ret ((False, response, swt), w)"
| "send_tries bo sendCapsule waitForCapsule heap serializedCapsule (Suc tries) swt response w =
     io_bind (sendCapsule serializedCapsule w) (\<lambda>(sent, w).
       if \<not> sent then ret ((False, response, swt), w)
       else io_bind (awaitDatagram bo waitForCapsule heap swt response (tx_timeout swt) w) (\<lambda>((ok, response), w).
         if \<not> ok then send_tries bo sendCapsule waitForCapsule heap serializedCapsule tries swt response w
         else if length response < 9 then ret ((False, response, swt), w)
         else if response ! 0 \<noteq> 0x53 then ret ((False, response, swt), w)
         else if unpackUint64 bo response 1 \<noteq> tx_expectedSeqNum swt
         then send_tries bo sendCapsule waitForCapsule heap serializedCapsule tries swt response w
         else ret ((True, drop 9 response, swt\<lparr>tx_expectedSeqNum := tx_expectedSeqNum swt + 1\<rparr>), w)))"

definition sendReliableMessage ::
  "byte_order \<Rightarrow> 'w send_capsule \<Rightarrow> 'w wait_for_capsule \<Rightarrow> capsule \<Rightarrow> bytes \<Rightarrow>
     stopwaittx \<Rightarrow> 'w \<Rightarrow> ((bool \<times> bytes \<times> stopwaittx) \<times> 'w) io" where
  "sendReliableMessage bo sendCapsule waitForCapsule heap request swt w =
     send_tries bo sendCapsule waitForCapsule heap (capsule_pack bo (tx_capsule bo heap swt request))
       (tx_repetitions swt) swt [] w"

text \<open>The check of a request that the author left in, switched off; the object starts with what the heap has.\<close>

definition checkIfDS :: "byte_order \<Rightarrow> capsule \<Rightarrow> bytes \<Rightarrow> bool" where
  "checkIfDS bo heap serializedCapsule =
     (let result = True;
          (r, capsule) = capsule_unpack bo heap serializedCapsule;
          result = (if \<not> r then False else result);
          result = (case getPortsDS bo capsule of None \<Rightarrow> False | Some _ \<Rightarrow> result)
      in if \<not> m_flagDS capsule then False else result)"

section \<open>\<^verbatim>\<open>StopWaitRx\<close>\<close>

record stopwaitrx =
  rx_serverAddress :: bytes
  rx_serverPort :: u16
  rx_clientAddress :: bytes
  rx_clientPort :: u16
  rx_expectedSeqNum :: u64
  m_lastSerializedCapsule :: bytes

definition StopWaitRx :: "bytes \<Rightarrow> u16 \<Rightarrow> bytes \<Rightarrow> u16 \<Rightarrow> stopwaitrx" where
  "StopWaitRx serverAddress serverPort clientAddress clientPort =
     \<lparr>rx_serverAddress = serverAddress, rx_serverPort = serverPort, rx_clientAddress = clientAddress,
      rx_clientPort = clientPort, rx_expectedSeqNum = 1, m_lastSerializedCapsule = []\<rparr>"

text \<open>
  \<^verbatim>\<open>processDatagram\<close> is the session's; it works on the session state \<open>'a\<close>. The ports are
  erased before their presence is checked, out of range when there are fewer than 4 bytes.
\<close>

type_synonym 'a handler = "u64 \<Rightarrow> bytes \<Rightarrow> 'a \<Rightarrow> (bool \<times> bytes) \<times> 'a"

definition rx_capsule :: "byte_order \<Rightarrow> capsule \<Rightarrow> stopwaitrx \<Rightarrow> bytes \<Rightarrow> capsule" where
  "rx_capsule bo heap swr dataOut =
     setDSdata bo (rx_clientPort swr) (rx_serverPort swr) dataOut
       (setDestinationAddress (rx_clientAddress swr) (setSourceAddress (rx_serverAddress swr) heap))"

definition incommingCapsule ::
  "byte_order \<Rightarrow> 'w send_capsule \<Rightarrow> capsule \<Rightarrow> 'a handler \<Rightarrow> capsule \<Rightarrow> stopwaitrx \<Rightarrow> 'a \<Rightarrow> 'w \<Rightarrow>
     ((bool \<times> stopwaitrx \<times> 'a) \<times> 'w) io" where
  "incommingCapsule bo sendCapsule heap processDatagram rxcapsule swr a w =
     (if length (m_data rxcapsule) < 4 then Some (Inl OutOfRange)
      else
        let rxcapsuleData = drop 4 (m_data rxcapsule)
        in if m_srcAddress rxcapsule \<noteq> rx_clientAddress swr then ret ((False, swr, a), w)
           else case getPortsDS bo rxcapsule of
               None \<Rightarrow> ret ((False, swr, a), w)
             | Some (dstport, srcport) \<Rightarrow>
                 if srcport \<noteq> rx_clientPort swr then ret ((False, swr, a), w)
                 else if length rxcapsuleData < 9 then ret ((False, swr, a), w)
                 else if rxcapsuleData ! 0 \<noteq> 0x53 then ret ((False, swr, a), w)
                 else
                   let rxseq = unpackUint64 bo rxcapsuleData 1
                   in if rxseq \<noteq> rx_expectedSeqNum swr
                      then io_bind (sendCapsule (m_lastSerializedCapsule swr) w) (\<lambda>(_, w). ret ((True, swr, a), w))
                      else case processDatagram rxseq (drop 9 rxcapsuleData) a of
                        ((ok, response), a) \<Rightarrow>
                          if \<not> ok then ret ((False, swr, a), w)
                          else
                            let dataOut = [0x53] @ pack_uint64 bo (rx_expectedSeqNum swr) @ response;
                                swr = swr\<lparr>rx_expectedSeqNum := rx_expectedSeqNum swr + 1\<rparr>;
                                serializedCapsule = capsule_pack bo (rx_capsule bo heap swr dataOut);
                                swr = swr\<lparr>m_lastSerializedCapsule := serializedCapsule\<rparr>
                            in io_bind (sendCapsule serializedCapsule w) (\<lambda>(sent, w). ret ((sent, swr, a), w)))"

section \<open>\<^verbatim>\<open>SessionManager\<close>\<close>

text \<open>A session per source address and port, made by \<open>createT\<close> when it is first asked for.\<close>

type_synonym 't sessions = "bytes \<times> u16 \<Rightarrow> 't option"

definition getSession :: "(bytes \<Rightarrow> u16 \<Rightarrow> 't) \<Rightarrow> bytes \<Rightarrow> u16 \<Rightarrow> 't sessions \<Rightarrow> 't \<times> 't sessions" where
  "getSession createT sourceAddress sourcePort sessionStorage =
     (case sessionStorage (sourceAddress, sourcePort) of
        Some s \<Rightarrow> (s, sessionStorage)
      | None \<Rightarrow>
          let createdSession = createT sourceAddress sourcePort
          in (createdSession, sessionStorage((sourceAddress, sourcePort) \<mapsto> createdSession)))"

section \<open>A network between the two\<close>

text \<open>
  The two hosts: byte orders, what new capsules hold, the session's handler, addresses and ports.
\<close>

record 'a hosts =
  bo_c :: byte_order
  bo_s :: byte_order
  heap_c :: capsule
  heap_s :: capsule
  hdl :: "'a handler"
  max_tries :: nat
  server_address :: bytes
  server_port :: u16
  client_address :: bytes
  client_port :: u16

text \<open>
  The network remembers every capsule ever sent. While the client waits, a round of the schedule
  says which of the client's capsules reach the server now, each possibly old, repeated or not at
  all, and what the client's wait then gives: an error code, one of the server's capsules, or a
  capsule from another host. A server whose \<^verbatim>\<open>incommingCapsule\<close> returns false is gone, as the
  main loop of \<^verbatim>\<open>src/shell/shell_server.cpp\<close> has it.
\<close>

datatype pick = Nth nat | Latest
datatype arrival = NoCapsule u32 | Answer pick | Foreign capsule

record 'a net =
  to_server :: "bytes list"
  to_client :: "bytes list"
  srv_session :: stopwaitrx
  app :: 'a
  alive :: bool
  schedule :: "(pick list \<times> arrival) list"

definition pick_from :: "pick \<Rightarrow> bytes list \<Rightarrow> bytes option" where
  "pick_from p xs =
     (case p of Nth n \<Rightarrow> (if n < length xs then Some (xs ! n) else None)
      | Latest \<Rightarrow> if xs = [] then None else Some (last xs))"

definition client_send :: "'a net send_capsule" where
  "client_send b w = ret (True, w\<lparr>to_server := to_server w @ [b]\<rparr>)"

definition server_send :: "'a net send_capsule" where
  "server_send b w = ret (True, w\<lparr>to_client := to_client w @ [b]\<rparr>)"

definition deliver :: "'a hosts \<Rightarrow> bytes \<Rightarrow> 'a net \<Rightarrow> 'a net io" where
  "deliver P b w =
     (if \<not> alive w then ret w
      else case capsule_unpack (bo_s P) (heap_s P) b of
        (ok, rxcapsule) \<Rightarrow>
          if \<not> ok then ret w
          else io_bind (incommingCapsule (bo_s P) server_send (heap_s P) (hdl P) rxcapsule (srv_session w) (app w) w)
                 (\<lambda>((ok, swr, a), w). ret (w\<lparr>srv_session := swr, app := a, alive := ok\<rparr>)))"

primrec deliver_picks :: "'a hosts \<Rightarrow> pick list \<Rightarrow> 'a net \<Rightarrow> 'a net io" where
  "deliver_picks P [] w = ret w"
| "deliver_picks P (p # ps) w =
     io_bind (case pick_from p (to_server w) of None \<Rightarrow> ret w | Some b \<Rightarrow> deliver P b w) (deliver_picks P ps)"

definition arrive :: "'a hosts \<Rightarrow> capsule \<Rightarrow> arrival \<Rightarrow> 'a net \<Rightarrow> u32 \<times> capsule" where
  "arrive P cap arr w =
     (case arr of
        NoCapsule code \<Rightarrow> (if code = SAN2_WAITFORCAPSULE_SUCCESS then SAN2_WAITFORCAPSULE_ERROR else code, cap)
      | Answer p \<Rightarrow>
          (case pick_from p (to_client w) of
             None \<Rightarrow> (SAN2_WAITFORCAPSULE_TIMEOUT, cap)
           | Some b \<Rightarrow>
               (case capsule_unpack (bo_c P) cap b of
                  (ok, c) \<Rightarrow> (if ok then SAN2_WAITFORCAPSULE_SUCCESS else SAN2_WAITFORCAPSULE_ERROR_CAPSULE_UNPACK, c)))
      | Foreign c \<Rightarrow>
          if m_srcAddress c = server_address P then (SAN2_WAITFORCAPSULE_TIMEOUT, cap)
          else (SAN2_WAITFORCAPSULE_SUCCESS, c))"

definition net_wait :: "'a hosts \<Rightarrow> 'a net wait_for_capsule" where
  "net_wait P cap timeout w =
     (case schedule w of
        [] \<Rightarrow> ret ((SAN2_WAITFORCAPSULE_TIMEOUT, cap), w)
      | (ps, arr) # rounds \<Rightarrow>
          io_bind (deliver_picks P ps (w\<lparr>schedule := rounds\<rparr>)) (\<lambda>w. ret (arrive P cap arr w, w)))"

definition client_call ::
  "'a hosts \<Rightarrow> bytes \<Rightarrow> stopwaittx \<Rightarrow> 'a net \<Rightarrow> ((bool \<times> bytes \<times> stopwaittx) \<times> 'a net) io" where
  "client_call P request swt w =
     sendReliableMessage (bo_c P) client_send (net_wait P) (heap_c P) request swt w"

text \<open>A client that makes its calls one after the other until one fails, as the shell client does.\<close>

primrec client_calls ::
  "'a hosts \<Rightarrow> bytes list \<Rightarrow> stopwaittx \<Rightarrow> 'a net \<Rightarrow> ((bool \<times> bytes list \<times> stopwaittx) \<times> 'a net) io" where
  "client_calls P [] swt w = ret ((True, [], swt), w)"
| "client_calls P (request # reqs) swt w =
     io_bind (client_call P request swt w) (\<lambda>((ok, response, swt), w).
       if \<not> ok then ret ((False, [], swt), w)
       else io_bind (client_calls P reqs swt w) (\<lambda>((ok, responses, swt), w).
              ret ((ok, response # responses, swt), w)))"

definition start_client :: "'a hosts \<Rightarrow> stopwaittx" where
  "start_client P = StopWaitTx (max_tries P) 3000 (server_address P) (server_port P) (client_address P) (client_port P)"

definition start_net :: "'a hosts \<Rightarrow> 'a \<Rightarrow> (pick list \<times> arrival) list \<Rightarrow> 'a net" where
  "start_net P a rounds =
     \<lparr>to_server = [], to_client = [],
      srv_session = StopWaitRx (server_address P) (server_port P) (client_address P) (client_port P),
      app = a, alive = True, schedule = rounds\<rparr>"

text \<open>
  What the protocol promises: the handler has seen the reqs once each, in order. \<open>None\<close> is
  a handler that refused one.
\<close>

primrec serve_once :: "'a handler \<Rightarrow> u64 \<Rightarrow> bytes list \<Rightarrow> 'a \<Rightarrow> (bytes list \<times> 'a) option" where
  "serve_once h n [] a = Some ([], a)"
| "serve_once h n (request # reqs) a =
     (case h n request a of
        ((ok, response), a') \<Rightarrow>
          if \<not> ok then None
          else case serve_once h (n + 1) reqs a' of
              None \<Rightarrow> None
            | Some (responses, a'') \<Rightarrow> Some (response # responses, a''))"

definition wf_hosts :: "'a hosts \<Rightarrow> bool" where
  "wf_hosts P \<longleftrightarrow> wf_capsule (heap_c P) \<and> wf_capsule (heap_s P) \<and>
     length (server_address P) = sanAddressSize \<and> length (client_address P) = sanAddressSize"

section \<open>The two messages\<close>

definition req_msg :: "'a hosts \<Rightarrow> u64 \<Rightarrow> bytes \<Rightarrow> bytes" where
  "req_msg P n request = capsule_pack (bo_c P) (tx_capsule (bo_c P) (heap_c P) ((start_client P)\<lparr>tx_expectedSeqNum := n\<rparr>) request)"

definition resp_msg :: "'a hosts \<Rightarrow> u64 \<Rightarrow> bytes \<Rightarrow> bytes" where
  "resp_msg P n response =
     capsule_pack (bo_s P) (rx_capsule (bo_s P) (heap_s P)
       (StopWaitRx (server_address P) (server_port P) (client_address P) (client_port P))
       ([0x53] @ pack_uint64 (bo_s P) n @ response))"

text \<open>What the receiver of a datagram reads in it.\<close>

lemma datagram_fields:
  "length ([0x53] @ pack_uint64 bo n @ x) \<ge> 9" "([0x53] @ pack_uint64 bo n @ x) ! 0 = 0x53"
  "unpackUint64 bo' ([0x53] @ pack_uint64 bo n @ x) 1 = n" "drop 9 ([0x53] @ pack_uint64 bo n @ x) = x"
  using cu64.dec_after [of "[0x53]" 1 bo' bo n x] cu64.drop_enc [of bo n x] by (simp_all add: cu64.enc_width)

lemma ds_data:
  "drop 4 (m_data (setDSdata bo d s data c)) = data" "4 \<le> length (m_data (setDSdata bo d s data c))"
  by (simp_all add: setDSdata_def cu16.enc_width)

lemma getPortsDS_address [simp]:
  "getPortsDS bo (c\<lparr>m_srcAddress := a\<rparr>) = getPortsDS bo c" "getPortsDS bo (c\<lparr>m_dstAddress := a\<rparr>) = getPortsDS bo c"
  "getPortsDS bo (c\<lparr>m_interfaceAddress := a\<rparr>) = getPortsDS bo c"
  by (simp_all add: getPortsDS_def)

definition session_at :: "'a hosts \<Rightarrow> u64 \<Rightarrow> bytes \<Rightarrow> stopwaitrx" where
  "session_at P n l =
     (StopWaitRx (server_address P) (server_port P) (client_address P) (client_port P))
       \<lparr>rx_expectedSeqNum := n, m_lastSerializedCapsule := l\<rparr>"

lemma session_at_simps [simp]:
  "rx_expectedSeqNum (session_at P n l) = n" "m_lastSerializedCapsule (session_at P n l) = l"
  "rx_clientAddress (session_at P n l) = client_address P" "rx_clientPort (session_at P n l) = client_port P"
  "rx_serverAddress (session_at P n l) = server_address P" "rx_serverPort (session_at P n l) = server_port P"
  "(session_at P n l)\<lparr>rx_expectedSeqNum := n'\<rparr> = session_at P n' l"
  "(session_at P n l)\<lparr>m_lastSerializedCapsule := l'\<rparr> = session_at P n l'"
  by (simp_all add: session_at_def StopWaitRx_def)

lemma rx_capsule_session:
  "capsule_pack (bo_s P) (rx_capsule (bo_s P) (heap_s P) (session_at P e l) ([0x53] @ pack_uint64 (bo_s P) n @ x)) =
     resp_msg P n x"
  by (simp add: resp_msg_def rx_capsule_def session_at_def StopWaitRx_def)

lemma req_unpack:
  assumes "wf_hosts P"
  shows "\<exists>c. capsule_unpack bo cap (req_msg P n r) = (True, c) \<and> m_srcAddress c = client_address P \<and>
    getPortsDS bo c = Some (server_port P, client_port P) \<and>
    drop 4 (m_data c) = [0x53] @ pack_uint64 (bo_c P) n @ r \<and> 4 \<le> length (m_data c)"
proof -
  let ?t = "tx_capsule (bo_c P) (heap_c P) ((start_client P)\<lparr>tx_expectedSeqNum := n\<rparr>) r"
  have "wf_capsule ?t"
    using assms by (simp add: wf_hosts_def wf_capsule_def tx_capsule_def start_client_def StopWaitTx_def step_simps)
  then have "capsule_unpack bo cap (req_msg P n r) = (True, ?t\<lparr>m_interfaceAddress := m_interfaceAddress cap\<rparr>)"
    unfolding req_msg_def by (rule capsule_unpack_pack)
  moreover have "getPortsDS bo (?t\<lparr>m_interfaceAddress := m_interfaceAddress cap\<rparr>) = Some (server_port P, client_port P)"
    by (simp add: tx_capsule_def setSourceAddress_def setDestinationAddress_def start_client_def StopWaitTx_def)
  ultimately show ?thesis
    using ds_data by (auto simp: tx_capsule_def setSourceAddress_def setDestinationAddress_def start_client_def
        StopWaitTx_def tx_datagram_def)
qed

lemma checkIfDS_iff: "checkIfDS bo heap b \<longleftrightarrow> headerSize + 4 \<le> length b \<and> getFlag (b ! 66) SAN_FLAGPOS_DS_POSITION"
  by (auto simp: checkIfDS_def capsule_unpack_def getPortsDS_def parseFlags_def Let_def size_defs)

lemma checkIfDS_request:
  assumes "wf_hosts P"
  shows "checkIfDS bo heap (req_msg P n r)"
  using req_unpack [OF assms, of bo heap n r] by (auto simp: checkIfDS_def getPortsDS_def split: if_splits)

lemma resp_unpack:
  assumes "wf_hosts P"
  shows "\<exists>c. capsule_unpack bo cap (resp_msg P n r) = (True, c) \<and> m_srcAddress c = server_address P \<and>
    getPortsDS bo c = Some (client_port P, server_port P) \<and>
    drop 4 (m_data c) = [0x53] @ pack_uint64 (bo_s P) n @ r"
proof -
  let ?t = "rx_capsule (bo_s P) (heap_s P) (StopWaitRx (server_address P) (server_port P) (client_address P) (client_port P))
    ([0x53] @ pack_uint64 (bo_s P) n @ r)"
  have "wf_capsule ?t"
    using assms by (simp add: wf_hosts_def wf_capsule_def rx_capsule_def StopWaitRx_def step_simps)
  then have "capsule_unpack bo cap (resp_msg P n r) = (True, ?t\<lparr>m_interfaceAddress := m_interfaceAddress cap\<rparr>)"
    unfolding resp_msg_def by (rule capsule_unpack_pack)
  moreover have "getPortsDS bo (?t\<lparr>m_interfaceAddress := m_interfaceAddress cap\<rparr>) = Some (client_port P, server_port P)"
    by (simp add: rx_capsule_def StopWaitRx_def)
  moreover have "drop 4 (m_data ?t) = [0x53] @ pack_uint64 (bo_s P) n @ r"
    by (simp add: rx_capsule_def ds_data(1) StopWaitRx_def)
  ultimately show ?thesis
    by (auto simp: rx_capsule_def setSourceAddress_def setDestinationAddress_def StopWaitRx_def setDSdata_def setDS_def)
qed

lemma deliver_req:
  assumes "wf_hosts P" and "srv_session w = session_at P e l" and "alive w"
  shows "deliver P (req_msg P n r) w =
    (if n \<noteq> e then ret (w\<lparr>to_client := to_client w @ [l]\<rparr>)
     else case hdl P e r (app w) of
       ((ok, response), a) \<Rightarrow>
         if \<not> ok then ret (w\<lparr>app := a, alive := False\<rparr>)
         else ret (w\<lparr>to_client := to_client w @ [resp_msg P e response],
                srv_session := session_at P (e + 1) (resp_msg P e response), app := a\<rparr>))"
proof -
  obtain c where c: "capsule_unpack (bo_s P) (heap_s P) (req_msg P n r) = (True, c)"
    "m_srcAddress c = client_address P" "getPortsDS (bo_s P) c = Some (server_port P, client_port P)"
    "drop 4 (m_data c) = [0x53] @ pack_uint64 (bo_c P) n @ r" "4 \<le> length (m_data c)"
    using req_unpack [OF assms(1)] by blast
  define d where "d = [0x53] @ pack_uint64 (bo_c P) n @ r"
  have d: "\<not> length d < 9" "d ! 0 = 0x53" "unpackUint64 (bo_s P) d 1 = n" "drop 9 d = r"
    using datagram_fields [where bo = "bo_c P" and n = n and x = r] unfolding d_def by (simp_all only: not_less)
  have c4: "drop 4 (m_data c) = d" using c(4) by (simp only: d_def)
  have "incommingCapsule (bo_s P) server_send (heap_s P) (hdl P) c (srv_session w) (app w) w =
    (if n \<noteq> e then ret ((True, srv_session w, app w), w\<lparr>to_client := to_client w @ [l]\<rparr>)
     else case hdl P e r (app w) of
       ((ok, response), a) \<Rightarrow>
         if \<not> ok then ret ((False, srv_session w, a), w)
         else ret ((True, session_at P (e + 1) (resp_msg P e response), a),
                w\<lparr>to_client := to_client w @ [resp_msg P e response]\<rparr>))"
    using c(2,3,5) d(1) unfolding incommingCapsule_def c4 Let_def d(2-4)
    by (simp add: assms(2) server_send_def rx_capsule_session [simplified] split: prod.split)
  then show ?thesis
    using c(1) assms(2,3) by (simp add: deliver_def split: prod.split)
qed

section \<open>The invariant\<close>

definition seqno :: "nat \<Rightarrow> u64" where
  "seqno i = word_of_nat (Suc i)"

lemma seqno_inject: "i < 2 ^ 64 - 1 \<Longrightarrow> j < 2 ^ 64 - 1 \<Longrightarrow> seqno i = seqno j \<longleftrightarrow> i = j"
  unfolding seqno_def by (subst word_of_nat_eq_iff) (simp add: take_bit_eq_mod)

lemma seqno_Suc: "seqno (Suc i) = seqno i + 1"
  by (simp add: seqno_def)

text \<open>What the server ever sends: answers to the requests it has served.\<close>

definition answer :: "'a hosts \<Rightarrow> bytes list \<Rightarrow> bytes \<Rightarrow> bool" where
  "answer P rs b \<longleftrightarrow> b = [] \<or> (\<exists>i < length rs. b = resp_msg P (seqno i) (rs ! i))"

definition last_answer :: "'a hosts \<Rightarrow> bytes list \<Rightarrow> bytes" where
  "last_answer P rs = (if rs = [] then [] else resp_msg P (seqno (length rs - 1)) (last rs))"

lemma answer_last [simp]: "answer P rs (last_answer P rs)"
  by (auto simp: answer_def last_answer_def last_conv_nth intro!: exI [of _ "length rs - 1"])

text \<open>The handler, from \<open>a0\<close> on, accepts the requests one after the other.\<close>

definition serves :: "'a hosts \<Rightarrow> 'a \<Rightarrow> bytes list \<Rightarrow> bool" where
  "serves P a0 reqs \<longleftrightarrow> serve_once (hdl P) 1 reqs a0 \<noteq> None"

text \<open>
  The client has finished \<open>past\<close> and works on \<open>r\<close>; the server has served \<open>reqs\<close>, which is
  \<open>past\<close> or also \<open>r\<close>, with the answers \<open>rs\<close>.
\<close>

definition net_inv :: "'a hosts \<Rightarrow> 'a \<Rightarrow> bytes list \<Rightarrow> bytes \<Rightarrow> bytes list \<Rightarrow> bytes list \<Rightarrow> 'a net \<Rightarrow> bool" where
  "net_inv P a0 past r reqs rs w \<longleftrightarrow>
     (reqs = past \<or> reqs = past @ [r]) \<and>
     (\<forall>b \<in> set (to_server w). \<exists>i < Suc (length past). b = req_msg P (seqno i) ((past @ [r]) ! i)) \<and>
     (\<forall>b \<in> set (to_client w). answer P rs b) \<and>
     srv_session w = session_at P (seqno (length reqs)) (last_answer P rs) \<and>
     (\<exists>a. serve_once (hdl P) 1 reqs a0 = Some (rs, a) \<and> (alive w \<longrightarrow> app w = a)) \<and>
     (reqs = past @ [r] \<or> serves P a0 (past @ [r]) \<longrightarrow> alive w)"

lemma serve_once_snoc:
  "serve_once h n (reqs @ [r]) a =
     (case serve_once h n reqs a of None \<Rightarrow> None
      | Some (rs, a') \<Rightarrow>
          case h (n + word_of_nat (length reqs)) r a' of
            ((ok, response), a'') \<Rightarrow> if ok then Some (rs @ [response], a'') else None)"
  by (induction reqs arbitrary: n a) (auto simp: add.assoc split: option.splits prod.splits)

lemma serve_once_length: "serve_once h n reqs a = Some (rs, a') \<Longrightarrow> length rs = length reqs"
  by (induction reqs arbitrary: n a rs) (auto split: prod.splits if_splits option.splits)

lemma answer_append: "answer P rs b \<Longrightarrow> answer P (rs @ [x]) b"
  by (auto simp: answer_def nth_append)

lemma deliver_inv:
  assumes "wf_hosts P" and "length past < 2 ^ 64 - 2" and "net_inv P a0 past r reqs rs w" and "b \<in> set (to_server w)"
  shows "\<exists>w' reqs' rs'. deliver P b w = ret w' \<and> net_inv P a0 past r reqs' rs' w' \<and>
    to_server w' = to_server w \<and> schedule w' = schedule w"
proof (cases "alive w")
  case False
  then have "deliver P b w = ret w" by (simp add: deliver_def)
  then show ?thesis using assms(3) by blast
next
  case alive: True
  obtain i where i: "i < Suc (length past)" "b = req_msg P (seqno i) ((past @ [r]) ! i)"
    using assms(3,4) by (auto simp: net_inv_def)
  define l where "l = last_answer P rs"
  have l: "answer P rs l" "srv_session w = session_at P (seqno (length reqs)) l"
    using assms(3) by (simp_all add: net_inv_def l_def)
  obtain a where a: "serve_once (hdl P) 1 reqs a0 = Some (rs, a)" "app w = a"
    using assms(3) alive by (auto simp: net_inv_def)
  note d = deliver_req [OF assms(1) l(2) alive, of "seqno i" "(past @ [r]) ! i", folded i(2)]
  have reqs: "reqs = past \<or> reqs = past @ [r]" using assms(3) by (simp add: net_inv_def)
  then have eq: "seqno i = seqno (length reqs) \<longleftrightarrow> i = length reqs"
    using i(1) assms(2) by (intro seqno_inject) auto
  show ?thesis
  proof (cases "i = length reqs")
    case False
    then have "deliver P b w = ret (w\<lparr>to_client := to_client w @ [l]\<rparr>)" using d eq by simp
    moreover have "net_inv P a0 past r reqs rs (w\<lparr>to_client := to_client w @ [l]\<rparr>)"
      using assms(3) l(1) by (simp add: net_inv_def)
    ultimately show ?thesis by fastforce
  next
    case same: True
    then have past: "reqs = past" and r: "(past @ [r]) ! i = r" using i(1) reqs by auto
    obtain ok resp a' where h: "hdl P (seqno (length reqs)) r a = ((ok, resp), a')" by (metis prod.exhaust)
    show ?thesis
    proof (cases ok)
      case False
      then have "deliver P b w = ret (w\<lparr>app := a', alive := False\<rparr>)" using d eq same r h a(2) by simp
      moreover have refused: "\<not> serves P a0 (past @ [r])"
        using a(1) h False past by (simp add: serves_def serve_once_snoc seqno_def)
      moreover have "net_inv P a0 past r reqs rs (w\<lparr>app := a', alive := False\<rparr>)"
        using assms(3) past refused by (auto simp: net_inv_def)
      ultimately show ?thesis by fastforce
    next
      case True
      let ?m = "resp_msg P (seqno (length reqs)) resp"
      have out: "deliver P b w = ret (w\<lparr>to_client := to_client w @ [?m],
          srv_session := session_at P (seqno (length reqs) + 1) ?m, app := a'\<rparr>)"
        using d eq same r h a(2) True by simp
      have "serve_once (hdl P) 1 (past @ [r]) a0 = Some (rs @ [resp], a')"
        using a(1) h True past by (simp add: serve_once_snoc seqno_def)
      moreover have m: "?m = last_answer P (rs @ [resp])"
        using serve_once_length [OF a(1)] by (simp add: last_answer_def)
      ultimately have "net_inv P a0 past r (past @ [r]) (rs @ [resp]) (w\<lparr>to_client := to_client w @ [?m],
          srv_session := session_at P (seqno (length reqs) + 1) ?m, app := a'\<rparr>)"
        using assms(3) past alive answer_last [of P "rs @ [resp]"] unfolding m
        by (auto simp: net_inv_def seqno_Suc answer_append)
      with out show ?thesis by fastforce
    qed
  qed
qed

lemma pick_from_in: "pick_from p xs = Some b \<Longrightarrow> b \<in> set xs"
  by (auto simp: pick_from_def split: pick.splits if_splits)

lemma deliver_picks_inv:
  assumes "wf_hosts P" and "length past < 2 ^ 64 - 2" and "net_inv P a0 past r reqs rs w"
  shows "\<exists>w' reqs' rs'. deliver_picks P ps w = ret w' \<and> net_inv P a0 past r reqs' rs' w' \<and>
    to_server w' = to_server w \<and> schedule w' = schedule w"
  using assms(3)
proof (induction ps arbitrary: w reqs rs)
  case (Cons p ps)
  show ?case
  proof (cases "pick_from p (to_server w)")
    case None
    then show ?thesis using Cons by simp
  next
    case (Some b)
    obtain w1 reqs1 rs1 where w1: "deliver P b w = ret w1" "net_inv P a0 past r reqs1 rs1 w1"
      "to_server w1 = to_server w" "schedule w1 = schedule w"
      using deliver_inv [OF assms(1,2) Cons.prems pick_from_in [OF Some]] by blast
    then show ?thesis using Cons.IH [OF w1(2)] Some by simp
  qed
qed auto

text \<open>Whatever the network does during a wait, a datagram the client accepts is an answer of the server.\<close>

definition client_at :: "'a hosts \<Rightarrow> nat \<Rightarrow> stopwaittx" where
  "client_at P n = (start_client P)\<lparr>tx_expectedSeqNum := seqno n\<rparr>"

lemma client_at_simps [simp]:
  "tx_serverAddress (client_at P n) = server_address P" "tx_serverPort (client_at P n) = server_port P"
  "tx_clientAddress (client_at P n) = client_address P" "tx_clientPort (client_at P n) = client_port P"
  "tx_expectedSeqNum (client_at P n) = seqno n" "tx_repetitions (client_at P n) = max_tries P"
  "(client_at P n)\<lparr>tx_expectedSeqNum := seqno n + 1\<rparr> = client_at P (Suc n)"
  by (simp_all add: client_at_def start_client_def StopWaitTx_def seqno_Suc)

lemmas codes = SAN2_WAITFORCAPSULE_TIMEOUT_def SAN2_WAITFORCAPSULE_ERROR_def SAN2_WAITFORCAPSULE_SUCCESS_def
  SAN2_WAITFORCAPSULE_ERROR_CAPSULE_UNPACK_def

lemma await_answers:
  assumes "wf_hosts P" and "schedule w = (ps, arr) # rounds" and "deliver_picks P ps (w\<lparr>schedule := rounds\<rparr>) = ret w'"
    and "\<forall>b \<in> set (to_client w'). answer P rs b"
  shows "\<exists>ok d. awaitDatagram (bo_c P) (net_wait P) cap (client_at P n) data t w = ret ((ok, d), w') \<and>
    (ok \<longrightarrow> (\<exists>i < length rs. d = [0x53] @ pack_uint64 (bo_s P) (seqno i) @ rs ! i))"
proof -
  obtain code c where arr: "arrive P cap arr w' = (code, c)" by fastforce
  have wait: "net_wait P cap t w = ret ((code, c), w')" using assms(2,3) arr by (simp add: net_wait_def)
  show ?thesis
  proof (cases "\<exists>b \<in> set (to_client w'). code = SAN2_WAITFORCAPSULE_SUCCESS \<and> capsule_unpack (bo_c P) cap b = (True, c)")
    case True
    then obtain b where b: "b \<in> set (to_client w')" "capsule_unpack (bo_c P) cap b = (True, c)"
      "code = SAN2_WAITFORCAPSULE_SUCCESS" by blast
    then have "answer P rs b" using assms(4) by blast
    moreover have "b \<noteq> []" using b(2) by (auto simp: capsule_unpack_def headerSize_def sanAddressSize_def)
    ultimately obtain i where i: "i < length rs" "b = resp_msg P (seqno i) (rs ! i)" by (auto simp: answer_def)
    then have "m_srcAddress c = server_address P" "getPortsDS (bo_c P) c = Some (client_port P, server_port P)"
      "drop 4 (m_data c) = [0x53] @ pack_uint64 (bo_s P) (seqno i) @ rs ! i"
      using resp_unpack [OF assms(1), of "bo_c P" cap "seqno i" "rs ! i"] b(2) by auto
    then have "awaitDatagram (bo_c P) (net_wait P) cap (client_at P n) data t w =
        ret ((True, [0x53] @ pack_uint64 (bo_s P) (seqno i) @ rs ! i), w')"
      using b(3) by (simp add: awaitDatagram_def wait)
    then show ?thesis using i(1) by auto
  next
    case False
    have "code \<noteq> SAN2_WAITFORCAPSULE_SUCCESS \<or> m_srcAddress c \<noteq> server_address P"
    proof (cases arr)
      case (Answer p)
      show ?thesis
      proof (cases "pick_from p (to_client w')")
        case None
        then show ?thesis using arr Answer by (auto simp: arrive_def codes)
      next
        case (Some b)
        obtain ok c' where u: "capsule_unpack (bo_c P) cap b = (ok, c')" by fastforce
        then have "(code, c) = (if ok then SAN2_WAITFORCAPSULE_SUCCESS else SAN2_WAITFORCAPSULE_ERROR_CAPSULE_UNPACK, c')"
          using arr Answer Some by (simp add: arrive_def)
        then show ?thesis using False pick_from_in [OF Some] u by (cases ok) (auto simp: codes)
      qed
    qed (use arr in \<open>auto simp: arrive_def codes split: if_splits\<close>)
    then have "awaitDatagram (bo_c P) (net_wait P) cap (client_at P n) data t w = ret ((False, data), w')"
      by (auto simp: awaitDatagram_def wait split: option.split)
    then show ?thesis by blast
  qed
qed

lemma await_nothing:
  "schedule w = [] \<Longrightarrow> awaitDatagram (bo_c P) (net_wait P) cap (client_at P n) data t w = ret ((False, data), w)"
  by (simp add: awaitDatagram_def net_wait_def codes)

lemma await_inv:
  assumes "wf_hosts P" and "length past < 2 ^ 64 - 2" and "net_inv P a0 past r reqs rs w"
  shows "\<exists>ok d w' reqs' rs'. awaitDatagram (bo_c P) (net_wait P) cap (client_at P n) data t w = ret ((ok, d), w') \<and>
    net_inv P a0 past r reqs' rs' w' \<and> schedule w' = drop 1 (schedule w) \<and>
    (ok \<longrightarrow> (\<exists>i < length rs'. d = [0x53] @ pack_uint64 (bo_s P) (seqno i) @ rs' ! i))"
proof (cases "schedule w")
  case Nil
  then show ?thesis using assms(3) by (auto simp: await_nothing)
next
  case (Cons round rounds)
  obtain ps arr where round: "round = (ps, arr)" by (cases round)
  have "net_inv P a0 past r reqs rs (w\<lparr>schedule := rounds\<rparr>)" using assms(3) by (simp add: net_inv_def)
  from deliver_picks_inv [OF assms(1,2) this, of ps]
  obtain w' reqs' rs' where w': "deliver_picks P ps (w\<lparr>schedule := rounds\<rparr>) = ret w'"
    "net_inv P a0 past r reqs' rs' w'" "schedule w' = rounds" by auto
  have "\<forall>b \<in> set (to_client w'). answer P rs' b" using w'(2) by (simp add: net_inv_def)
  moreover have "schedule w' = drop 1 (schedule w)" using w'(3) Cons by simp
  ultimately show ?thesis
    using await_answers [OF assms(1) Cons [unfolded round] w'(1), of rs' cap n data t] w'(2) by blast
qed

lemma send_tries_inv:
  assumes "wf_hosts P" and "length past < 2 ^ 64 - 2" and "net_inv P a0 past r reqs rs w"
  shows "\<exists>ok resp swt w' reqs' rs'.
    send_tries (bo_c P) client_send (net_wait P) cap (req_msg P (seqno (length past)) r) tries
      (client_at P (length past)) data w = ret ((ok, resp, swt), w') \<and>
    net_inv P a0 past r reqs' rs' w' \<and> (\<exists>m \<le> tries. schedule w' = drop m (schedule w)) \<and>
    (ok \<longrightarrow> reqs' = past @ [r] \<and> resp = rs' ! length past \<and> swt = client_at P (Suc (length past)))"
  using assms(3)
proof (induction tries arbitrary: w data reqs rs)
  case 0
  then show ?case by auto
next
  case (Suc tries)
  let ?n = "length past" and ?m = "req_msg P (seqno (length past)) r"
  have "net_inv P a0 past r reqs rs (w\<lparr>to_server := to_server w @ [?m]\<rparr>)"
    using Suc.prems by (auto simp: net_inv_def)
  from await_inv [OF assms(1,2) this, of cap ?n data "tx_timeout (client_at P ?n)"]
  obtain ok d w1 reqs1 rs1 where aw: "awaitDatagram (bo_c P) (net_wait P) cap (client_at P ?n) data
      (tx_timeout (client_at P ?n)) (w\<lparr>to_server := to_server w @ [?m]\<rparr>) = ret ((ok, d), w1)"
    and inv: "net_inv P a0 past r reqs1 rs1 w1" and sch0: "schedule w1 = drop 1 (schedule (w\<lparr>to_server := to_server w @ [?m]\<rparr>))"
    and d: "ok \<longrightarrow> (\<exists>i < length rs1. d = [0x53] @ pack_uint64 (bo_s P) (seqno i) @ rs1 ! i)" by blast
  have sch: "schedule w1 = drop 1 (schedule w)" using sch0 by simp
  have later: "\<exists>m \<le> Suc tries. schedule v = drop m (schedule w)" if "\<exists>m \<le> tries. schedule v = drop m (schedule w1)" for v
    using that sch by auto
  from Suc.IH [OF inv, of d] obtain ok' resp swt v reqs' rs' where
    IH: "send_tries (bo_c P) client_send (net_wait P) cap ?m tries (client_at P ?n) d w1 = ret ((ok', resp, swt), v)"
      "net_inv P a0 past r reqs' rs' v" "\<exists>m \<le> Suc tries. schedule v = drop m (schedule w)"
      "ok' \<longrightarrow> reqs' = past @ [r] \<and> resp = rs' ! length past \<and> swt = client_at P (Suc (length past))"
    using later by blast
  have now: "\<exists>m \<le> Suc tries. schedule w1 = drop m (schedule w)" using sch by (intro exI [of _ 1]) simp
  have retry: ?case if "send_tries (bo_c P) client_send (net_wait P) cap ?m (Suc tries) (client_at P ?n) data w =
      send_tries (bo_c P) client_send (net_wait P) cap ?m tries (client_at P ?n) d w1"
    unfolding that using IH by blast
  show ?case
  proof (cases ok)
    case False
    then show ?thesis using aw by (intro retry) (simp add: client_send_def)
  next
    case True
    then obtain i where i: "i < length rs1" "d = [0x53] @ pack_uint64 (bo_s P) (seqno i) @ rs1 ! i" using d by blast
    have f: "\<not> length d < 9" "d ! 0 = 0x53" "unpackUint64 (bo_c P) d 1 = seqno i" "drop 9 d = rs1 ! i"
      using datagram_fields [where bo = "bo_s P" and n = "seqno i" and x = "rs1 ! i"] unfolding i(2)
      by (simp_all only: not_less)
    obtain a where "serve_once (hdl P) 1 reqs1 a0 = Some (rs1, a)" using inv by (auto simp: net_inv_def)
    then have len: "length rs1 = length reqs1" by (rule serve_once_length)
    moreover have reqs1: "reqs1 = past \<or> reqs1 = past @ [r]" using inv by (simp add: net_inv_def)
    ultimately have eq: "seqno i = seqno ?n \<longleftrightarrow> i = ?n" using i(1) assms(2) by (intro seqno_inject) auto
    show ?thesis
    proof (cases "i = ?n")
      case False
      then show ?thesis using aw True f eq by (intro retry) (simp add: client_send_def)
    next
      case same: True
      then have "reqs1 = past @ [r]" using reqs1 len i(1) by auto
      moreover have "send_tries (bo_c P) client_send (net_wait P) cap ?m (Suc tries) (client_at P ?n) data w =
          ret ((True, rs1 ! ?n, client_at P (Suc ?n)), w1)"
        using aw True f eq same by (simp add: client_send_def)
      ultimately show ?thesis using inv now by blast
    qed
  qed
qed

lemma net_inv_next:
  assumes "net_inv P a0 past r (past @ [r]) rs w"
  shows "net_inv P a0 (past @ [r]) r' (past @ [r]) rs w"
proof -
  have more: "((past @ [r]) @ [r']) ! i = (past @ [r]) ! i" "i < Suc (length (past @ [r]))"
    if "i < Suc (length past)" for i
    using that nth_append [of "past @ [r]" "[r']" i] by simp_all
  have "\<exists>i < Suc (length (past @ [r])). b = req_msg P (seqno i) (((past @ [r]) @ [r']) ! i)" if b: "b \<in> set (to_server w)" for b
  proof -
    obtain i where "i < Suc (length past)" "b = req_msg P (seqno i) ((past @ [r]) ! i)"
      using net_inv_def [THEN iffD1, OF assms, THEN conjunct2, THEN conjunct1, THEN bspec, OF b] by (elim exE conjE)
    then show ?thesis using more [of i] by (intro exI [of _ i]) (simp only: simp_thms)
  qed
  then show ?thesis
    using assms unfolding net_inv_def by (elim conjE, intro conjI) (assumption | simp only: simp_thms | blast)+
qed

text \<open>
  Between calls: everything asked has been served, so that the invariant holds for whatever
  request comes next.
\<close>

definition settled :: "'a hosts \<Rightarrow> 'a \<Rightarrow> bytes list \<Rightarrow> bytes list \<Rightarrow> 'a net \<Rightarrow> bool" where
  "settled P a0 past rs w \<longleftrightarrow> alive w \<and> (\<forall>r. net_inv P a0 past r past rs w)"

lemma client_call_inv:
  assumes "wf_hosts P" and "length past < 2 ^ 64 - 2" and "settled P a0 past rs w"
  shows "\<exists>ok resp swt w' reqs' rs'. client_call P r (client_at P (length past)) w = ret ((ok, resp, swt), w') \<and>
    net_inv P a0 past r reqs' rs' w' \<and> (\<exists>m \<le> max_tries P. schedule w' = drop m (schedule w)) \<and>
    (ok \<longrightarrow> settled P a0 (past @ [r]) rs' w' \<and> resp = rs' ! length past \<and> swt = client_at P (Suc (length past)))"
proof -
  have "tx_capsule (bo_c P) (heap_c P) (client_at P (length past)) r =
      tx_capsule (bo_c P) (heap_c P) ((start_client P)\<lparr>tx_expectedSeqNum := seqno (length past)\<rparr>) r"
    by (simp add: client_at_def)
  then have "client_call P r (client_at P (length past)) w =
      send_tries (bo_c P) client_send (net_wait P) (heap_c P) (req_msg P (seqno (length past)) r)
        (max_tries P) (client_at P (length past)) [] w"
    by (simp add: client_call_def sendReliableMessage_def req_msg_def)
  moreover have "net_inv P a0 past r past rs w" using assms(3) by (simp add: settled_def)
  from send_tries_inv [OF assms(1,2) this, of "heap_c P" "max_tries P" "[]"]
  obtain ok resp swt w' reqs' rs' where call: "send_tries (bo_c P) client_send (net_wait P) (heap_c P)
      (req_msg P (seqno (length past)) r) (max_tries P) (client_at P (length past)) [] w = ret ((ok, resp, swt), w')"
    and inv: "net_inv P a0 past r reqs' rs' w'" and sch: "\<exists>m \<le> max_tries P. schedule w' = drop m (schedule w)"
    and ok: "ok \<longrightarrow> reqs' = past @ [r] \<and> resp = rs' ! length past \<and> swt = client_at P (Suc (length past))"
    by blast
  moreover have "settled P a0 (past @ [r]) rs' w'" if ok
  proof -
    have reqs': "reqs' = past @ [r]" using ok that by blast
    then have "alive w'" using inv by (simp only: net_inv_def simp_thms)
    then show ?thesis using net_inv_next [OF inv [unfolded reqs']] by (simp add: settled_def)
  qed
  ultimately show ?thesis using inv ok sch by auto
qed

lemma settled_prefix:
  assumes "settled P a0 (past @ [r]) rs w" and "settled P a0 (past @ [r] @ later) rs' w'"
  shows "take (length rs) rs' = rs"
proof -
  have pre: "take (length rs) rs' = rs"
    if "serve_once h n xs a = Some (rs, b)" "serve_once h n (xs @ ys) a = Some (rs', c)" for h n xs ys a b c rs rs'
    using that by (induction xs arbitrary: n a rs rs') (auto split: prod.splits if_splits option.splits)
  show ?thesis
    using assms pre [of "hdl P" 1 "past @ [r]" a0 rs _ later rs'] by (fastforce simp: settled_def net_inv_def)
qed

lemma client_calls_inv:
  assumes "wf_hosts P" and "length past + length reqs < 2 ^ 64 - 1" and "settled P a0 past rs w"
    and "client_calls P reqs (client_at P (length past)) w = ret ((True, responses, swt), w')"
  shows "\<exists>rs'. settled P a0 (past @ reqs) rs' w' \<and> drop (length past) rs' = responses \<and> swt = client_at P (length past + length reqs)"
  using assms(2-)
proof (induction reqs arbitrary: past rs w responses)
  case Nil
  obtain a where "serve_once (hdl P) 1 past a0 = Some (rs, a)" using Nil.prems(2) by (auto simp: settled_def net_inv_def)
  then show ?case using Nil.prems serve_once_length by fastforce
next
  case (Cons r reqs)
  have small: "length past < 2 ^ 64 - 2" using Cons.prems(1) by simp
  from client_call_inv [OF assms(1) small Cons.prems(2), of r]
  obtain ok resp swt1 w1 reqs1 rs1 where call: "client_call P r (client_at P (length past)) w = ret ((ok, resp, swt1), w1)"
    and inv: "ok \<longrightarrow> settled P a0 (past @ [r]) rs1 w1 \<and> resp = rs1 ! length past \<and> swt1 = client_at P (Suc (length past))"
    by blast
  then have ok: ok using Cons.prems(3) by (cases ok) auto
  obtain responses' where rest: "client_calls P reqs (client_at P (length (past @ [r]))) w1 = ret ((True, responses', swt), w')"
    and resp: "responses = resp # responses'"
    using Cons.prems(3) call inv ok by (auto simp: io_bind_eq_ret)
  obtain rs' where rs': "settled P a0 ((past @ [r]) @ reqs) rs' w'" "drop (length (past @ [r])) rs' = responses'"
    and swt: "swt = client_at P (length past + length (r # reqs))"
    using Cons.IH [of "past @ [r]" rs1 w1 responses'] Cons.prems(1) inv ok rest by auto
  have pre: "take (length rs1) rs' = rs1" using settled_prefix inv ok rs'(1) by fastforce
  have len: "length rs1 = Suc (length past)" "length past < length rs'"
    using inv ok rs'(1) serve_once_length by (fastforce simp: settled_def net_inv_def)+
  have "rs' ! length past = resp" using pre len inv ok by (metis lessI nth_take)
  then have "drop (length past) rs' = resp # responses'"
    using rs'(2) len(2) by (simp add: Cons_nth_drop_Suc [symmetric])
  then show ?case using rs'(1) resp swt by auto
qed

text \<open>
  C1. Exactly once, in order, over an unreliable network. The client makes any number of calls
  (fewer than $2^{64} - 1$) while the network loses, repeats, delays and reorders capsules of both
  sides and slips in capsules of other hosts. If all of its calls succeed, the session's handler has
  run exactly once on each request, in order, whatever was sent again; the responses the client
  has are those of that run, one per request; and the session's state is the state after it.
\<close>

lemma exactly_once_in_order:
  assumes "wf_hosts P" and "length reqs < 2 ^ 64 - 1"
    and "client_calls P reqs (start_client P) (start_net P a0 rounds) = ret ((True, responses, swt), w')"
  shows "serve_once (hdl P) 1 reqs a0 = Some (responses, app w')"
proof -
  have "settled P a0 [] [] (start_net P a0 rounds)"
    by (simp add: settled_def net_inv_def start_net_def session_at_def StopWaitRx_def seqno_def)
      (simp add: last_answer_def)
  moreover have "start_client P = client_at P (length [])"
    by (simp add: client_at_def start_client_def StopWaitTx_def seqno_def)
  ultimately obtain rs where "settled P a0 reqs rs w'" "rs = responses"
    using client_calls_inv [OF assms(1), of "[]" reqs a0 "[]"] assms(2,3) by auto
  then show ?thesis by (auto simp: settled_def net_inv_def)
qed

section \<open>Progress\<close>

text \<open>A round in which the latest request reaches the server and the latest answer comes back.\<close>

definition good_round :: "pick list \<times> arrival" where
  "good_round = ([Latest], Answer Latest)"

text \<open>Of any \<open>k\<close> rounds in a row one is good.\<close>

definition fair :: "nat \<Rightarrow> (pick list \<times> arrival) list \<Rightarrow> bool" where
  "fair k rounds \<longleftrightarrow> (\<forall>i. i + k \<le> length rounds \<longrightarrow> (\<exists>j < k. rounds ! (i + j) = good_round))"

lemma fair_drop: "fair k rounds \<Longrightarrow> fair k (drop m rounds)"
  unfolding fair_def
proof (intro allI impI)
  fix i
  assume f: "\<forall>i. i + k \<le> length rounds \<longrightarrow> (\<exists>j < k. rounds ! (i + j) = good_round)"
    and i: "i + k \<le> length (drop m rounds)"
  show "\<exists>j < k. drop m rounds ! (i + j) = good_round"
  proof (cases "m \<le> length rounds")
    case True
    then have "(m + i) + k \<le> length rounds" using i by simp
    then obtain j where "j < k" "rounds ! (m + i + j) = good_round" using f by blast
    then show ?thesis using True by (intro exI [of _ j]) (simp add: add.assoc)
  next
    case False
    then have "k = 0" using i by simp
    then show ?thesis using f by (auto dest: spec [of _ 0])
  qed
qed

lemma deliver_latest:
  assumes "wf_hosts P" and "length past < 2 ^ 64 - 2" and "net_inv P a0 past r reqs rs w" and "serves P a0 (past @ [r])"
  shows "\<exists>w' x C. deliver P (req_msg P (seqno (length past)) r) w = ret w' \<and>
    to_client w' = C @ [resp_msg P (seqno (length past)) x]"
proof -
  have alive: "alive w" and ses: "srv_session w = session_at P (seqno (length reqs)) (last_answer P rs)"
    and reqs: "reqs = past \<or> reqs = past @ [r]"
    using assms(3,4) by (auto simp: net_inv_def)
  obtain a where len: "length rs = length reqs"
    using assms(3) serve_once_length by (fastforce simp: net_inv_def)
  note d = deliver_req [OF assms(1) ses alive, of "seqno (length past)" r]
  from reqs show ?thesis
  proof
    assume p: "reqs = past"
    obtain ok resp a' where h: "hdl P (seqno (length past)) r (app w) = ((ok, resp), a')" by (metis prod.exhaust)
    moreover obtain a where "serve_once (hdl P) 1 past a0 = Some (rs, a)" "app w = a"
      using assms(3) alive p by (auto simp: net_inv_def)
    then have ok using assms(4) h by (cases ok) (simp_all add: serves_def serve_once_snoc seqno_def)
    ultimately show ?thesis using d p by auto
  next
    assume p: "reqs = past @ [r]"
    have "seqno (length past) \<noteq> seqno (length reqs)" using p assms(2) by (subst seqno_inject) auto
    moreover have "last_answer P rs = resp_msg P (seqno (length past)) (last rs)"
      using len p by (cases "rs = []") (simp_all add: last_answer_def)
    ultimately show ?thesis using d by auto
  qed
qed

lemma await_latest:
  assumes "wf_hosts P" and "schedule w = good_round # rounds"
    and "deliver_picks P [Latest] (w\<lparr>schedule := rounds\<rparr>) = ret w'" and "to_client w' = C @ [resp_msg P m x]"
  shows "awaitDatagram (bo_c P) (net_wait P) cap (client_at P n) data t w = ret ((True, [0x53] @ pack_uint64 (bo_s P) m @ x), w')"
proof -
  obtain c where c: "capsule_unpack (bo_c P) cap (resp_msg P m x) = (True, c)"
    "m_srcAddress c = server_address P" "getPortsDS (bo_c P) c = Some (client_port P, server_port P)"
    "drop 4 (m_data c) = [0x53] @ pack_uint64 (bo_s P) m @ x"
    using resp_unpack [OF assms(1)] by blast
  have "net_wait P cap t w = ret (arrive P cap (Answer Latest) w', w')"
    using assms(2,3) by (simp add: net_wait_def good_round_def del: deliver_picks.simps)
  also have "arrive P cap (Answer Latest) w' = (SAN2_WAITFORCAPSULE_SUCCESS, c)"
    using assms(4) c(1) by (simp add: arrive_def pick_from_def)
  finally show ?thesis using c(2-4) by (simp add: awaitDatagram_def)
qed

lemma await_good:
  assumes "wf_hosts P" and "length past < 2 ^ 64 - 2" and "net_inv P a0 past r reqs rs w" and "serves P a0 (past @ [r])"
    and "to_server w = X @ [req_msg P (seqno (length past)) r]" and "schedule w = good_round # rounds"
  shows "\<exists>x w'. awaitDatagram (bo_c P) (net_wait P) cap (client_at P n) data t w =
    ret ((True, [0x53] @ pack_uint64 (bo_s P) (seqno (length past)) @ x), w')"
proof -
  have "net_inv P a0 past r reqs rs (w\<lparr>schedule := rounds\<rparr>)" using assms(3) by (simp add: net_inv_def)
  from deliver_latest [OF assms(1,2) this assms(4)]
  obtain w' x C where w': "deliver P (req_msg P (seqno (length past)) r) (w\<lparr>schedule := rounds\<rparr>) = ret w'"
    "to_client w' = C @ [resp_msg P (seqno (length past)) x]" by blast
  then have "deliver_picks P [Latest] (w\<lparr>schedule := rounds\<rparr>) = ret w'" using assms(5) by (simp add: pick_from_def)
  from await_latest [OF assms(1,6) this w'(2)] show ?thesis by blast
qed

lemma send_tries_succeeds:
  assumes "wf_hosts P" and "length past < 2 ^ 64 - 2" and "serves P a0 (past @ [r])"
    and "net_inv P a0 past r reqs rs w" and "j < tries" and "j < length (schedule w)" and "schedule w ! j = good_round"
  shows "\<exists>resp swt w' m. send_tries (bo_c P) client_send (net_wait P) cap (req_msg P (seqno (length past)) r) tries
      (client_at P (length past)) data w = ret ((True, resp, swt), w')"
  using assms(4-)
proof (induction tries arbitrary: w data reqs rs j)
  case (Suc tries)
  let ?n = "length past" and ?m = "req_msg P (seqno (length past)) r"
  let ?w = "w\<lparr>to_server := to_server w @ [?m]\<rparr>"
  have inv0: "net_inv P a0 past r reqs rs ?w" using Suc.prems(1) by (auto simp: net_inv_def)
  show ?case
  proof (cases j)
    case 0
    then obtain rounds where "schedule ?w = good_round # rounds" using Suc.prems(3,4) by (cases "schedule w") simp_all
    then obtain x w' where aw: "awaitDatagram (bo_c P) (net_wait P) cap (client_at P ?n) data (tx_timeout (client_at P ?n)) ?w =
        ret ((True, [0x53] @ pack_uint64 (bo_s P) (seqno ?n) @ x), w')"
      using await_good [OF assms(1,2) inv0 assms(3)] by fastforce
    define d where "d = [0x53] @ pack_uint64 (bo_s P) (seqno ?n) @ x"
    have "\<not> length d < 9" "d ! 0 = 0x53" "unpackUint64 (bo_c P) d 1 = seqno ?n"
      using datagram_fields [where bo = "bo_s P" and n = "seqno ?n" and x = x] unfolding d_def
      by (simp_all only: not_less)
    then show ?thesis using aw [folded d_def] by (simp add: client_send_def)
  next
    case (Suc j')
    from await_inv [OF assms(1,2) inv0, of cap ?n data "tx_timeout (client_at P ?n)"]
    obtain ok d w1 reqs1 rs1 where aw: "awaitDatagram (bo_c P) (net_wait P) cap (client_at P ?n) data
        (tx_timeout (client_at P ?n)) ?w = ret ((ok, d), w1)"
      and inv: "net_inv P a0 past r reqs1 rs1 w1" and sch: "schedule w1 = drop 1 (schedule ?w)"
      and d: "ok \<longrightarrow> (\<exists>i < length rs1. d = [0x53] @ pack_uint64 (bo_s P) (seqno i) @ rs1 ! i)" by blast
    have "j' < tries" "j' < length (schedule w1)" "schedule w1 ! j' = good_round"
      using Suc.prems(2-4) Suc sch by auto
    note IH = Suc.IH [OF inv this, of d]
    show ?thesis
    proof (cases ok)
      case False
      then show ?thesis using IH aw by (simp add: client_send_def)
    next
      case True
      then obtain i where i: "d = [0x53] @ pack_uint64 (bo_s P) (seqno i) @ rs1 ! i" using d by blast
      have "\<not> length d < 9" "d ! 0 = 0x53"
        using datagram_fields(1,2) [where bo = "bo_s P" and n = "seqno i" and x = "rs1 ! i"] unfolding i
        by (simp_all only: not_less)
      then show ?thesis
        using IH aw True by (cases "unpackUint64 (bo_c P) d 1 = seqno ?n") (simp_all add: client_send_def)
    qed
  qed
qed simp

lemma client_call_succeeds:
  assumes "wf_hosts P" and "length past < 2 ^ 64 - 2" and "serves P a0 (past @ [r])" and "settled P a0 past rs w"
    and "fair (max_tries P) (schedule w)" and "max_tries P \<le> length (schedule w)"
  shows "\<exists>resp w' rs'. client_call P r (client_at P (length past)) w = ret ((True, resp, client_at P (Suc (length past))), w') \<and>
    settled P a0 (past @ [r]) rs' w' \<and> (\<exists>m \<le> max_tries P. schedule w' = drop m (schedule w))"
proof -
  have inv: "net_inv P a0 past r past rs w" using assms(4) by (simp add: settled_def)
  obtain j where j: "j < max_tries P" "schedule w ! j = good_round"
    using assms(5,6) by (auto simp: fair_def dest: spec [of _ 0])
  from send_tries_succeeds [OF assms(1-3) inv j(1) _ j(2), of "heap_c P" "[]"]
  obtain resp swt w' where s: "send_tries (bo_c P) client_send (net_wait P) (heap_c P) (req_msg P (seqno (length past)) r)
      (max_tries P) (client_at P (length past)) [] w = ret ((True, resp, swt), w')"
    using j(1) assms(6) by auto
  have "client_call P r (client_at P (length past)) w = ret ((True, resp, swt), w')"
    using s by (simp add: client_call_def sendReliableMessage_def req_msg_def client_at_def)
      (simp add: start_client_def StopWaitTx_def)
  moreover from client_call_inv [OF assms(1,2,4), of r]
  obtain ok resp1 swt1 w1 rs1 where "client_call P r (client_at P (length past)) w = ret ((ok, resp1, swt1), w1)"
    "\<exists>m \<le> max_tries P. schedule w1 = drop m (schedule w)"
    "ok \<longrightarrow> settled P a0 (past @ [r]) rs1 w1 \<and> swt1 = client_at P (Suc (length past))" by blast
  ultimately show ?thesis by auto
qed

text \<open>A call whose request the handler accepts, with the handler's answer.\<close>

lemma client_call_serves:
  assumes "wf_hosts P" and "length past < 2 ^ 64 - 2" and "settled P a0 past rs w"
    and "fair (max_tries P) (schedule w)" and "max_tries P \<le> length (schedule w)"
    and "hdl P (seqno (length past)) r (app w) = ((True, resp), a')"
  shows "\<exists>w' rs'. client_call P r (client_at P (length past)) w = ret ((True, resp, client_at P (Suc (length past))), w') \<and>
    settled P a0 (past @ [r]) rs' w' \<and> app w' = a' \<and> (\<exists>m \<le> max_tries P. schedule w' = drop m (schedule w))"
proof -
  have inv: "net_inv P a0 past r past rs w" "alive w" using assms(3) by (simp_all add: settled_def)
  then have a: "serve_once (hdl P) 1 past a0 = Some (rs, app w)" by (auto simp: net_inv_def)
  then have next': "serve_once (hdl P) 1 (past @ [r]) a0 = Some (rs @ [resp], a')"
    using assms(6) by (simp add: serve_once_snoc seqno_def)
  then have "serves P a0 (past @ [r])" by (simp add: serves_def)
  from client_call_succeeds [OF assms(1,2) this assms(3-5)]
  obtain resp' w' where ok: "client_call P r (client_at P (length past)) w = ret ((True, resp', client_at P (Suc (length past))), w')"
    by blast
  with client_call_inv [OF assms(1-3), of r]
  obtain rs' where c: "client_call P r (client_at P (length past)) w = ret ((True, resp', client_at P (Suc (length past))), w')"
    "settled P a0 (past @ [r]) rs' w'" "\<exists>m \<le> max_tries P. schedule w' = drop m (schedule w)" "resp' = rs' ! length past"
    by auto
  have "serve_once (hdl P) 1 (past @ [r]) a0 = Some (rs', app w')"
    using c(2) by (auto simp: settled_def net_inv_def)
  moreover have "(rs @ [resp]) ! length past = resp"
    using serve_once_length [OF a] nth_append_length [of rs resp "[]"] by simp
  ultimately show ?thesis using c next' by auto
qed

lemma serves_prefix: "serves P a0 (xs @ ys) \<Longrightarrow> serves P a0 xs"
proof -
  have pre: "serve_once h n xs a = None \<Longrightarrow> serve_once h n (xs @ ys) a = None" for h n a
  proof (induction xs arbitrary: n a)
    case (Cons x xs)
    obtain ok resp a' where h: "h n x a = ((ok, resp), a')" by (metis prod.exhaust)
    show ?case
    proof (cases ok)
      case True
      then have "serve_once h (n + 1) xs a' = None" using Cons.prems h by (cases "serve_once h (n + 1) xs a'") auto
      then show ?thesis using Cons.IH h True by simp
    qed (simp add: h)
  qed simp
  show "serves P a0 (xs @ ys) \<Longrightarrow> serves P a0 xs" unfolding serves_def by (erule contrapos_nn) (rule pre)
qed

lemma client_calls_succeed:
  assumes "wf_hosts P" and "serves P a0 (past @ reqs)" and "length past + length reqs < 2 ^ 64 - 1" and "settled P a0 past rs w"
    and "fair (max_tries P) (schedule w)" and "length reqs * max_tries P \<le> length (schedule w)"
  shows "\<exists>responses swt w'. client_calls P reqs (client_at P (length past)) w = ret ((True, responses, swt), w')"
  using assms(2-)
proof (induction reqs arbitrary: past rs w)
  case (Cons r reqs)
  have "length past < 2 ^ 64 - 2" "max_tries P \<le> length (schedule w)" using Cons.prems(2,5) by simp_all
  moreover have "serves P a0 (past @ [r])" using serves_prefix [of P a0 "past @ [r]" reqs] Cons.prems(1) by simp
  ultimately obtain resp w1 rs1 m where c: "client_call P r (client_at P (length past)) w = ret ((True, resp, client_at P (Suc (length past))), w1)"
    "settled P a0 (past @ [r]) rs1 w1" "m \<le> max_tries P" "schedule w1 = drop m (schedule w)"
    using client_call_succeeds [OF assms(1) _ _ Cons.prems(3,4), of r] by blast
  have "length reqs * max_tries P \<le> length (schedule w1)" using Cons.prems(5) c(3,4) by simp
  then obtain responses swt w' where
    "client_calls P reqs (client_at P (length (past @ [r]))) w1 = ret ((True, responses, swt), w')"
    using Cons.IH [of "past @ [r]" rs1 w1] c Cons.prems(1,2,4) by (auto simp: fair_drop)
  then show ?case using c(1) by simp
qed simp

lemma settled_start: "settled P a0 [] [] (start_net P a0 rounds)"
  by (simp add: settled_def net_inv_def start_net_def session_at_def StopWaitRx_def seqno_def last_answer_def)

text \<open>
  C9. Progress. If the handler, called once per request in order, accepts them all, and if of any as
  many rounds in a row as the client makes tries one brings the latest request to the server and
  the latest answer back, every call of the client succeeds, with the handler's answers, and the
  session ends in the handler's state; the other rounds may do anything.
\<close>

lemma fair_network_makes_progress:
  assumes "wf_hosts P" and "serve_once (hdl P) 1 reqs a0 = Some (responses, a)" and "length reqs < 2 ^ 64 - 1"
    and "fair (max_tries P) rounds" and "length reqs * max_tries P \<le> length rounds"
  shows "\<exists>swt w'. client_calls P reqs (start_client P) (start_net P a0 rounds) = ret ((True, responses, swt), w') \<and> app w' = a"
proof -
  have start: "start_client P = client_at P (length ([] :: bytes list))"
    by (simp add: client_at_def start_client_def StopWaitTx_def seqno_def)
  have "serves P a0 ([] @ reqs)" using assms(2) by (simp add: serves_def)
  then obtain responses' swt w' where c: "client_calls P reqs (client_at P (length ([] :: bytes list))) (start_net P a0 rounds) =
      ret ((True, responses', swt), w')"
    using client_calls_succeed [OF assms(1) _ _ settled_start [of P a0 rounds], of reqs] assms(3-)
    by (auto simp: start_net_def)
  then obtain rs where "settled P a0 reqs rs w'" "rs = responses'"
    using client_calls_inv [OF assms(1) _ settled_start c] assms(3) by auto
  then have "serve_once (hdl P) 1 reqs a0 = Some (responses', app w')" by (auto simp: settled_def net_inv_def)
  then show ?thesis using c assms(2) start by auto
qed

section \<open>What a client of \<^verbatim>\<open>StopWaitTx\<close> is promised\<close>

text \<open>
  A transport is \<^verbatim>\<open>sendReliableMessage\<close> as its caller sees it; \<open>next_number x\<close> is what
  \<^verbatim>\<open>getNextSequenceNumber\<close> tells. \<open>ready k x a\<close> is good for \<open>k\<close> more calls to a handler in the
  state \<open>a\<close>: a request that the handler accepts under the number told before comes back with its
  response, and the handler has run once.
\<close>

type_synonym 'x transport = "bytes \<Rightarrow> 'x \<Rightarrow> ((bool \<times> bytes) \<times> 'x) io"

definition getNextSequenceNumber :: "stopwaittx \<Rightarrow> u64" where
  "getNextSequenceNumber swt = tx_expectedSeqNum swt"

locale reliable_calls =
  fixes call :: "'x transport" and next_number :: "'x \<Rightarrow> u64" and ready :: "nat \<Rightarrow> 'x \<Rightarrow> 'a \<Rightarrow> bool" and h :: "'a handler"
  assumes number: "ready (Suc k) x a \<Longrightarrow> next_number x \<noteq> 0xFFFFFFFFFFFFFFFF"
    and serves: "ready (Suc k) x a \<Longrightarrow> h (next_number x) request a = ((True, response), a') \<Longrightarrow>
      \<exists>x'. call request x = ret ((True, response), x') \<and> ready k x' a'"

definition network_call :: "'a hosts \<Rightarrow> (stopwaittx \<times> 'a net) transport" where
  "network_call P request = (\<lambda>(swt, w).
     io_bind (client_call P request swt w) (\<lambda>((ok, response, swt), w). ret ((ok, response), (swt, w))))"

text \<open>Enough rounds are left, of which enough are good; and enough numbers.\<close>

definition network_ready :: "'a hosts \<Rightarrow> nat \<Rightarrow> stopwaittx \<times> 'a net \<Rightarrow> 'a \<Rightarrow> bool" where
  "network_ready P k = (\<lambda>(swt, w) a. wf_hosts P \<and> app w = a \<and>
     fair (max_tries P) (schedule w) \<and> k * max_tries P \<le> length (schedule w) \<and>
     (\<exists>a0 past rs. settled P a0 past rs w \<and> swt = client_at P (length past) \<and> length past + k < 2 ^ 64 - 1))"

lemma network_ready_start:
  assumes "wf_hosts P" and "fair (max_tries P) rounds" and "k * max_tries P \<le> length rounds" and "k < 2 ^ 64 - 1"
  shows "network_ready P k (start_client P, start_net P a rounds) a"
proof -
  have start: "start_client P = client_at P (length ([] :: bytes list))"
    by (simp add: client_at_def start_client_def StopWaitTx_def seqno_def)
  then have "settled P a [] [] (start_net P a rounds) \<and> start_client P = client_at P (length ([] :: bytes list)) \<and>
      length ([] :: bytes list) + k < 2 ^ 64 - 1"
    using settled_start [of P a rounds] assms(4) by simp
  then have "\<exists>a0 past rs. settled P a0 past rs (start_net P a rounds) \<and> start_client P = client_at P (length past) \<and>
      length past + k < 2 ^ 64 - 1" by (intro exI)
  moreover have "app (start_net P a rounds) = a" "schedule (start_net P a rounds) = rounds" by (simp_all add: start_net_def)
  ultimately show ?thesis
    using assms(1-3) unfolding network_ready_def prod.case by (intro conjI) (assumption | simp only:)+
qed

interpretation net: reliable_calls "network_call P" "\<lambda>(swt, w). getNextSequenceNumber swt" "network_ready P" "hdl P" for P
proof (standard, goal_cases)
  case (1 k x a)
  then obtain swt w past where x: "x = (swt, w)" "swt = client_at P (length (past :: bytes list))" "length past + Suc k < 2 ^ 64 - 1"
    by (auto simp: network_ready_def)
  have "seqno (length past) \<noteq> seqno (2 ^ 64 - 2)" using x(3) by (subst seqno_inject) simp_all
  moreover have "seqno (2 ^ 64 - 2) = 0xFFFFFFFFFFFFFFFF" by (simp add: seqno_def)
  ultimately show ?case using x by (simp add: getNextSequenceNumber_def)
next
  case (2 k x a request response a')
  then obtain swt w a0 past rs where x: "x = (swt, w)" "wf_hosts P" "app w = a" "fair (max_tries P) (schedule w)"
    "Suc k * max_tries P \<le> length (schedule w)" "settled P a0 past rs w" "swt = client_at P (length past)"
    "length past + Suc k < 2 ^ 64 - 1"
    by (auto simp: network_ready_def)
  have "hdl P (seqno (length past)) request (app w) = ((True, response), a')"
    using 2(2) x(1,3,7) by (simp add: getNextSequenceNumber_def)
  moreover have "length past < 2 ^ 64 - 2" "max_tries P \<le> length (schedule w)" using x(5,8) by simp_all
  ultimately obtain w' rs' m where c: "client_call P request (client_at P (length past)) w =
      ret ((True, response, client_at P (Suc (length past))), w')"
    "settled P a0 (past @ [request]) rs' w'" "app w' = a'" "m \<le> max_tries P" "schedule w' = drop m (schedule w)"
    using client_call_serves [OF x(2) _ x(6,4)] by blast
  have "network_ready P k (client_at P (length (past @ [request])), w') a'"
    unfolding network_ready_def
    using x(2,4,5,8) c(2-5) fair_drop by (fastforce intro: exI [of _ "past @ [request]"])
  then show ?case using c(1) x(1,7) by (simp add: network_call_def)
qed

text \<open>A counter behind two hosts of different byte order, and a network that loses every other round.\<close>

definition sample_hosts :: "nat hosts" where
  "sample_hosts = \<lparr>bo_c = SAN_LITTLE_ENDIAN, bo_s = SAN_BIG_ENDIAN, heap_c = sample_capsule, heap_s = sample_capsule,
     hdl = (\<lambda>n r a. ((True, r @ r), a + 1)), max_tries = 2, server_address = replicate 32 1, server_port = 80,
     client_address = replicate 32 2, client_port = 40000\<rparr>"

definition sample_rounds :: "(pick list \<times> arrival) list" where
  "sample_rounds = [([], NoCapsule 4), good_round, ([Nth 0, Nth 0], Answer (Nth 0)), good_round]"

lemma sample_hosts_wf: "wf_hosts sample_hosts" "max_tries sample_hosts = 2"
  by (simp_all add: wf_hosts_def sample_hosts_def wf_sample_capsule sanAddressSize_def)

lemma sample_serves: "serve_once (hdl sample_hosts) 1 [[7], [8, 9]] 5 = Some ([[7, 7], [8, 9, 8, 9]], 7)"
  by (simp add: sample_hosts_def)

lemma sample_rounds_fair: "fair 2 sample_rounds" "length sample_rounds = 4"
proof -
  have "\<exists>j < 2. sample_rounds ! (i + j) = good_round" if "i \<le> 2" for i
  proof -
    from that consider "i = 0" | "i = 1" | "i = 2" by linarith
    then show ?thesis
      by cases (auto simp: sample_rounds_def numeral_2_eq_2 intro: exI [of _ 0] exI [of _ 1])
  qed
  then show "fair 2 sample_rounds" by (simp add: fair_def sample_rounds_def)
  show "length sample_rounds = 4" by (simp add: sample_rounds_def)
qed

lemma exactly_once_in_order_witness:
  "\<exists>swt w'. client_calls sample_hosts [[7], [8, 9]] (start_client sample_hosts) (start_net sample_hosts 5 sample_rounds) =
     ret ((True, [[7, 7], [8, 9, 8, 9]], swt), w') \<and> app w' = 7"
proof -
  have "start_client sample_hosts = client_at sample_hosts (length ([] :: bytes list))"
    by (simp add: client_at_def start_client_def StopWaitTx_def seqno_def)
  then obtain responses swt w' where c: "client_calls sample_hosts [[7], [8, 9]] (start_client sample_hosts)
      (start_net sample_hosts 5 sample_rounds) = ret ((True, responses, swt), w')"
    using client_calls_succeed [OF sample_hosts_wf(1) _ _ settled_start [of sample_hosts 5 sample_rounds], of "[[7], [8, 9]]"]
      sample_rounds_fair sample_serves by (auto simp: start_net_def sample_hosts_wf serves_def)
  have "serve_once (hdl sample_hosts) 1 [[7], [8, 9]] 5 = Some (responses, app w')"
    by (rule exactly_once_in_order [OF sample_hosts_wf(1) _ c]) simp
  then show ?thesis using c by (auto simp: sample_hosts_def)
qed

lemma fair_network_makes_progress_witness:
  "\<exists>swt w'. client_calls sample_hosts [[7], [8, 9]] (start_client sample_hosts)
     (start_net sample_hosts 5 sample_rounds) = ret ((True, [[7, 7], [8, 9, 8, 9]], swt), w') \<and> app w' = 7"
  using fair_network_makes_progress [OF sample_hosts_wf(1) sample_serves, of sample_rounds] sample_rounds_fair
  by (simp add: sample_hosts_wf)

section \<open>Going on after a failure\<close>

text \<open>
  The server has served the client's number \<open>n\<close> and the client still uses it: whatever
  reaches the server has a number up to \<open>n\<close>, and all the server does is repeat its last answer.
\<close>

definition left_behind :: "'a hosts \<Rightarrow> nat \<Rightarrow> bytes list \<Rightarrow> 'a \<Rightarrow> 'a net \<Rightarrow> bool" where
  "left_behind P n rs a w \<longleftrightarrow>
     (\<forall>b \<in> set (to_server w). \<exists>i \<le> n. \<exists>r. b = req_msg P (seqno i) r) \<and>
     (\<forall>b \<in> set (to_client w). answer P rs b) \<and>
     srv_session w = session_at P (seqno (Suc n)) (last_answer P rs) \<and> alive w \<and> app w = a"

lemma left_behind_schedule [simp]: "left_behind P n rs a (w\<lparr>schedule := rounds\<rparr>) = left_behind P n rs a w"
  by (simp add: left_behind_def)

lemma left_behind_send: "left_behind P n rs a w \<Longrightarrow> left_behind P n rs a (w\<lparr>to_server := to_server w @ [req_msg P (seqno n) r]\<rparr>)"
  by (auto simp: left_behind_def)

lemma deliver_left_behind:
  assumes "wf_hosts P" and "n < 2 ^ 64 - 2" and "left_behind P n rs a w" and "b \<in> set (to_server w)"
  shows "deliver P b w = ret (w\<lparr>to_client := to_client w @ [last_answer P rs]\<rparr>)"
proof -
  obtain i r where i: "i \<le> n" "b = req_msg P (seqno i) r" using assms(3,4) unfolding left_behind_def by blast
  have "seqno i \<noteq> seqno (Suc n)" using i(1) assms(2) by (subst seqno_inject) auto
  then show ?thesis
    using deliver_req [OF assms(1), of w "seqno (Suc n)" "last_answer P rs" "seqno i" r] assms(3) i(2)
    by (simp add: left_behind_def)
qed

lemma deliver_picks_left_behind:
  assumes "wf_hosts P" and "n < 2 ^ 64 - 2" and "left_behind P n rs a w"
  shows "\<exists>w'. deliver_picks P ps w = ret w' \<and> left_behind P n rs a w' \<and> schedule w' = schedule w"
  using assms(3)
proof (induction ps arbitrary: w)
  case (Cons p ps)
  show ?case
  proof (cases "pick_from p (to_server w)")
    case None
    then show ?thesis using Cons by simp
  next
    case (Some b)
    have "left_behind P n rs a (w\<lparr>to_client := to_client w @ [last_answer P rs]\<rparr>)"
      using Cons.prems by (simp add: left_behind_def)
    with Cons.IH [OF this] show ?thesis
      using deliver_left_behind [OF assms(1,2) Cons.prems pick_from_in [OF Some]] Some by simp
  qed
qed auto

lemma send_tries_left_behind:
  assumes "wf_hosts P" and "n < 2 ^ 64 - 2" and "length rs = Suc n" and "left_behind P n rs a w"
  shows "\<exists>ok resp swt w'. send_tries (bo_c P) client_send (net_wait P) cap (req_msg P (seqno n) r) tries (client_at P n) data w =
      ret ((ok, resp, swt), w') \<and> left_behind P n rs a w' \<and> (ok \<longrightarrow> resp = last rs) \<and>
    (good_round \<in> set (take tries (schedule w)) \<longrightarrow> ok)"
  using assms(4)
proof (induction tries arbitrary: w data)
  case (Suc tries)
  let ?m = "req_msg P (seqno n) r"
  let ?w = "w\<lparr>to_server := to_server w @ [?m]\<rparr>" and ?await = "awaitDatagram (bo_c P) (net_wait P) cap (client_at P n) data 3000"
  have timeout: "tx_timeout (client_at P n) = 3000" by (simp add: client_at_def start_client_def StopWaitTx_def)
  have inv0: "left_behind P n rs a ?w" using Suc.prems by (rule left_behind_send)
  have retry: ?case if "send_tries (bo_c P) client_send (net_wait P) cap ?m (Suc tries) (client_at P n) data w =
      send_tries (bo_c P) client_send (net_wait P) cap ?m tries (client_at P n) d w1"
    "left_behind P n rs a w1" "schedule w1 = drop 1 (schedule w)" "good_round \<notin> set (take 1 (schedule w))" for d w1
  proof -
    have "good_round \<in> set (take (Suc tries) (schedule w)) \<Longrightarrow> good_round \<in> set (take tries (schedule w1))"
      using that(3,4) by (cases "schedule w") auto
    then show ?thesis using Suc.IH [OF that(2), of d] that(1) by force
  qed
  show ?case
  proof (cases "schedule w")
    case Nil
    have "?await ?w = ret ((False, data), ?w)" using Nil by (simp add: await_nothing)
    then show ?thesis using inv0 Nil by (intro retry [of data ?w]) (simp_all add: client_send_def timeout)
  next
    case (Cons round rounds)
    obtain ps arr where round: "round = (ps, arr)" by (cases round)
    have "left_behind P n rs a (?w\<lparr>schedule := rounds\<rparr>)" using inv0 by (simp only: left_behind_schedule)
    from deliver_picks_left_behind [OF assms(1,2) this, of ps]
    obtain w1 where w1: "deliver_picks P ps (?w\<lparr>schedule := rounds\<rparr>) = ret w1" "left_behind P n rs a w1" "schedule w1 = rounds"
      by auto
    have fields: "\<not> length d < 9 \<and> d ! 0 = 0x53 \<and> unpackUint64 (bo_c P) d 1 = seqno i \<and> drop 9 d = x"
      if "d = [0x53] @ pack_uint64 (bo_s P) (seqno i) @ x" for d i x
      using datagram_fields [where bo = "bo_s P" and n = "seqno i" and x = x] that by (simp only: not_less simp_thms)
    have got: ?thesis if "?await ?w = ret ((True, d), w1)" "d = [0x53] @ pack_uint64 (bo_s P) (seqno n) @ last rs" for d
      using that(1) fields [OF that(2)] w1(2) by (intro exI [of _ True]) (simp add: client_send_def timeout)
    show ?thesis
    proof (cases "round = good_round")
      case True
      then have "deliver P ?m (?w\<lparr>schedule := rounds\<rparr>) = ret w1"
        using w1(1) round by (auto simp: good_round_def pick_from_def io_bind_eq_ret)
      moreover have "deliver P ?m (?w\<lparr>schedule := rounds\<rparr>) =
          ret (?w\<lparr>schedule := rounds, to_client := to_client w @ [last_answer P rs]\<rparr>)"
        using deliver_left_behind [OF assms(1,2), of rs a "?w\<lparr>schedule := rounds\<rparr>" ?m] inv0 by simp
      ultimately have "to_client w1 = to_client w @ [resp_msg P (seqno n) (last rs)]"
        using assms(3) by (auto simp: last_answer_def ret_def)
      moreover have "deliver_picks P [Latest] (?w\<lparr>schedule := rounds\<rparr>) = ret w1" using w1(1) round True by (simp add: good_round_def)
      ultimately have "?await ?w = ret ((True, [0x53] @ pack_uint64 (bo_s P) (seqno n) @ last rs), w1)"
        using Cons True by (intro await_latest [OF assms(1)]) simp_all
      then show ?thesis by (rule got) simp
    next
      case other: False
      have "schedule ?w = (ps, arr) # rounds" "\<forall>b \<in> set (to_client w1). answer P rs b"
        using Cons round w1(2) by (simp_all add: left_behind_def)
      from await_answers [OF assms(1) this(1) w1(1) this(2), of cap n data 3000]
      obtain ok d where aw: "?await ?w = ret ((ok, d), w1)"
        and d: "ok \<longrightarrow> (\<exists>i < length rs. d = [0x53] @ pack_uint64 (bo_s P) (seqno i) @ rs ! i)" by blast
      show ?thesis
      proof (cases ok)
        case False
        then show ?thesis using aw w1 Cons other by (intro retry [of d w1]) (simp_all add: client_send_def timeout)
      next
        case True
        then obtain i where i: "i < length rs" "d = [0x53] @ pack_uint64 (bo_s P) (seqno i) @ rs ! i" using d by blast
        show ?thesis
        proof (cases "i = n")
          case True
          then have "rs ! i = last rs" using assms(3) last_conv_nth [of rs] by (cases "rs = []") auto
          then show ?thesis using aw \<open>ok\<close> i(2) True by (intro got [of d]) simp_all
        next
          case False
          then have "seqno i \<noteq> seqno n" using i(1) assms(2,3) by (subst seqno_inject) auto
          then show ?thesis
            using aw \<open>ok\<close> w1 Cons other fields [OF i(2)] by (intro retry [of d w1]) (simp_all add: client_send_def timeout)
        qed
      qed
    qed
  qed
qed auto

lemma client_call_left_behind:
  assumes "wf_hosts P" and "n < 2 ^ 64 - 2" and "length rs = Suc n" and "left_behind P n rs a w"
  shows "\<exists>ok resp swt w'. client_call P r (client_at P n) w = ret ((ok, resp, swt), w') \<and> app w' = a \<and>
    (ok \<longrightarrow> resp = last rs) \<and> (good_round \<in> set (take (max_tries P) (schedule w)) \<longrightarrow> ok)"
proof -
  have "client_call P r (client_at P n) w =
      send_tries (bo_c P) client_send (net_wait P) (heap_c P) (req_msg P (seqno n) r) (max_tries P) (client_at P n) [] w"
    by (simp add: client_call_def sendReliableMessage_def req_msg_def client_at_def)
      (simp add: start_client_def StopWaitTx_def)
  then show ?thesis
    using send_tries_left_behind [OF assms, of "heap_c P" r "max_tries P" "[]"] unfolding left_behind_def by metis
qed

lemma send_tries_fails: "send_tries bo send wait cap b tries swt data w = ret ((False, resp, swt'), w') \<Longrightarrow> swt' = swt"
  by (induction tries arbitrary: data w) (auto simp: io_bind_eq_ret split: if_splits)

lemma left_behind_start:
  assumes "net_inv P a0 past old reqs rs w" and "length past < 2 ^ 64 - 2"
    and "rx_expectedSeqNum (srv_session w) = seqno (length past) + 1"
  shows "length rs = Suc (length past) \<and> left_behind P (length past) rs (app w) w \<and>
    serve_once (hdl P) 1 (past @ [old]) a0 = Some (rs, app w)"
proof -
  have "seqno (length reqs) = seqno (Suc (length past))" using assms(1,3) by (simp add: net_inv_def seqno_Suc)
  moreover have "reqs = past \<or> reqs = past @ [old]" using assms(1) by (simp add: net_inv_def)
  moreover have "seqno (length past) \<noteq> seqno (Suc (length past))" using assms(2) by (subst seqno_inject) simp_all
  ultimately have reqs: "reqs = past @ [old]" by auto
  with assms(1) obtain a where a: "serve_once (hdl P) 1 (past @ [old]) a0 = Some (rs, a)" "alive w" "app w = a"
    by (auto simp: net_inv_def)
  moreover have "\<forall>b \<in> set (to_server w). \<exists>i \<le> length past. \<exists>r. b = req_msg P (seqno i) r"
    using assms(1) less_Suc_eq_le unfolding net_inv_def by metis
  ultimately show ?thesis
    using assms(1) reqs serve_once_length [OF a(1)] by (simp add: left_behind_def net_inv_def)
qed

text \<open>
  C33. What giving up costs. Let the client, after any number of successful calls over any network, give up on a
  request that the server has served, and go on. It keeps its sequence number for the next, different
  request, and whatever the network does from then on, the server takes that for a repetition: its session
  never sees it. The call may fail; if it succeeds, it does so with the answer to the old request; and
  it does succeed if in one of as many rounds as there are tries the latest capsule of either side arrives.
\<close>

lemma stale_answer_after_giving_up:
  assumes "wf_hosts P" and "length reqs < 2 ^ 64 - 2"
    and "client_calls P reqs (start_client P) (start_net P a0 rounds) = ret ((True, responses, swt), w0)"
    and "client_call P old swt w0 = ret ((False, none, swt1), w1)"
    and "rx_expectedSeqNum (srv_session w1) = tx_expectedSeqNum swt + 1"
  shows "\<exists>answer_to_old. serve_once (hdl P) 1 (reqs @ [old]) a0 = Some (responses @ [answer_to_old], app w1) \<and>
    (\<forall>new later. \<exists>ok response swt2 w2.
      client_call P new swt1 (w1\<lparr>schedule := later\<rparr>) = ret ((ok, response, swt2), w2) \<and> app w2 = app w1 \<and>
      (ok \<longrightarrow> response = answer_to_old) \<and> (good_round \<in> set (take (max_tries P) later) \<longrightarrow> ok))"
proof -
  have start: "start_client P = client_at P (length ([] :: bytes list))"
    by (simp add: client_at_def start_client_def StopWaitTx_def seqno_def)
  have "length ([] :: bytes list) + length reqs < 2 ^ 64 - 1" using assms(2) by simp
  from client_calls_inv [OF assms(1) this settled_start assms(3) [unfolded start]]
  have s: "settled P a0 reqs responses w0" "swt = client_at P (length reqs)" by auto
  obtain reqs' rs where inv: "net_inv P a0 reqs old reqs' rs w1"
    using client_call_inv [OF assms(1,2) s(1), of old] assms(4) unfolding s(2) by auto
  have lb: "length rs = Suc (length reqs)" "left_behind P (length reqs) rs (app w1) w1"
    "serve_once (hdl P) 1 (reqs @ [old]) a0 = Some (rs, app w1)"
    using left_behind_start [OF inv assms(2)] assms(5) s(2) by simp_all
  have "swt1 = client_at P (length reqs)"
    using assms(4) send_tries_fails s(2) by (auto simp: client_call_def sendReliableMessage_def)
  note later_call = client_call_left_behind [OF assms(1,2) lb(1), folded this, of "app w1" "w1\<lparr>schedule := later\<rparr>" new for later new]
  have "serve_once (hdl P) 1 reqs a0 = Some (responses, app w0)" using s(1) by (auto simp: settled_def net_inv_def)
  then obtain x where "rs = responses @ [x]"
    using lb(3) by (auto simp: serve_once_snoc split: prod.splits if_splits)
  then show ?thesis using lb(2,3) later_call by (intro exI [of _ x]) simp
qed

text \<open>It happens: the answer to the first request is lost, and the other tries bring nothing.\<close>

lemma stale_answer_after_giving_up_witness:
  "\<exists>none swt1 w1 response swt2 w2.
    client_call sample_hosts [7] (start_client sample_hosts) (start_net sample_hosts 5 [([Latest], NoCapsule 4)]) =
      ret ((False, none, swt1), w1) \<and> app w1 = 6 \<and>
    client_call sample_hosts [9] swt1 (w1\<lparr>schedule := [([], NoCapsule 4), good_round]\<rparr>) = ret ((True, [7, 7], swt2), w2) \<and>
    app w2 = 6"
proof -
  let ?P = "sample_hosts" and ?s = "start_client sample_hosts" and ?w0 = "start_net sample_hosts 5 [([Latest], NoCapsule 4)]"
  have s: "tx_expectedSeqNum ?s = 1" "tx_repetitions ?s = 2" and same: "?s\<lparr>tx_expectedSeqNum := 1\<rparr> = ?s"
    by (simp_all add: start_client_def StopWaitTx_def sample_hosts_wf)
  have msg: "capsule_pack (bo_c ?P) (tx_capsule (bo_c ?P) (heap_c ?P) ?s [7]) = req_msg ?P 1 [7]"
    by (simp add: req_msg_def same)
  let ?m = "req_msg ?P 1 [7]" and ?r = "resp_msg ?P 1 [7, 7]"
  define w where "w = ?w0\<lparr>to_server := [?m], to_client := [?r], srv_session := session_at ?P 2 ?r, app := 6, schedule := []\<rparr>"
  have "srv_session (?w0\<lparr>to_server := [?m], schedule := []\<rparr>) = session_at ?P 1 []"
    by (simp add: start_net_def session_at_def StopWaitRx_def)
  moreover have "hdl ?P 1 [7] 5 = ((True, [7, 7]), 6)" by (simp add: sample_hosts_def)
  ultimately have d: "deliver ?P ?m (?w0\<lparr>to_server := [?m], schedule := []\<rparr>) = ret w"
    using deliver_req [OF sample_hosts_wf(1), of "?w0\<lparr>to_server := [?m], schedule := []\<rparr>" 1 "[]" 1 "[7]"]
    by (simp add: start_net_def w_def)
  have a1: "awaitDatagram (bo_c ?P) (net_wait ?P) cap ?s data t (?w0\<lparr>to_server := [?m]\<rparr>) = ret ((False, data), w)" for cap data t
    using d by (simp add: awaitDatagram_def net_wait_def start_net_def pick_from_def arrive_def codes)
  have a2: "awaitDatagram (bo_c ?P) (net_wait ?P) cap ?s data t (w\<lparr>to_server := [?m, ?m]\<rparr>) = ret ((False, data), w\<lparr>to_server := [?m, ?m]\<rparr>)"
    for cap data t by (simp add: awaitDatagram_def net_wait_def w_def codes)
  have first: "client_call ?P [7] ?s ?w0 = ret ((False, [], ?s), w\<lparr>to_server := [?m, ?m]\<rparr>)"
    using a1 a2 by (simp add: client_call_def sendReliableMessage_def msg client_send_def s numeral_2_eq_2)
      (simp add: start_net_def w_def client_send_def)
  have "client_calls ?P [] ?s ?w0 = ret ((True, [], ?s), ?w0)" by simp
  from stale_answer_after_giving_up [OF sample_hosts_wf(1) _ this first]
  obtain x where x: "serve_once (hdl ?P) 1 [[7]] 5 = Some ([x], 6)"
    "\<exists>ok response swt2 w2. client_call ?P [9] ?s (w\<lparr>to_server := [?m, ?m], schedule := later\<rparr>) = ret ((ok, response, swt2), w2) \<and>
      app w2 = 6 \<and> (ok \<longrightarrow> response = x) \<and> (good_round \<in> set (take 2 later) \<longrightarrow> ok)" for later
    by (auto simp: w_def s sample_hosts_wf)
  have "x = [7, 7]" using x(1) by (simp add: sample_hosts_def)
  then show ?thesis
    using x(2) [of "[([], NoCapsule 4), good_round]"] first by (fastforce simp: w_def)
qed

end
