(* ===== verification/Aes.thy ===== *)
theory Aes
  imports Datagram
begin

text \<open>
  The AES of \<^verbatim>\<open>src/crypto/aes\<close> as the shell uses it: the key schedules of \<^verbatim>\<open>aeskey.c\<close> and
  \<^verbatim>\<open>aes_encrypt\<close> of \<^verbatim>\<open>aescrypt.c\<close> over the tables of \<^verbatim>\<open>aestab.c\<close>, in the configuration of
  \<^verbatim>\<open>aesopt.h\<close> (fixed tables, four per round, unrolled, \<^verbatim>\<open>SAFE_IO\<close>). A reference AES works on
  bytes, with the S-box computed in the field of 256 elements; the lemmas show that the code
  computes it, on hosts of either byte order, so that it is a block cipher in the sense of the
  datagram encryption.
\<close>

section \<open>Words and bytes\<close>

definition bval :: "byte_order \<Rightarrow> u32 \<Rightarrow> nat \<Rightarrow> u32" where
  "bval bo x n = (case bo of
     SAN_LITTLE_ENDIAN \<Rightarrow> drop_bit (8 * n) x AND 0xFF
   | SAN_BIG_ENDIAN \<Rightarrow> drop_bit (24 - 8 * n) x AND 0xFF)"

definition bytes2word :: "byte_order \<Rightarrow> u32 \<Rightarrow> u32 \<Rightarrow> u32 \<Rightarrow> u32 \<Rightarrow> u32" where
  "bytes2word bo b0 b1 b2 b3 = (case bo of
     SAN_LITTLE_ENDIAN \<Rightarrow> push_bit 24 b3 OR push_bit 16 b2 OR push_bit 8 b1 OR b0
   | SAN_BIG_ENDIAN \<Rightarrow> push_bit 24 b0 OR push_bit 16 b1 OR push_bit 8 b2 OR b3)"

definition word_in :: "byte_order \<Rightarrow> bytes \<Rightarrow> nat \<Rightarrow> u32" where
  "word_in bo x c = bytes2word bo (ucast (x ! (4 * c))) (ucast (x ! (4 * c + 1))) (ucast (x ! (4 * c + 2))) (ucast (x ! (4 * c + 3)))"

definition word_out :: "byte_order \<Rightarrow> u32 \<Rightarrow> bytes" where
  "word_out bo v = map (\<lambda>n. ucast (bval bo v n)) [0, 1, 2, 3]"

section \<open>Tables\<close>

definition WPOLY :: u32 where "WPOLY = 0x011b"

definition f2 :: "u32 \<Rightarrow> u32" where
  "f2 x = push_bit 1 x XOR ((drop_bit 7 x AND 1) * WPOLY)"

definition f3 :: "u32 \<Rightarrow> u32" where
  "f3 x = f2 x XOR x"

definition sb_data :: "u32 list" where
  "sb_data = [
     0x63, 0x7c, 0x77, 0x7b, 0xf2, 0x6b, 0x6f, 0xc5, 0x30, 0x01, 0x67, 0x2b, 0xfe, 0xd7, 0xab, 0x76,
     0xca, 0x82, 0xc9, 0x7d, 0xfa, 0x59, 0x47, 0xf0, 0xad, 0xd4, 0xa2, 0xaf, 0x9c, 0xa4, 0x72, 0xc0,
     0xb7, 0xfd, 0x93, 0x26, 0x36, 0x3f, 0xf7, 0xcc, 0x34, 0xa5, 0xe5, 0xf1, 0x71, 0xd8, 0x31, 0x15,
     0x04, 0xc7, 0x23, 0xc3, 0x18, 0x96, 0x05, 0x9a, 0x07, 0x12, 0x80, 0xe2, 0xeb, 0x27, 0xb2, 0x75,
     0x09, 0x83, 0x2c, 0x1a, 0x1b, 0x6e, 0x5a, 0xa0, 0x52, 0x3b, 0xd6, 0xb3, 0x29, 0xe3, 0x2f, 0x84,
     0x53, 0xd1, 0x00, 0xed, 0x20, 0xfc, 0xb1, 0x5b, 0x6a, 0xcb, 0xbe, 0x39, 0x4a, 0x4c, 0x58, 0xcf,
     0xd0, 0xef, 0xaa, 0xfb, 0x43, 0x4d, 0x33, 0x85, 0x45, 0xf9, 0x02, 0x7f, 0x50, 0x3c, 0x9f, 0xa8,
     0x51, 0xa3, 0x40, 0x8f, 0x92, 0x9d, 0x38, 0xf5, 0xbc, 0xb6, 0xda, 0x21, 0x10, 0xff, 0xf3, 0xd2,
     0xcd, 0x0c, 0x13, 0xec, 0x5f, 0x97, 0x44, 0x17, 0xc4, 0xa7, 0x7e, 0x3d, 0x64, 0x5d, 0x19, 0x73,
     0x60, 0x81, 0x4f, 0xdc, 0x22, 0x2a, 0x90, 0x88, 0x46, 0xee, 0xb8, 0x14, 0xde, 0x5e, 0x0b, 0xdb,
     0xe0, 0x32, 0x3a, 0x0a, 0x49, 0x06, 0x24, 0x5c, 0xc2, 0xd3, 0xac, 0x62, 0x91, 0x95, 0xe4, 0x79,
     0xe7, 0xc8, 0x37, 0x6d, 0x8d, 0xd5, 0x4e, 0xa9, 0x6c, 0x56, 0xf4, 0xea, 0x65, 0x7a, 0xae, 0x08,
     0xba, 0x78, 0x25, 0x2e, 0x1c, 0xa6, 0xb4, 0xc6, 0xe8, 0xdd, 0x74, 0x1f, 0x4b, 0xbd, 0x8b, 0x8a,
     0x70, 0x3e, 0xb5, 0x66, 0x48, 0x03, 0xf6, 0x0e, 0x61, 0x35, 0x57, 0xb9, 0x86, 0xc1, 0x1d, 0x9e,
     0xe1, 0xf8, 0x98, 0x11, 0x69, 0xd9, 0x8e, 0x94, 0x9b, 0x1e, 0x87, 0xe9, 0xce, 0x55, 0x28, 0xdf,
     0x8c, 0xa1, 0x89, 0x0d, 0xbf, 0xe6, 0x42, 0x68, 0x41, 0x99, 0x2d, 0x0f, 0xb0, 0x54, 0xbb, 0x16]"

definition rc_data :: "u32 list" where
  "rc_data = [0x01, 0x02, 0x04, 0x08, 0x10, 0x20, 0x40, 0x80, 0x1b, 0x36]"

definition aes_w0 :: "byte_order \<Rightarrow> u32 \<Rightarrow> u32" where "aes_w0 bo p = bytes2word bo p 0 0 0"
definition aes_w1 :: "byte_order \<Rightarrow> u32 \<Rightarrow> u32" where "aes_w1 bo p = bytes2word bo 0 p 0 0"
definition aes_w2 :: "byte_order \<Rightarrow> u32 \<Rightarrow> u32" where "aes_w2 bo p = bytes2word bo 0 0 p 0"
definition aes_w3 :: "byte_order \<Rightarrow> u32 \<Rightarrow> u32" where "aes_w3 bo p = bytes2word bo 0 0 0 p"

definition aes_u0 :: "byte_order \<Rightarrow> u32 \<Rightarrow> u32" where "aes_u0 bo p = bytes2word bo (f2 p) p p (f3 p)"
definition aes_u1 :: "byte_order \<Rightarrow> u32 \<Rightarrow> u32" where "aes_u1 bo p = bytes2word bo (f3 p) (f2 p) p p"
definition aes_u2 :: "byte_order \<Rightarrow> u32 \<Rightarrow> u32" where "aes_u2 bo p = bytes2word bo p (f3 p) (f2 p) p"
definition aes_u3 :: "byte_order \<Rightarrow> u32 \<Rightarrow> u32" where "aes_u3 bo p = bytes2word bo p p (f3 p) (f2 p)"

definition t_rc :: "byte_order \<Rightarrow> u32 list" where
  "t_rc bo = map (aes_w0 bo) rc_data"

definition t_fn :: "byte_order \<Rightarrow> u32 list list" where
  "t_fn bo = [map (aes_u0 bo) sb_data, map (aes_u1 bo) sb_data, map (aes_u2 bo) sb_data, map (aes_u3 bo) sb_data]"

definition t_fl :: "byte_order \<Rightarrow> u32 list list" where
  "t_fl bo = [map (aes_w0 bo) sb_data, map (aes_w1 bo) sb_data, map (aes_w2 bo) sb_data, map (aes_w3 bo) sb_data]"

text \<open>\<open>vf x r c\<close> is the word the byte of row \<open>r\<close> comes from, \<open>rf r c\<close> its place there.\<close>

definition four_tables ::
  "byte_order \<Rightarrow> 'x \<Rightarrow> u32 list list \<Rightarrow> ('x \<Rightarrow> nat \<Rightarrow> nat \<Rightarrow> u32) \<Rightarrow> (nat \<Rightarrow> nat \<Rightarrow> nat) \<Rightarrow> nat \<Rightarrow> u32" where
  "four_tables bo x tab vf rf c =
     tab ! 0 ! unat (bval bo (vf x 0 c) (rf 0 c)) XOR
     tab ! 1 ! unat (bval bo (vf x 1 c) (rf 1 c)) XOR
     tab ! 2 ! unat (bval bo (vf x 2 c) (rf 2 c)) XOR
     tab ! 3 ! unat (bval bo (vf x 3 c) (rf 3 c))"

definition vf1 :: "u32 \<Rightarrow> nat \<Rightarrow> nat \<Rightarrow> u32" where "vf1 x r c = x"
definition rf1 :: "nat \<Rightarrow> nat \<Rightarrow> nat" where "rf1 r c = r"
definition rf2 :: "nat \<Rightarrow> nat \<Rightarrow> nat" where "rf2 r c = (8 + r - c) mod 4"

definition ls_box :: "byte_order \<Rightarrow> u32 \<Rightarrow> nat \<Rightarrow> u32" where
  "ls_box bo x c = four_tables bo x (t_fl bo) vf1 rf2 c"

section \<open>Key schedules\<close>

definition KS_LENGTH :: nat where "KS_LENGTH = 60"

text \<open>\<open>inf_b\<close> are the four bytes of the union \<^verbatim>\<open>inf\<close>.\<close>

record aes_encrypt_ctx =
  ks :: "u32 list"
  inf_b :: bytes

text \<open>\<^verbatim>\<open>k[j] = ss[m] ^= x\<close>, where \<open>x\<close> is computed from \<^verbatim>\<open>ss\<close>.\<close>

definition put :: "nat \<Rightarrow> nat \<Rightarrow> (u32 list \<Rightarrow> u32) \<Rightarrow> u32 list \<times> u32 list \<Rightarrow> u32 list \<times> u32 list" where
  "put j m x = (\<lambda>(k, ss). let v = ss ! m XOR x ss in (k[j := v], ss[m := v]))"

definition in_order :: "('a \<Rightarrow> 'a) list \<Rightarrow> 'a \<Rightarrow> 'a" where
  "in_order fs = fold (\<lambda>f. f) fs"

definition ke4 :: "byte_order \<Rightarrow> nat \<Rightarrow> u32 list \<times> u32 list \<Rightarrow> u32 list \<times> u32 list" where
  "ke4 bo i = in_order
     [put (4 * i + 4) 0 (\<lambda>ss. ls_box bo (ss ! 3) 3 XOR t_rc bo ! i),
      put (4 * i + 5) 1 (\<lambda>ss. ss ! 0),
      put (4 * i + 6) 2 (\<lambda>ss. ss ! 1),
      put (4 * i + 7) 3 (\<lambda>ss. ss ! 2)]"

definition kef6 :: "byte_order \<Rightarrow> nat \<Rightarrow> u32 list \<times> u32 list \<Rightarrow> u32 list \<times> u32 list" where
  "kef6 bo i = in_order
     [put (6 * i + 6) 0 (\<lambda>ss. ls_box bo (ss ! 5) 3 XOR t_rc bo ! i),
      put (6 * i + 7) 1 (\<lambda>ss. ss ! 0),
      put (6 * i + 8) 2 (\<lambda>ss. ss ! 1),
      put (6 * i + 9) 3 (\<lambda>ss. ss ! 2)]"

definition ke6 :: "byte_order \<Rightarrow> nat \<Rightarrow> u32 list \<times> u32 list \<Rightarrow> u32 list \<times> u32 list" where
  "ke6 bo i = in_order
     [kef6 bo i,
      put (6 * i + 10) 4 (\<lambda>ss. ss ! 3),
      put (6 * i + 11) 5 (\<lambda>ss. ss ! 4)]"

definition kef8 :: "byte_order \<Rightarrow> nat \<Rightarrow> u32 list \<times> u32 list \<Rightarrow> u32 list \<times> u32 list" where
  "kef8 bo i = in_order
     [put (8 * i + 8) 0 (\<lambda>ss. ls_box bo (ss ! 7) 3 XOR t_rc bo ! i),
      put (8 * i + 9) 1 (\<lambda>ss. ss ! 0),
      put (8 * i + 10) 2 (\<lambda>ss. ss ! 1),
      put (8 * i + 11) 3 (\<lambda>ss. ss ! 2)]"

definition ke8 :: "byte_order \<Rightarrow> nat \<Rightarrow> u32 list \<times> u32 list \<Rightarrow> u32 list \<times> u32 list" where
  "ke8 bo i = in_order
     [kef8 bo i,
      put (8 * i + 12) 4 (\<lambda>ss. ls_box bo (ss ! 3) 0),
      put (8 * i + 13) 5 (\<lambda>ss. ss ! 4),
      put (8 * i + 14) 6 (\<lambda>ss. ss ! 5),
      put (8 * i + 15) 7 (\<lambda>ss. ss ! 6)]"

text \<open>The first words of the schedule are the key, \<^verbatim>\<open>cx->ks[j] = ss[j] = word_in(key, j)\<close>.\<close>

definition key_words :: "byte_order \<Rightarrow> nat \<Rightarrow> bytes \<Rightarrow> u32 list \<Rightarrow> u32 list \<times> u32 list" where
  "key_words bo nk key k = (let ss = map (word_in bo key) [0..<nk] in (ss @ drop nk k, ss))"

definition aes_encrypt_key128 :: "byte_order \<Rightarrow> bytes \<Rightarrow> aes_encrypt_ctx \<Rightarrow> aes_encrypt_ctx" where
  "aes_encrypt_key128 bo key cx =
     cx\<lparr>ks := fst (in_order [ke4 bo 0, ke4 bo 1, ke4 bo 2, ke4 bo 3, ke4 bo 4, ke4 bo 5, ke4 bo 6, ke4 bo 7, ke4 bo 8,
          ke4 bo 9] (key_words bo 4 key (ks cx))),
        inf_b := [10 * 16, 0, 0, 0]\<rparr>"

definition aes_encrypt_key192 :: "byte_order \<Rightarrow> bytes \<Rightarrow> aes_encrypt_ctx \<Rightarrow> aes_encrypt_ctx" where
  "aes_encrypt_key192 bo key cx =
     cx\<lparr>ks := fst (in_order [ke6 bo 0, ke6 bo 1, ke6 bo 2, ke6 bo 3, ke6 bo 4, ke6 bo 5, ke6 bo 6,
          kef6 bo 7] (key_words bo 6 key (ks cx))),
        inf_b := [12 * 16, 0, 0, 0]\<rparr>"

definition aes_encrypt_key256 :: "byte_order \<Rightarrow> bytes \<Rightarrow> aes_encrypt_ctx \<Rightarrow> aes_encrypt_ctx" where
  "aes_encrypt_key256 bo key cx =
     cx\<lparr>ks := fst (in_order [ke8 bo 0, ke8 bo 1, ke8 bo 2, ke8 bo 3, ke8 bo 4, ke8 bo 5,
          kef8 bo 6] (key_words bo 8 key (ks cx))),
        inf_b := [14 * 16, 0, 0, 0]\<rparr>"

text \<open>\<open>None\<close> is \<^verbatim>\<open>EXIT_FAILURE\<close>.\<close>

definition aes_encrypt_key :: "byte_order \<Rightarrow> bytes \<Rightarrow> int \<Rightarrow> aes_encrypt_ctx \<Rightarrow> aes_encrypt_ctx option" where
  "aes_encrypt_key bo key key_len cx =
     (if key_len = 16 \<or> key_len = 128 then Some (aes_encrypt_key128 bo key cx)
      else if key_len = 24 \<or> key_len = 192 then Some (aes_encrypt_key192 bo key cx)
      else if key_len = 32 \<or> key_len = 256 then Some (aes_encrypt_key256 bo key cx)
      else None)"

section \<open>Encryption\<close>

definition N_COLS :: nat where "N_COLS = 4"

definition fwd_var :: "u32 list \<Rightarrow> nat \<Rightarrow> nat \<Rightarrow> u32" where
  "fwd_var x r c =
     (if r = 0 then (if c = 0 then x ! 0 else if c = 1 then x ! 1 else if c = 2 then x ! 2 else x ! 3)
      else if r = 1 then (if c = 0 then x ! 1 else if c = 1 then x ! 2 else if c = 2 then x ! 3 else x ! 0)
      else if r = 2 then (if c = 0 then x ! 2 else if c = 1 then x ! 3 else if c = 2 then x ! 0 else x ! 1)
      else (if c = 0 then x ! 3 else if c = 1 then x ! 0 else if c = 2 then x ! 1 else x ! 2))"

text \<open>\<open>k\<close> is the schedule from \<^verbatim>\<open>kp\<close> on.\<close>

definition state_in :: "byte_order \<Rightarrow> bytes \<Rightarrow> u32 list \<Rightarrow> u32 list" where
  "state_in bo x k = map (\<lambda>c. word_in bo x c XOR k ! c) [0, 1, 2, 3]"

definition state_out :: "byte_order \<Rightarrow> u32 list \<Rightarrow> bytes" where
  "state_out bo x = concat (map (\<lambda>c. word_out bo (x ! c)) [0, 1, 2, 3])"

definition fwd_rnd :: "byte_order \<Rightarrow> u32 list \<Rightarrow> u32 list \<Rightarrow> nat \<Rightarrow> u32" where
  "fwd_rnd bo x k c = k ! c XOR four_tables bo x (t_fn bo) fwd_var rf1 c"

definition fwd_lrnd :: "byte_order \<Rightarrow> u32 list \<Rightarrow> u32 list \<Rightarrow> nat \<Rightarrow> u32" where
  "fwd_lrnd bo x k c = k ! c XOR four_tables bo x (t_fl bo) fwd_var rf1 c"

definition round_of :: "(u32 list \<Rightarrow> u32 list \<Rightarrow> nat \<Rightarrow> u32) \<Rightarrow> u32 list \<Rightarrow> u32 list \<Rightarrow> u32 list" where
  "round_of rm x k = map (rm x k) [0, 1, 2, 3]"

text \<open>The \<^verbatim>\<open>switch\<close> falls through; \<open>two\<close> are the two rounds that its first cases begin with.\<close>

definition aes_encrypt :: "byte_order \<Rightarrow> bytes \<Rightarrow> aes_encrypt_ctx \<Rightarrow> bytes option" where
  "aes_encrypt bo inb cx =
     (let b = inf_b cx ! 0
      in if b \<noteq> 10 * 16 \<and> b \<noteq> 12 * 16 \<and> b \<noteq> 14 * 16 then None
         else
           let rnd = (\<lambda>kp n x. round_of (fwd_rnd bo) x (drop (kp + n * N_COLS) (ks cx)));
               lrnd = (\<lambda>kp n x. round_of (fwd_lrnd bo) x (drop (kp + n * N_COLS) (ks cx)));
               two = (\<lambda>(kp, b0). (kp + 2 * N_COLS, rnd kp 2 (rnd kp 1 b0)));
               st = (0, state_in bo inb (ks cx));
               st = (if b = 14 * 16 then two st else st);
               st = (if b = 14 * 16 \<or> b = 12 * 16 then two st else st);
               (kp, b0) = st;
               b1 = rnd kp 1 b0; b0 = rnd kp 2 b1;
               b1 = rnd kp 3 b0; b0 = rnd kp 4 b1;
               b1 = rnd kp 5 b0; b0 = rnd kp 6 b1;
               b1 = rnd kp 7 b0; b0 = rnd kp 8 b1;
               b1 = rnd kp 9 b0; b0 = lrnd kp 10 b1
           in Some (state_out bo b0))"

text \<open>What \<^verbatim>\<open>AesCounter\<close> makes of it: a schedule for the key of 32 bytes, and the blocks under it.\<close>

definition aes256 :: "byte_order \<Rightarrow> block_cipher" where
  "aes256 bo key block =
     (case aes_encrypt bo block (aes_encrypt_key256 bo key \<lparr>ks = replicate KS_LENGTH 0, inf_b = replicate 4 0\<rparr>) of
        Some out \<Rightarrow> out | None \<Rightarrow> [])"

section \<open>The reference\<close>

definition xtime :: "byte \<Rightarrow> byte" where
  "xtime b = push_bit 1 b XOR (if bit b 7 then 0x1b else 0)"

fun gmul_upto :: "nat \<Rightarrow> byte \<Rightarrow> byte \<Rightarrow> byte" where
  "gmul_upto 0 a b = 0"
| "gmul_upto (Suc n) a b = (if bit a 0 then b else 0) XOR gmul_upto n (drop_bit 1 a) (xtime b)"

definition gmul :: "byte \<Rightarrow> byte \<Rightarrow> byte" where
  "gmul a b = gmul_upto 8 a b"

definition rotl8 :: "nat \<Rightarrow> byte \<Rightarrow> byte" where
  "rotl8 n b = push_bit n b OR drop_bit (8 - n) b"

definition affine :: "byte \<Rightarrow> byte" where
  "affine b = b XOR rotl8 1 b XOR rotl8 2 b XOR rotl8 3 b XOR rotl8 4 b XOR 0x63"

definition Sbox :: "byte \<Rightarrow> byte" where
  "Sbox b = ucast (sb_data ! unat b)"

text \<open>The state is 16 bytes, column by column.\<close>

definition SubBytes :: "bytes \<Rightarrow> bytes" where
  "SubBytes s = map Sbox s"

definition ShiftRows :: "bytes \<Rightarrow> bytes" where
  "ShiftRows s = map (\<lambda>i. s ! ((i + 4 * (i mod 4)) mod 16)) [0, 1, 2, 3, 4, 5, 6, 7, 8, 9, 10, 11, 12, 13, 14, 15]"

definition mix_column :: "bytes \<Rightarrow> bytes" where
  "mix_column a = map (\<lambda>r. gmul 2 (a ! r) XOR gmul 3 (a ! ((r + 1) mod 4)) XOR a ! ((r + 2) mod 4) XOR a ! ((r + 3) mod 4)) [0, 1, 2, 3]"

definition MixColumns :: "bytes \<Rightarrow> bytes" where
  "MixColumns s = concat (map (\<lambda>c. mix_column (take 4 (drop (4 * c) s))) [0, 1, 2, 3])"

definition RotWord :: "bytes \<Rightarrow> bytes" where
  "RotWord a = tl a @ [hd a]"

definition Rcon :: "nat \<Rightarrow> bytes" where
  "Rcon i = [(xtime ^^ (i - 1)) 1, 0, 0, 0]"

definition next_word :: "nat \<Rightarrow> bytes list \<Rightarrow> bytes" where
  "next_word nk w =
     (let i = length w; t = w ! (i - 1)
      in xor_bytes (w ! (i - nk))
           (if i mod nk = 0 then xor_bytes (SubBytes (RotWord t)) (Rcon (i div nk))
            else if 6 < nk \<and> i mod nk = 4 then SubBytes t
            else t))"

primrec expand :: "nat \<Rightarrow> bytes list \<Rightarrow> nat \<Rightarrow> bytes list" where
  "expand nk w 0 = w"
| "expand nk w (Suc n) = (let w' = expand nk w n in w' @ [next_word nk w'])"

definition KeyExpansion :: "nat \<Rightarrow> bytes \<Rightarrow> bytes list" where
  "KeyExpansion nk key = expand nk (map (\<lambda>c. take 4 (drop (4 * c) key)) [0..<nk]) (3 * nk + 28)"

definition round_key :: "bytes list \<Rightarrow> nat \<Rightarrow> bytes" where
  "round_key w r = concat (take 4 (drop (4 * r) w))"

definition cipher_round :: "bytes \<Rightarrow> bytes \<Rightarrow> bytes" where
  "cipher_round s k = xor_bytes (MixColumns (ShiftRows (SubBytes s))) k"

definition last_round :: "bytes \<Rightarrow> bytes \<Rightarrow> bytes" where
  "last_round s k = xor_bytes (ShiftRows (SubBytes s)) k"

definition Cipher :: "nat \<Rightarrow> bytes list \<Rightarrow> bytes \<Rightarrow> bytes" where
  "Cipher nr w inb =
     last_round (foldl (\<lambda>s r. cipher_round s (round_key w r)) (xor_bytes inb (round_key w 0)) [1..<nr]) (round_key w nr)"

text \<open>Keys of \<open>nk\<close> words, 4, 6 or 8.\<close>

definition aes_reference :: "nat \<Rightarrow> bytes \<Rightarrow> bytes \<Rightarrow> bytes" where
  "aes_reference nk key inb = Cipher (nk + 6) (KeyExpansion nk key) inb"

section \<open>Bytes of words\<close>

lemma and_255: "x AND 0xFF = take_bit 8 (x :: u32)"
  by (simp add: take_bit_eq_mask mask_numeral numeral_eq_Suc mask_eq_exp_minus_1)

lemma bval_take: "bval bo x n = take_bit 8 (drop_bit (case bo of SAN_LITTLE_ENDIAN \<Rightarrow> 8 * n | SAN_BIG_ENDIAN \<Rightarrow> 24 - 8 * n) x)"
  by (cases bo) (simp_all add: bval_def and_255)

lemma bval_ucast: "bval bo x n = ucast (ucast (bval bo x n) :: byte)"
  by (rule bit_word_eqI) (auto simp: bval_take bit_simps)

lemma bval_bytes2word:
  fixes a b c d :: byte
  shows "bval bo (bytes2word bo (ucast a) (ucast b) (ucast c) (ucast d)) 0 = ucast a"
    "bval bo (bytes2word bo (ucast a) (ucast b) (ucast c) (ucast d)) (Suc 0) = ucast b"
    "bval bo (bytes2word bo (ucast a) (ucast b) (ucast c) (ucast d)) 2 = ucast c"
    "bval bo (bytes2word bo (ucast a) (ucast b) (ucast c) (ucast d)) 3 = ucast d"
  by (rule bit_word_eqI; cases bo; auto simp: bval_take bytes2word_def bit_simps dest: bit_imp_le_length)+

lemma bval_xor: "bval bo (x XOR y) n = bval bo x n XOR bval bo y n"
  by (rule bit_word_eqI) (auto simp: bval_take bit_simps)

lemma ucast_xor: "ucast (x XOR y :: u32) = (ucast x XOR ucast y :: byte)"
  by (rule bit_word_eqI) (simp add: bit_simps)

lemma ucast_ucast_byte: "ucast (ucast b :: u32) = (b :: byte)"
  by (rule bit_word_eqI) (auto simp: bit_simps dest: bit_imp_le_length)

lemma word_out_xor: "word_out bo (x XOR y) = xor_bytes (word_out bo x) (word_out bo y)"
  by (simp add: word_out_def xor_bytes_def bval_xor ucast_xor)

lemma word_out_bytes2word:
  "word_out bo (bytes2word bo (ucast a) (ucast b) (ucast c) (ucast d)) = [a, b, c, d]"
  by (simp add: word_out_def bval_bytes2word ucast_ucast_byte)

lemma length_word_out [simp]: "length (word_out bo x) = 4"
  by (simp add: word_out_def)

lemma gmul_upto_0: "gmul_upto n 0 b = 0"
  by (induction n arbitrary: b) simp_all

lemma gmul_2: "gmul 2 b = xtime b"
  using gmul_upto.simps(2) [of 7 2 b] gmul_upto.simps(2) [of 6 1 "xtime b"]
  by (simp add: gmul_def gmul_upto_0 bit_0 drop_bit_eq_div)

lemma gmul_3: "gmul 3 b = xtime b XOR b"
  using gmul_upto.simps(2) [of 7 3 b] gmul_upto.simps(2) [of 6 1 "xtime b"]
  by (simp add: gmul_def gmul_upto_0 bit_0 drop_bit_eq_div) (simp add: ac_simps)

lemma all_bytes:
  assumes "list_all P (map word_of_nat [0..<256])"
  shows "P (b :: byte)"
proof -
  have "unat b \<in> set [0..<256]" using unsigned_less [of b] by simp
  then have "P (word_of_nat (unat b))" using assms unfolding list_all_iff set_map by blast
  then show ?thesis by simp
qed

definition doubles :: "byte \<Rightarrow> bool" where
  "doubles b \<longleftrightarrow> f2 (ucast b) = ucast (xtime b)"

lemma f2_xtime: "f2 (ucast b) = ucast (xtime b)"
  unfolding doubles_def [symmetric] by (rule all_bytes) code_simp

lemma f3_xtime: "f3 (ucast b) = ucast (xtime b XOR b)"
proof -
  have "ucast (x XOR y :: byte) = (ucast x XOR ucast y :: u32)" for x y
    by (rule bit_word_eqI) (auto simp: bit_simps)
  then show ?thesis by (simp add: f3_def f2_xtime)
qed

lemma word_out_nth: "n < 4 \<Longrightarrow> word_out bo x ! n = ucast (bval bo x n)"
  by (auto simp: word_out_def less_Suc_eq numeral_eq_Suc)

lemma length_sb_data [simp]: "length sb_data = 256"
  by (simp add: sb_data_def)

definition byte_entry :: "u32 \<Rightarrow> bool" where
  "byte_entry s \<longleftrightarrow> s = ucast (ucast s :: byte)"

lemma Sbox_entry: "n < 256 \<Longrightarrow> sb_data ! n = ucast (ucast (sb_data ! n) :: byte)"
proof -
  have "list_all byte_entry sb_data" by code_simp
  then show "n < 256 \<Longrightarrow> ?thesis" by (metis length_sb_data list_all_length byte_entry_def)
qed

lemma table_entry: "map f sb_data ! unat (bval bo x n) = f (ucast (Sbox (ucast (bval bo x n))))"
proof -
  have u: "unat (bval bo x n) = unat (ucast (bval bo x n) :: byte)"
    by (subst bval_ucast) (simp add: unsigned_ucast_eq unsigned_take_bit_eq)
  moreover have "unat (ucast (bval bo x n) :: byte) < 256" using unsigned_less [of "ucast (bval bo x n) :: byte"] by simp
  ultimately show ?thesis using Sbox_entry by (simp add: Sbox_def)
qed

text \<open>A byte of the S-box at row \<open>r\<close> of what \<^verbatim>\<open>four_tables\<close> looks up.\<close>

definition looked_up :: "byte_order \<Rightarrow> 'x \<Rightarrow> ('x \<Rightarrow> nat \<Rightarrow> nat \<Rightarrow> u32) \<Rightarrow> (nat \<Rightarrow> nat \<Rightarrow> nat) \<Rightarrow> nat \<Rightarrow> bytes" where
  "looked_up bo x vf rf c = map (\<lambda>r. Sbox (ucast (bval bo (vf x r c) (rf r c)))) [0, 1, 2, 3]"

lemma word_out_parts:
  "word_out bo (aes_w0 bo (ucast b)) = [b, 0, 0, 0]" "word_out bo (aes_w1 bo (ucast b)) = [0, b, 0, 0]"
  "word_out bo (aes_w2 bo (ucast b)) = [0, 0, b, 0]" "word_out bo (aes_w3 bo (ucast b)) = [0, 0, 0, b]"
  "word_out bo (aes_u0 bo (ucast b)) = [xtime b, b, b, xtime b XOR b]" "word_out bo (aes_u1 bo (ucast b)) = [xtime b XOR b, xtime b, b, b]"
  "word_out bo (aes_u2 bo (ucast b)) = [b, xtime b XOR b, xtime b, b]" "word_out bo (aes_u3 bo (ucast b)) = [b, b, xtime b XOR b, xtime b]"
  using word_out_bytes2word [of bo b 0 0 0] word_out_bytes2word [of bo 0 b 0 0] word_out_bytes2word [of bo 0 0 b 0]
    word_out_bytes2word [of bo 0 0 0 b]
  by (simp_all add: aes_w0_def aes_w1_def aes_w2_def aes_w3_def aes_u0_def aes_u1_def aes_u2_def aes_u3_def f2_xtime f3_xtime word_out_bytes2word)

lemma four_tables_fl: "word_out bo (four_tables bo x (t_fl bo) vf rf c) = looked_up bo x vf rf c"
  by (simp add: four_tables_def t_fl_def looked_up_def table_entry word_out_xor word_out_parts xor_bytes_def)

lemma length_looked_up: "length (looked_up bo x vf rf c) = 4"
  by (simp add: looked_up_def)

lemma length_mix_column: "length (mix_column a) = 4"
  by (simp add: mix_column_def)

lemma mix_column_4: "mix_column [a, b, c, d] =
    [xtime a XOR (xtime b XOR b) XOR c XOR d, xtime b XOR (xtime c XOR c) XOR d XOR a,
     xtime c XOR (xtime d XOR d) XOR a XOR b, xtime d XOR (xtime a XOR a) XOR b XOR c]"
  by (simp add: mix_column_def gmul_2 gmul_3)

lemma four_tables_fn: "word_out bo (four_tables bo x (t_fn bo) vf rf c) = mix_column (looked_up bo x vf rf c)"
  by (simp add: four_tables_def t_fn_def looked_up_def table_entry word_out_xor word_out_parts xor_bytes_def mix_column_4
    ac_simps)

lemma xor_bytes_commute: "xor_bytes a b = xor_bytes b a"
  by (induction a b rule: list_induct2') (simp_all add: xor_bytes_def ac_simps)

definition columns :: "byte_order \<Rightarrow> u32 list \<Rightarrow> bytes" where
  "columns bo x = concat (map (word_out bo) x)"

lemma four_words: "length x = 4 \<Longrightarrow> \<exists>a b c d. x = [a, b, c, d]"
  by (auto simp: length_Suc_conv numeral_eq_Suc)
lemma four_words': "4 \<le> length x \<Longrightarrow> \<exists>a b c d y. x = a # b # c # d # y"
  by (auto simp: Suc_le_length_iff numeral_eq_Suc)

lemma fwd_rnd_round:
  assumes "length x = 4" and "4 \<le> length k"
  shows "columns bo (round_of (fwd_rnd bo) x k) = cipher_round (columns bo x) (columns bo (take 4 k))"
    "columns bo (round_of (fwd_lrnd bo) x k) = last_round (columns bo x) (columns bo (take 4 k))"
proof -
  obtain x0 x1 x2 x3 where x: "x = [x0, x1, x2, x3]" using four_words [OF assms(1)] by blast
  obtain k0 k1 k2 k3 k' where k: "k = k0 # k1 # k2 # k3 # k'" using four_words' [OF assms(2)] by blast
  have S: "ShiftRows (SubBytes (columns bo x)) = concat (map (looked_up bo x fwd_var rf1) [0, 1, 2, 3])"
    by (simp add: x columns_def ShiftRows_def SubBytes_def looked_up_def fwd_var_def rf1_def word_out_def)
  have M: "MixColumns (concat (map f [0, 1, 2, 3])) = concat (map (\<lambda>c. mix_column (f c)) [0, 1, 2, 3])"
    if "\<And>c. length (f c) = 4" for f :: "nat \<Rightarrow> bytes" using that by (simp add: MixColumns_def)
  have K: "xor_bytes (concat (map f [0, 1, 2, 3])) (columns bo (take 4 k)) =
      concat (map (\<lambda>c. xor_bytes (word_out bo (k ! c)) (f c)) [0, 1, 2, 3])"
    if "\<And>c. length (f c) = 4" for f :: "nat \<Rightarrow> bytes"
    using that by (subst xor_bytes_commute) (simp add: k columns_def xor_bytes_append)
  show "columns bo (round_of (fwd_rnd bo) x k) = cipher_round (columns bo x) (columns bo (take 4 k))"
    unfolding cipher_round_def S M [OF length_looked_up] K [OF length_mix_column]
    by (simp add: columns_def round_of_def fwd_rnd_def word_out_xor four_tables_fn)
  show "columns bo (round_of (fwd_lrnd bo) x k) = last_round (columns bo x) (columns bo (take 4 k))"
    unfolding last_round_def S K [OF length_looked_up]
    by (simp add: columns_def round_of_def fwd_lrnd_def word_out_xor four_tables_fl)
qed

lemma length_round_of [simp]: "length (round_of rm x k) = 4"
  by (simp add: round_of_def)

lemma word_out_word_in: "4 * c + 4 \<le> length b \<Longrightarrow> word_out bo (word_in bo b c) = take 4 (drop (4 * c) b)"
  unfolding word_in_def word_out_bytes2word
  using Cons_nth_drop_Suc [of "4 * c" b] Cons_nth_drop_Suc [of "4 * c + 1" b] Cons_nth_drop_Suc [of "4 * c + 2" b]
    Cons_nth_drop_Suc [of "4 * c + 3" b] by (simp add: numeral_eq_Suc take_Suc_conv_app_nth)

lemma chunks_4: "length b = 16 \<Longrightarrow> take 4 b @ take 4 (drop 4 b) @ take 4 (drop 8 b) @ drop 12 b = b"
  using append_take_drop_id [of 4 b] append_take_drop_id [of 4 "drop 4 b"] append_take_drop_id [of 4 "drop 8 b"] by simp

lemma state_in_columns:
  assumes "length b = 16" and "4 \<le> length k"
  shows "columns bo (state_in bo b k) = xor_bytes b (columns bo (take 4 k))"
proof -
  obtain k0 k1 k2 k3 k' where k: "k = k0 # k1 # k2 # k3 # k'" using four_words' [OF assms(2)] by blast
  have "columns bo (state_in bo b k) = xor_bytes (take 4 b @ take 4 (drop 4 b) @ take 4 (drop 8 b) @ drop 12 b) (columns bo (take 4 k))"
    using assms(1) by (simp add: columns_def state_in_def k word_out_xor word_out_word_in xor_bytes_append)
  then show ?thesis using chunks_4 [OF assms(1)] by simp
qed

lemma state_out_columns: "length x = 4 \<Longrightarrow> state_out bo x = columns bo x"
  using four_words [of x] by (auto simp: state_out_def columns_def)

section \<open>Encryption is the reference\<close>

lemma columns_round_key: "columns bo (take 4 (drop (4 * r) k)) = round_key (map (word_out bo) k) r"
  by (simp add: columns_def round_key_def take_map drop_map)

lemma round_key_take: "r \<le> nr \<Longrightarrow> round_key (take (4 * nr + 4) w) r = round_key w r"
  by (simp add: round_key_def drop_take min_def)

lemma aes_encrypt_Cipher:
  assumes "length inb = 16" and "length (ks cx) = 60" and "inf_b cx ! 0 = word_of_nat (16 * nr)" and "nr \<in> {10, 12, 14}"
  shows "aes_encrypt bo inb cx = Some (Cipher nr (map (word_out bo) (take (4 * nr + 4) (ks cx))) inb)"
proof -
  let ?R = "\<lambda>n x. round_of (fwd_rnd bo) x (drop (n * 4) (ks cx))"
  let ?k = "round_key (map (word_out bo) (ks cx))"
  have R: "columns bo (round_of (fwd_rnd bo) x (drop (4 * n) (ks cx))) = cipher_round (columns bo x) (?k n)"
      "columns bo (round_of (fwd_lrnd bo) x (drop (4 * n) (ks cx))) = last_round (columns bo x) (?k n)"
    if "length x = 4" "n \<le> 14" for x n
    using fwd_rnd_round [OF that(1), of "drop (4 * n) (ks cx)" bo] assms(2) that(2) columns_round_key by simp_all
  note Rs = R [of _ 1, simplified] R [of _ 2, simplified]  R [of _ 3, simplified] R [of _ 4, simplified] R [of _ 5, simplified]
    R [of _ 6, simplified] R [of _ 7, simplified] R [of _ 8, simplified] R [of _ 9, simplified] R [of _ 10, simplified]
    R [of _ 11, simplified] R [of _ 12, simplified] R [of _ 13, simplified] R [of _ 14, simplified]
  have k0: "columns bo (state_in bo inb (ks cx)) = xor_bytes inb (?k 0)"
    using state_in_columns [OF assms(1), of "ks cx" bo] columns_round_key [of bo 0 "ks cx"] assms(2) by simp
  have "length (state_in bo inb k) = 4" for k by (simp add: state_in_def)
  have "foldl (\<lambda>s r. cipher_round s (round_key (take (4 * nr + 4) w) r)) s [1..<nr] = foldl (\<lambda>s r. cipher_round s (round_key w r)) s [1..<nr]"
    for s w by (rule foldl_cong) (simp_all add: round_key_take)
  then have C: "Cipher nr (map (word_out bo) (take (4 * nr + 4) (ks cx))) inb =
      last_round (foldl (\<lambda>s r. cipher_round s (?k r)) (xor_bytes inb (?k 0)) [1..<nr]) (?k nr)"
    unfolding Cipher_def take_map [symmetric] by (simp add: round_key_take)
  have u: "[1..<10] = [1, 2, 3, 4, 5, 6, 7, 8, 9]" "[1..<12] = [1, 2, 3, 4, 5, 6, 7, 8, 9, 10, 11]"
    "[1..<14] = [1, 2, 3, 4, 5, 6, 7, 8, 9, 10, 11, 12, 13]" by code_simp+
  note enc = aes_encrypt_def Let_def state_out_columns N_COLS_def
  have lin: "length (state_in bo inb k) = 4" for k by (simp add: state_in_def)
  from assms(4) consider "nr = 10" | "nr = 12" | "nr = 14" by blast
  then show ?thesis
  proof cases
    case 1
    show ?thesis unfolding C unfolding 1 u using assms(3) by (simp add: 1 enc Rs lin k0)
  next
    case 2
    show ?thesis unfolding C unfolding 2 u using assms(3) by (simp add: 2 enc Rs lin k0)
  next
    case 3
    show ?thesis unfolding C unfolding 3 u using assms(3) by (simp add: 3 enc Rs lin k0)
  qed
qed

section \<open>The key schedules are the key expansion\<close>

text \<open>
  The first \<open>j\<close> words of the schedule are there, and the array \<^verbatim>\<open>ss\<close> holds the last \<open>nk\<close> of them,
  each in its place.
\<close>

definition schedule_upto :: "byte_order \<Rightarrow> nat \<Rightarrow> bytes list \<Rightarrow> nat \<Rightarrow> u32 list \<times> u32 list \<Rightarrow> bool" where
  "schedule_upto bo nk w j st \<longleftrightarrow> length (fst st) = 60 \<and> length (snd st) = nk \<and> length w = nk \<and> 0 < nk \<and> nk \<le> j \<and>
     map (word_out bo) (take j (fst st)) = expand nk w (j - nk) \<and>
     (\<forall>i. j \<le> i + nk \<and> i < j \<longrightarrow> snd st ! (i mod nk) = fst st ! i)"

lemma length_expand: "length (expand nk w n) = length w + n"
  by (induction n) (simp_all add: Let_def)

text \<open>What a step must add to the word \<open>nk\<close> places back.\<close>

definition step_word :: "nat \<Rightarrow> nat \<Rightarrow> bytes \<Rightarrow> bytes" where
  "step_word nk j t = (if j mod nk = 0 then xor_bytes (SubBytes (RotWord t)) (Rcon (j div nk))
     else if 6 < nk \<and> j mod nk = 4 then SubBytes t else t)"

lemma mod_distinct: 
  assumes "i < j" and "j < i + nk" shows "i mod nk \<noteq> j mod (nk :: nat)"
proof
  assume "i mod nk = j mod nk"
  then have "nk dvd j - i" using assms(1) mod_eq_dvd_iff_nat less_imp_le by metis
  then show False using assms by (auto dest!: dvd_imp_le)
qed

lemma schedule_put:
  assumes inv: "schedule_upto bo nk w j (k, ss)" and j: "j < 60" "j mod nk = m"
    and x: "word_out bo (x ss) = step_word nk j (word_out bo (ss ! ((j - 1) mod nk)))"
  shows "schedule_upto bo nk w (Suc j) (put j m x (k, ss))"
proof -
  note d = inv [unfolded schedule_upto_def fst_conv snd_conv]
  let ?v = "ss ! m XOR x ss"
  have at: "j \<le> i + nk \<Longrightarrow> i < j \<Longrightarrow> ss ! (i mod nk) = k ! i" for i using d by blast
  have "(j - nk) mod nk = m" using d j(2) le_mod_geq by metis
  then have old: "ss ! m = k ! (j - nk)" using at [of "j - nk"] d by simp
  have last: "ss ! ((j - 1) mod nk) = k ! (j - 1)" 
  proof (rule at)
    show "j \<le> j - 1 + nk" "j - 1 < j" using d by linarith+
  qed
  have m: "map (word_out bo) (take j k) = expand nk w (j - nk)" and lk: "length k = 60" using d by blast+
  have e: "expand nk w (j - nk) ! i = word_out bo (k ! i)" if "i < j" for i
    unfolding m [symmetric] using that lk j(1) by simp
  have "word_out bo ?v = next_word nk (expand nk w (j - nk))"
    using x [unfolded last] d by (simp add: word_out_xor next_word_def length_expand Let_def e step_word_def old)
  then have new: "map (word_out bo) (take (Suc j) (k[j := ?v])) = expand nk w (Suc j - nk)"
    using d j(1) by (simp add: take_Suc_conv_app_nth Suc_diff_le Let_def)
  have "m < length ss" using d j(2) mod_less_divisor by metis
  then have "ss[m := ?v] ! (i mod nk) = k[j := ?v] ! i" if "Suc j \<le> i + nk" "i < Suc j" for i
    using that d j mod_distinct [of i j nk] by (cases "i = j") simp_all
  then show ?thesis using new d j by (simp add: schedule_upto_def put_def Let_def)
qed


text \<open>The three kinds of steps.\<close>

lemma schedule_plain:
  assumes "schedule_upto bo nk w j st" and "j < 60" and "j mod nk = m'" and "m' = Suc m" and "6 < nk \<Longrightarrow> m \<noteq> 3" and "j' = Suc j"
  shows "schedule_upto bo nk w j' (put j m' (\<lambda>ss. ss ! m) st)"
proof -
  obtain k ss where st: "st = (k, ss)" by (cases st)
  have "(j - 1) mod nk = m" using assms(3,4) by (cases j) (auto simp: mod_Suc split: if_splits)
  then show ?thesis unfolding st using assms by (auto intro!: schedule_put simp: st step_word_def)
qed

lemma word_out_ls_box: "word_out bo (ls_box bo x 0) = SubBytes (word_out bo x)"
  "word_out bo (ls_box bo x 3) = SubBytes (RotWord (word_out bo x))"
  unfolding ls_box_def four_tables_fl by (simp_all add: looked_up_def vf1_def rf2_def SubBytes_def RotWord_def word_out_def)

definition rcon_byte :: "nat \<Rightarrow> u32" where
  "rcon_byte i = ucast (Rcon (Suc i) ! 0)"

lemma word_out_rc: "i < 10 \<Longrightarrow> word_out bo (t_rc bo ! i) = Rcon (Suc i)"
proof -
  assume i: "i < 10"
  have r: "rc_data = map rcon_byte [0..<10]" by code_simp
  show ?thesis using i word_out_parts(1) [of bo "Rcon (Suc i) ! 0"] by (simp add: t_rc_def r rcon_byte_def) (simp add: Rcon_def)
qed

lemma schedule_rot:
  assumes "schedule_upto bo nk w j st" and "j < 60" and "j = nk * Suc i" and "i < 10" and "nk = Suc m" and "j' = Suc j"
  shows "schedule_upto bo nk w j' (put j 0 (\<lambda>ss. ls_box bo (ss ! m) 3 XOR t_rc bo ! i) st)"
proof -
  obtain k ss where st: "st = (k, ss)" by (cases st)
  have "j - 1 = nk * i + m" unfolding assms(3) mult_Suc_right using assms(5) by linarith
  moreover have "m < nk" using assms(5) by simp
  ultimately have p: "(j - 1) mod nk = m" by (metis mod_less mod_mult_self4)
  have j: "j mod nk = 0" "j div nk = Suc i" using assms(3,5) by (metis mod_mult_self1_is_0, metis nonzero_mult_div_cancel_left nat.simps(3))
  have "word_out bo (ls_box bo (ss ! m) 3 XOR t_rc bo ! i) = step_word nk j (word_out bo (ss ! m))"
    using assms(4) j by (simp add: step_word_def word_out_xor word_out_ls_box word_out_rc)
  then show ?thesis unfolding st assms(6) using assms(1,2) p j by (intro schedule_put) (simp_all add: st)
qed

lemma schedule_sub:
  assumes "schedule_upto bo 8 w j st" and "j < 60" and "j mod 8 = 4" and "j' = Suc j"
  shows "schedule_upto bo 8 w j' (put j 4 (\<lambda>ss. ls_box bo (ss ! 3) 0) st)"
proof -
  obtain k ss where st: "st = (k, ss)" by (cases st)
  have p: "(j - 1) mod 8 = 3" using assms(3) by (cases j) (auto simp: mod_Suc split: if_splits)
  have "word_out bo (ls_box bo (ss ! 3) 0) = step_word 8 j (word_out bo (ss ! 3))"
    using assms(3) by (simp add: step_word_def word_out_ls_box)
  then show ?thesis unfolding st assms(4) using assms(1-3) p by (intro schedule_put) (simp_all add: st)
qed

lemma ke4_schedule:
  assumes "schedule_upto bo 4 w (4 * i + 4) st" and "i < 10"
  shows "schedule_upto bo 4 w (4 * i + 8) (ke4 bo i st)"
  unfolding ke4_def in_order_def fold_simps id_def comp_def
  by (rule schedule_plain schedule_rot assms(1))+ (use assms(2) in presburger)+

lemma kef6_schedule:
  assumes "schedule_upto bo 6 w (6 * i + 6) st" and "i < 8"
  shows "schedule_upto bo 6 w (6 * i + 10) (kef6 bo i st)"
  unfolding kef6_def in_order_def fold_simps id_def comp_def
  by (rule schedule_plain schedule_rot assms(1))+ (use assms(2) in presburger)+

lemma ke6_schedule:
  assumes "schedule_upto bo 6 w (6 * i + 6) st" and "i < 7"
  shows "schedule_upto bo 6 w (6 * i + 12) (ke6 bo i st)"
  unfolding ke6_def in_order_def fold_simps id_def comp_def
  by (rule schedule_plain kef6_schedule assms(1))+ (use assms(2) in presburger)+

lemma kef8_schedule:
  assumes "schedule_upto bo 8 w (8 * i + 8) st" and "i < 7"
  shows "schedule_upto bo 8 w (8 * i + 12) (kef8 bo i st)"
  unfolding kef8_def in_order_def fold_simps id_def comp_def
  by (rule schedule_plain schedule_rot assms(1))+ (use assms(2) in presburger)+

lemma ke8_schedule:
  assumes "schedule_upto bo 8 w (8 * i + 8) st" and "i < 6"
  shows "schedule_upto bo 8 w (8 * i + 16) (ke8 bo i st)"
  unfolding ke8_def in_order_def fold_simps id_def comp_def
  by (rule schedule_plain schedule_sub kef8_schedule assms(1))+ (use assms(2) in presburger)+

lemma key_words_schedule:
  assumes "length key = 4 * nk" and "0 < nk" and "nk \<le> 8" and "length k = 60"
  shows "schedule_upto bo nk (map (\<lambda>c. take 4 (drop (4 * c) key)) [0..<nk]) nk (key_words bo nk key k)"
  using assms by (auto simp: schedule_upto_def key_words_def Let_def word_out_word_in nth_append)

lemma scheduled:
  assumes "schedule_upto bo nk (map (\<lambda>c. take 4 (drop (4 * c) key)) [0..<nk]) (4 * nk + 28) st"
  shows "length (fst st) = 60" "map (word_out bo) (take (4 * nk + 28) (fst st)) = KeyExpansion nk key"
  using assms by (simp_all add: schedule_upto_def KeyExpansion_def)

lemma aes_encrypt_keys:
  assumes "length key = 4 * nk" and "nk \<in> {4, 6, 8}" and "length (ks cx) = 60"
  shows "\<exists>cx'. aes_encrypt_key bo key (int (length key)) cx = Some cx' \<and> length (ks cx') = 60 \<and>
     inf_b cx' ! 0 = word_of_nat (16 * (nk + 6)) \<and> map (word_out bo) (take (4 * nk + 28) (ks cx')) = KeyExpansion nk key"
proof -
  consider "nk = 4" | "nk = 6" | "nk = 8" using assms(2) by blast
  then show ?thesis
  proof cases
    case 1
    note k = key_words_schedule [OF assms(1) _ _ assms(3), of bo, unfolded 1]
    have "schedule_upto bo 4 (map (\<lambda>c. take 4 (drop (4 * c) key)) [0..<4]) (4 * 4 + 28)
       (in_order [ke4 bo 0, ke4 bo 1, ke4 bo 2, ke4 bo 3, ke4 bo 4, ke4 bo 5, ke4 bo 6, ke4 bo 7, ke4 bo 8, ke4 bo 9]
         (key_words bo 4 key (ks cx)))"
      using k ke4_schedule [where bo = bo and i = 0] ke4_schedule [where bo = bo and i = 1] ke4_schedule [where bo = bo and i = 2]
        ke4_schedule [where bo = bo and i = 3] ke4_schedule [where bo = bo and i = 4] ke4_schedule [where bo = bo and i = 5]
        ke4_schedule [where bo = bo and i = 6] ke4_schedule [where bo = bo and i = 7] ke4_schedule [where bo = bo and i = 8]
        ke4_schedule [where bo = bo and i = 9]
      by (simp add: in_order_def)
    from scheduled [OF this] assms(1) show ?thesis by (simp add: 1 aes_encrypt_key_def aes_encrypt_key128_def)
  next
    case 2
    note k = key_words_schedule [OF assms(1) _ _ assms(3), of bo, unfolded 2]
    have "schedule_upto bo 6 (map (\<lambda>c. take 4 (drop (4 * c) key)) [0..<6]) (4 * 6 + 28)
       (in_order [ke6 bo 0, ke6 bo 1, ke6 bo 2, ke6 bo 3, ke6 bo 4, ke6 bo 5, ke6 bo 6, kef6 bo 7]
         (key_words bo 6 key (ks cx)))"
      using k ke6_schedule [where bo = bo and i = 0] ke6_schedule [where bo = bo and i = 1] ke6_schedule [where bo = bo and i = 2]
        ke6_schedule [where bo = bo and i = 3] ke6_schedule [where bo = bo and i = 4] ke6_schedule [where bo = bo and i = 5]
        ke6_schedule [where bo = bo and i = 6] kef6_schedule [where bo = bo and i = 7]
      by (simp add: in_order_def)
    from scheduled [OF this] assms(1) show ?thesis by (simp add: 2 aes_encrypt_key_def aes_encrypt_key192_def)
  next
    case 3
    note k = key_words_schedule [OF assms(1) _ _ assms(3), of bo, unfolded 3]
    have "schedule_upto bo 8 (map (\<lambda>c. take 4 (drop (4 * c) key)) [0..<8]) (4 * 8 + 28)
       (in_order [ke8 bo 0, ke8 bo 1, ke8 bo 2, ke8 bo 3, ke8 bo 4, ke8 bo 5, kef8 bo 6]
         (key_words bo 8 key (ks cx)))"
      using k ke8_schedule [where bo = bo and i = 0] ke8_schedule [where bo = bo and i = 1] ke8_schedule [where bo = bo and i = 2]
        ke8_schedule [where bo = bo and i = 3] ke8_schedule [where bo = bo and i = 4] ke8_schedule [where bo = bo and i = 5]
        kef8_schedule [where bo = bo and i = 6]
      by (simp add: in_order_def)
    from scheduled [OF this] assms(1) show ?thesis by (simp add: 3 aes_encrypt_key_def aes_encrypt_key256_def)
  qed
qed

section \<open>The S-box\<close>

text \<open>Every entry is the affine image of the inverse of its index, where 0 counts as its own inverse.\<close>

definition inv_affine :: "byte \<Rightarrow> byte" where
  "inv_affine b = rotl8 1 b XOR rotl8 3 b XOR rotl8 6 b XOR 0x05"

definition affine_inverse :: "byte \<Rightarrow> u32 \<Rightarrow> bool" where
  "affine_inverse b s \<longleftrightarrow>
     (let y = inv_affine (ucast s) in s = ucast (affine y) \<and> (if b = 0 then y = 0 else gmul b y = 1))"

fun from_byte :: "byte \<Rightarrow> u32 list \<Rightarrow> bool" where
  "from_byte b [] = True"
| "from_byte b (s # ss) = (affine_inverse b s \<and> from_byte (b + 1) ss)"

lemma quarter_1: "from_byte 0 (take 64 sb_data)" by code_simp
lemma quarter_2: "from_byte 64 (take 64 (drop 64 sb_data))" by code_simp
lemma quarter_3: "from_byte 128 (take 64 (drop 128 sb_data))" by code_simp
lemma quarter_4: "from_byte 192 (drop 192 sb_data)" by code_simp

lemma from_byte_append: "from_byte b (ss @ ts) \<longleftrightarrow> from_byte b ss \<and> from_byte (b + word_of_nat (length ss)) ts"
  by (induction ss arbitrary: b) (simp_all add: ac_simps)

lemma from_byte_nth: "from_byte b ss \<Longrightarrow> i < length ss \<Longrightarrow> affine_inverse (b + word_of_nat i) (ss ! i)"
proof (induction ss arbitrary: b i)
  case (Cons s ss)
  then show ?case using Cons.IH [of "b + 1" "i - 1"] by (cases i) (simp_all add: ac_simps)
qed simp

lemma from_byte_sb_data: "from_byte 0 sb_data"
proof -
  have "sb_data = take 64 sb_data @ take 64 (drop 64 sb_data) @ take 64 (drop 128 sb_data) @ drop 192 sb_data"
    using append_take_drop_id [of 64 sb_data] append_take_drop_id [of 64 "drop 64 sb_data"]
      append_take_drop_id [of 64 "drop 128 sb_data"] by simp
  moreover have "from_byte 0 (take 64 sb_data @ take 64 (drop 64 sb_data) @ take 64 (drop 128 sb_data) @ drop 192 sb_data)"
    using quarter_1 quarter_2 quarter_3 quarter_4 by (simp add: from_byte_append)
  ultimately show ?thesis by metis
qed

lemma Sbox_affine_inverse: "\<exists>y. Sbox b = affine y \<and> (if b = 0 then y = 0 else gmul b y = 1)"
proof -
  have b: "unat b < length sb_data" using unsigned_less [of b] by simp
  have "affine_inverse b (sb_data ! unat b)" using from_byte_nth [OF from_byte_sb_data b] by simp
  then have y: "sb_data ! unat b = ucast (affine (inv_affine (Sbox b)))"
      "if b = 0 then inv_affine (Sbox b) = 0 else gmul b (inv_affine (Sbox b)) = 1"
    unfolding affine_inverse_def Let_def Sbox_def by blast+
  from arg_cong [OF y(1), of "\<lambda>s. ucast s :: byte"] have "Sbox b = affine (inv_affine (Sbox b))"
    by (simp add: ucast_ucast_byte flip: Sbox_def)
  then show ?thesis using y(2) by blast
qed

section \<open>Properties\<close>

text \<open>
  C16. The AES of the library. For a key of 16, 24 or 32 bytes the unrolled key schedule followed by
  the table-driven rounds gives, on a host of either byte order and whatever the context held, the
  block that the reference gives, with key expansion, SubBytes, ShiftRows and MixColumns on bytes;
  and the S-box is affine of the inverse in the field.
\<close>

theorem aes_is_reference:
  assumes "length key \<in> {16, 24, 32}" and "length block = 16" and "length (ks cx) = KS_LENGTH"
  shows "(\<exists>cx'. aes_encrypt_key bo key (int (length key)) cx = Some cx' \<and>
      aes_encrypt bo block cx' = Some (aes_reference (length key div 4) key block)) \<and>
    (\<forall>b. \<exists>y. Sbox b = affine y \<and> (if b = 0 then y = 0 else gmul b y = 1))"
proof -
  define nk where "nk = length key div 4"
  have nk: "nk \<in> {4, 6, 8}" "length key = 4 * nk" using assms(1) by (auto simp: nk_def)
  obtain cx' where cx: "aes_encrypt_key bo key (int (length key)) cx = Some cx'" "length (ks cx') = 60"
      "inf_b cx' ! 0 = word_of_nat (16 * (nk + 6))" "map (word_out bo) (take (4 * nk + 28) (ks cx')) = KeyExpansion nk key"
    using aes_encrypt_keys [OF nk(2,1)] assms(3) by (auto simp: KS_LENGTH_def)
  have "aes_encrypt bo block cx' = Some (aes_reference nk key block)"
    using aes_encrypt_Cipher [OF assms(2) cx(2,3)] nk(1) cx(4) by (auto simp: aes_reference_def)
  then show ?thesis using cx(1) Sbox_affine_inverse nk_def by blast
qed

lemma aes_is_reference_witness:
  "\<exists>cx'. aes_encrypt_key SAN_BIG_ENDIAN (map word_of_nat [0..<32]) 32 \<lparr>ks = replicate 60 7, inf_b = replicate 4 9\<rparr> = Some cx' \<and>
     aes_encrypt SAN_BIG_ENDIAN (replicate 16 1) cx' = Some (aes_reference 8 (map word_of_nat [0..<32]) (replicate 16 1))"
  using aes_is_reference [of "map word_of_nat [0..<32]" "replicate 16 1" "\<lparr>ks = replicate 60 7, inf_b = replicate 4 9\<rparr>" SAN_BIG_ENDIAN]
  by (simp add: KS_LENGTH_def)

text \<open>What counter mode and the datagrams ask of it: blocks for blocks, and the same at both ends.\<close>

lemma aes256_ok: "cipher_ok (aes256 bo)"
  by (simp add: cipher_ok_def aes256_def aes_encrypt_def aes_encrypt_key256_def Let_def state_out_def)

lemma aes256_reference: "length key = 32 \<Longrightarrow> length block = 16 \<Longrightarrow> aes256 bo key block = aes_reference 8 key block"
proof -
  assume l: "length key = 32" "length block = 16"
  obtain cx' where cx: "aes_encrypt_key bo key 32 \<lparr>ks = replicate KS_LENGTH 0, inf_b = replicate 4 0\<rparr> = Some cx'" "length (ks cx') = 60"
      "inf_b cx' ! 0 = word_of_nat (16 * 14)" "map (word_out bo) (take 60 (ks cx')) = KeyExpansion 8 key"
    using aes_encrypt_keys [of key 8 "\<lparr>ks = replicate KS_LENGTH 0, inf_b = replicate 4 0\<rparr>" bo] l(1) by (auto simp: KS_LENGTH_def)
  then have "aes_encrypt bo block cx' = Some (aes_reference 8 key block)"
    using aes_encrypt_Cipher [OF l(2) cx(2), of 14 bo] by (simp add: aes_reference_def)
  then show ?thesis using cx(1) by (simp add: aes256_def aes_encrypt_key_def)
qed

interpretation aes: cipher_pair "aes256 bo" "aes256 bo'" for bo bo'
  by unfold_locales (use aes256_ok in \<open>auto simp: cipher_ok_def aes256_reference\<close>)

text \<open>
  C15. A protected datagram over AES. With the same keys at both ends, whatever datagrams they
  handled before, data of 1 to 65534 bytes that was encrypted under a sequence number is decrypted
  to itself under this number, if the hosts have the same byte order or the data is at most one
  block; any other 12 bytes in the place of the digest are refused.
\<close>

lemma datagram_roundtrip:
  assumes "crypt_ok de" and "crypt_ok dd" and "same_keys dd de" and "length (a_key (dc_aes de)) = 32"
    and "bo' = bo \<or> length data \<le> 16"
    and "data \<noteq> []" and "length data \<le> 65534" and "seq \<noteq> 0xFFFFFFFFFFFFFFFF" and "length data + 20 \<le> length buf1" and "length data + 8 \<le> length buf2"
  shows "\<exists>out n de'. encryptAndAuthenticate bo (aes256 bo) data seq buf1 de = Inr ((out, n), de') \<and> same_keys de' de \<and>
    (\<exists>plain dd'. decryptAndVerifyMac bo' (aes256 bo') (take n out) buf2 seq dd = Inr ((plain, length data), dd') \<and>
      take (length data) plain = data \<and> same_keys dd' dd) \<and>
    (\<forall>t. length t = 12 \<and> t \<noteq> drop (length data) (take n out) \<longrightarrow>
      decryptAndVerifyMac bo' (aes256 bo') (take (length data) out @ t) buf2 seq dd =
        Inl (Thrown ''Mac signature inccorect. Possible attack detected.''))"
  by (rule aes.datagram_opened [OF assms])

lemma datagram_roundtrip_witness:
  "\<exists>out n de'. encryptAndAuthenticate SAN_LITTLE_ENDIAN (aes256 SAN_LITTLE_ENDIAN) [1, 2, 3] 5 (replicate 30 0) (sample_crypt [0, 0]) =
     Inr ((out, n), de') \<and>
   (\<exists>plain dd'. decryptAndVerifyMac SAN_BIG_ENDIAN (aes256 SAN_BIG_ENDIAN) (take n out) (replicate 20 0) 5 (sample_crypt [7, 8]) =
     Inr ((plain, 3), dd') \<and> take 3 plain = [1, 2, 3])"
proof -
  have len: "length [1 :: byte, 2, 3] = 3" by simp
  have "[1 :: byte, 2, 3] \<noteq> []" "length [1 :: byte, 2, 3] \<le> 65534" "(5 :: u64) \<noteq> 0xFFFFFFFFFFFFFFFF"
    "length [1 :: byte, 2, 3] + 20 \<le> length (replicate 30 (0 :: byte))"
    "length [1 :: byte, 2, 3] + 8 \<le> length (replicate 20 (0 :: byte))" by simp_all
  from datagram_roundtrip [OF sample_crypt_ok(2,2,3) _ _ this, of "[0, 0]" "[7, 8]" SAN_BIG_ENDIAN SAN_LITTLE_ENDIAN, unfolded len]
  show ?thesis by (auto simp: sample_crypt_def)
qed

end
