(* ===== verification/ShellSession.thy ===== *)
theory ShellSession
  imports Srp Messages Arq Aes
begin

text \<open>
  The two ends of the remote shell, \<^verbatim>\<open>src/shell/session.cpp\<close> and
  \<^verbatim>\<open>src/shell/clientsession.cpp\<close>: logging in with SRP, then commands and answers in protected
  datagrams. The lemmas give the invariant of a session, show that nothing is done for a client
  that has not proved its password, and that a client with the right password gets its answers.
\<close>

section \<open>Constants\<close>

definition SH_AES256_KEYLEN :: u32 where "SH_AES256_KEYLEN = 32"
definition SH_IVLEN :: u32 where "SH_IVLEN = 6"
definition SH_SHA1_OUTPUTLEN :: u32 where "SH_SHA1_OUTPUTLEN = 20"
definition SH_MAX_MSGLEN :: nat where "SH_MAX_MSGLEN = 60000"
definition SH_TERMINAL_MAXLINLEN :: nat where "SH_TERMINAL_MAXLINLEN = 512"
definition SH_SRP_KEYPAIR :: u32 where "SH_SRP_KEYPAIR = 1024"
definition SH_ERRORCODE_SRPERROR :: byte where "SH_ERRORCODE_SRPERROR = 2"
definition SH_ERRORCODE_PARSINGFAILED :: byte where "SH_ERRORCODE_PARSINGFAILED = 3"
definition SH_ERRORCODE_USERNOTFOUND :: byte where "SH_ERRORCODE_USERNOTFOUND = 4"
definition SH_ERRORCODE_AUTHENTICATIONFAILED :: byte where "SH_ERRORCODE_AUTHENTICATIONFAILED = 5"
definition SH_SRV_STATE_ZERO :: int where "SH_SRV_STATE_ZERO = 0"
definition SH_SRV_STATE_ALPHA :: int where "SH_SRV_STATE_ALPHA = 1"
definition SH_SRV_STATE_BETA :: int where "SH_SRV_STATE_BETA = 2"

lemmas state_defs = SH_SRV_STATE_ZERO_def SH_SRV_STATE_ALPHA_def SH_SRV_STATE_BETA_def

lemmas shell_consts = SH_AES256_KEYLEN_def SH_IVLEN_def SH_SHA1_OUTPUTLEN_def SH_MAX_MSGLEN_def
  SH_ERRORCODE_SRPERROR_def SH_ERRORCODE_PARSINGFAILED_def SH_ERRORCODE_USERNOTFOUND_def
  SH_ERRORCODE_AUTHENTICATIONFAILED_def state_defs

section \<open>\<^verbatim>\<open>Session\<close>\<close>

text \<open>
  A host: its byte order, the AES block function, big numbers and SHA-1 it is linked with, and
  what newly allocated memory holds in and behind a counter block.
\<close>

record host =
  h_bo :: byte_order
  h_cipher :: block_cipher
  h_bignum :: bignum
  h_sha1 :: hash
  h_garbage :: bytes
  h_beyond :: bytes

record shell_session =
  m_state :: int
  m_srpUsername :: bytes
  m_srpA :: bytes
  m_sessionK :: bytes
  m_math :: srp_math
  m_ver :: verificator
  m_enc :: "datagram_crypt option"
  m_dec :: "datagram_crypt option"

text \<open>What \<^verbatim>\<open>CNodeConnector::getParameter\<close> does, on the state of the connector.\<close>

type_synonym 'w get_parameter = "string \<Rightarrow> string \<Rightarrow> 'w \<Rightarrow> ((int \<times> string) \<times> 'w) io"

definition Session :: "host \<Rightarrow> shell_session run" where
  "Session P =
     run_bind (predefined SH_SRP_KEYPAIR) (\<lambda>ng.
     run_bind (OsslMathImpl (h_bignum P) (h_sha1 P) ng) (\<lambda>math.
       Inr \<lparr>m_state = SH_SRV_STATE_ZERO, m_srpUsername = [], m_srpA = [], m_sessionK = [], m_math = math,
         m_ver = \<lparr>ver_salt = [], ver_B = [], calc_M1 = [], calc_M2 = [], ver_username = [], ver_K = []\<rparr>,
         m_enc = None, m_dec = None\<rparr>))"

definition resetState :: "shell_session \<Rightarrow> shell_session" where
  "resetState s = s\<lparr>m_state := SH_SRV_STATE_ZERO, m_srpUsername := [], m_srpA := [], m_sessionK := [],
     m_enc := None, m_dec := None\<rparr>"

definition initCrypto :: "host \<Rightarrow> shell_session \<Rightarrow> shell_session io" where
  "initCrypto P s =
     (if m_enc s \<noteq> None \<and> m_dec s = None then Some (Inl (Thrown ''Session::initCrypto(): fatal''))
      else if m_enc s = None \<and> m_dec s \<noteq> None then Some (Inl (Thrown ''Session::initCrypto(): fatal''))
      else if m_enc s \<noteq> None then ret s
      else io_bind (HashKeyDerivator (h_sha1 P) (m_sessionK s) SH_AES256_KEYLEN SH_IVLEN SH_SHA1_OUTPUTLEN) (\<lambda>keydrv.
        Some (run_bind (DatagramCrypt (h_sha1 P) (h_garbage P) (h_beyond P) (mServerEncryptionKey keydrv) (mServerIV keydrv)
                 (mServerMacKey keydrv)) (\<lambda>enc.
              run_bind (DatagramCrypt (h_sha1 P) (h_garbage P) (h_beyond P) (mClientEncryptionKey keydrv) (mClientIV keydrv)
                 (mClientMacKey keydrv)) (\<lambda>dec.
                Inr (s\<lparr>m_enc := Some enc, m_dec := Some dec\<rparr>))))))"

text \<open>
  A command is answered from the \<^verbatim>\<open>result\<close> of \<^verbatim>\<open>getParameter\<close>; the texts that are put into
  \<^verbatim>\<open>applicationResponse\<close> before are all overwritten at the end. One block \<^verbatim>\<open>if\<close> on a name:
\<close>

definition ask_parameter ::
  "'w get_parameter \<Rightarrow> string \<Rightarrow> string \<Rightarrow> string \<Rightarrow> string \<times> bytes \<Rightarrow> 'w \<Rightarrow> ((string \<times> bytes) \<times> 'w) io" where
  "ask_parameter getParameter name failed strRequest = (\<lambda>(result, applicationResponse) w.
     if strRequest = name then
       io_bind (getParameter name result w) (\<lambda>((code, result), w).
         ret ((result, if code \<noteq> 0 then string2bytes failed else applicationResponse), w))
     else ret ((result, applicationResponse), w))"

definition processApplicationDatagram :: "'w get_parameter \<Rightarrow> bytes \<Rightarrow> 'w \<Rightarrow> ((bool \<times> bytes) \<times> 'w) io" where
  "processApplicationDatagram getParameter applicationRequest w =
     (let strRequest = bytes2string applicationRequest;
          response = (if strRequest = ''help'' then string2bytes ''peers | uptime | version | hostname'' else [])
      in io_bind (ask_parameter getParameter ''hostname'' ''Shell server could not received hostname'' strRequest ([], response) w)
           (\<lambda>(r, w).
         io_bind (ask_parameter getParameter ''uptime'' ''Shell server could not receive uptime'' strRequest r w) (\<lambda>(r, w).
         io_bind (ask_parameter getParameter ''version'' ''Shell server could not receive SAN Node version'' strRequest r w)
           (\<lambda>((result, response), w).
         let result = (if strRequest = ''version'' then result @ CHR 0x0A # ''Shell server version 1.0'' else result);
             response = (if strRequest = ''version'' then string2bytes result else response)
         in io_bind (ask_parameter getParameter ''peers'' ''Shell server could not received peer addresses'' strRequest (result, response) w)
           (\<lambda>((result, response), w).
         let result = (if length result = 0 then ''Unknown command'' else result)
         in ret ((True, string2bytes result), w))))))"

text \<open>
  What \<^verbatim>\<open>processEncrpytedDatagram\<close> throws is caught by its caller, which goes on with the
  connector as it is then; so the fault is a value beside it.
\<close>

definition processEncrpytedDatagram ::
  "host \<Rightarrow> 'w get_parameter \<Rightarrow> u64 \<Rightarrow> bytes \<Rightarrow> shell_session \<Rightarrow> 'w \<Rightarrow> ((bool \<times> bytes \<times> shell_session) run \<times> 'w) io" where
  "processEncrpytedDatagram P getParameter sequenceNumber encrpytedMessage s w =
     (if length encrpytedMessage = 0 then ret (Inr (False, [], s), w)
      else case m_dec s of None \<Rightarrow> ret (Inl NullPointer, w) | Some dec \<Rightarrow>
        let applicationRequest = resize (getOverheadLen + SH_MAX_MSGLEN) 0 []
        in case decryptAndVerifyMac (h_bo P) (h_cipher P) encrpytedMessage applicationRequest sequenceNumber dec of
             Inl e \<Rightarrow> ret (Inl e, w)
           | Inr ((applicationRequest, decpacketLen), dec) \<Rightarrow>
               let s = s\<lparr>m_dec := Some dec\<rparr>;
                   applicationRequest = resize decpacketLen 0 applicationRequest
               in io_bind (processApplicationDatagram getParameter applicationRequest w) (\<lambda>((ok, applicationResponse), w).
                    if \<not> ok then ret (Inr (False, [], s), w)
                    else if length applicationResponse = 0 then ret (Inr (False, [], s), w)
                    else case m_enc s of None \<Rightarrow> ret (Inl NullPointer, w) | Some enc \<Rightarrow>
                      let encrpytedResponse = resize (getOverheadLen + SH_MAX_MSGLEN) 0 []
                      in case encryptAndAuthenticate (h_bo P) (h_cipher P) applicationResponse sequenceNumber encrpytedResponse enc of
                           Inl e \<Rightarrow> ret (Inl e, w)
                         | Inr ((encrpytedResponse, encpacketLen), enc) \<Rightarrow>
                             ret (Inr (True, resize encpacketLen 0 encrpytedResponse, s\<lparr>m_enc := Some enc\<rparr>), w)))"

text \<open>
  The branches of \<^verbatim>\<open>processDatagram\<close> on the state. A parsing error in the first state is answered,
  but then the code goes on, with the empty user name. \<open>rnd\<close> is what the generator does if it is
  asked; a user that is not found has an exception of its own, a subclass of the other.
\<close>

definition state_zero ::
  "host \<Rightarrow> lookup \<Rightarrow> bytes run \<Rightarrow> bytes \<Rightarrow> bytes \<Rightarrow> shell_session \<Rightarrow> (bool \<times> bytes \<times> shell_session) run" where
  "state_zero P db rnd request response s =
     (let s = resetState s
      in run_bind (enc_parse_A_message request (m_srpUsername s) (m_srpA s)) (\<lambda>(r, username, srpA).
        let s = s\<lparr>m_srpUsername := username, m_srpA := srpA\<rparr>;
            parsed = (r = 0);
            (r, response) = (if parsed then (0, response) else enc_construct_P_message_fail response SH_ERRORCODE_PARSINGFAILED)
        in if \<not> parsed \<and> r \<noteq> 0 then Inr (False, response, resetState s)
           else case getVerificator (h_bignum P) (m_math s) True db rnd (m_srpUsername s) (m_srpA s) of
             Inl (Thrown what) \<Rightarrow>
               let code = (if what = ''User not found.'' then SH_ERRORCODE_USERNOTFOUND else SH_ERRORCODE_SRPERROR);
                   (r, response) = enc_construct_P_message_fail response code
               in if r \<noteq> 0 then Inr (False, response, resetState s) else Inr (True, response, resetState s)
           | Inl e \<Rightarrow> Inl e
           | Inr v \<Rightarrow>
               let s = s\<lparr>m_ver := v\<rparr>;
                   (r, response) = enc_construct_P_message_success (ver_salt v) (ver_B v) response
               in if r \<noteq> 0 then Inr (False, response, resetState s)
                  else Inr (True, response, s\<lparr>m_state := SH_SRV_STATE_ALPHA\<rparr>)))"

definition state_alpha :: "bytes \<Rightarrow> bytes \<Rightarrow> shell_session \<Rightarrow> (bool \<times> bytes \<times> shell_session) run" where
  "state_alpha request response s =
     (case enc_parse_B_message request [] of (r, currentM1) \<Rightarrow>
       if r \<noteq> 0 then
         let (r, response) = enc_construct_Q_message_fail response SH_ERRORCODE_PARSINGFAILED
         in if r \<noteq> 0 then Inr (False, response, resetState s) else Inr (True, response, resetState s)
       else case authenticate currentM1 (m_ver s) of
         Inl (Thrown what) \<Rightarrow>
           let (r, response) = enc_construct_Q_message_fail response SH_ERRORCODE_AUTHENTICATIONFAILED
           in if r \<noteq> 0 then Inr (False, response, resetState s) else Inr (True, response, resetState s)
       | Inl e \<Rightarrow> Inl e
       | Inr (currentM2, K) \<Rightarrow>
           let s = s\<lparr>m_sessionK := K\<rparr>;
               (r, response) = enc_construct_Q_message_success currentM2 response
           in if r \<noteq> 0 then Inr (False, response, resetState s)
              else Inr (True, response, s\<lparr>m_state := SH_SRV_STATE_BETA\<rparr>))"

definition state_beta ::
  "host \<Rightarrow> 'w get_parameter \<Rightarrow> u64 \<Rightarrow> bytes \<Rightarrow> bytes \<Rightarrow> shell_session \<Rightarrow> 'w \<Rightarrow> ((bool \<times> bytes \<times> shell_session) \<times> 'w) io" where
  "state_beta P getParameter sequenceNumber request response s w =
     (case enc_parse_C_message request [] of (r, encrpytedMessage) \<Rightarrow>
       if r \<noteq> 0 then ret ((False, response, resetState s), w)
       else
         let caught = (\<lambda>e w. case e of Thrown what \<Rightarrow> ret ((False, response, resetState s), w) | _ \<Rightarrow> Some (Inl e))
         in case initCrypto P s of
              None \<Rightarrow> None
            | Some (Inl e) \<Rightarrow> caught e w
            | Some (Inr s) \<Rightarrow>
                io_bind (processEncrpytedDatagram P getParameter sequenceNumber encrpytedMessage s w) (\<lambda>(result, w).
                  case result of
                    Inl e \<Rightarrow> caught e w
                  | Inr (ok, encryptedResponse, s) \<Rightarrow>
                      if \<not> ok then ret ((False, response, resetState s), w)
                      else ret ((True, snd (enc_construct_R_message encryptedResponse 0 response), s), w)))"

definition processDatagram ::
  "host \<Rightarrow> lookup \<Rightarrow> 'w get_parameter \<Rightarrow> bytes run \<Rightarrow> u64 \<Rightarrow> bytes \<Rightarrow> bytes \<Rightarrow> shell_session \<Rightarrow> 'w \<Rightarrow>
     ((bool \<times> bytes \<times> shell_session) \<times> 'w) io" where
  "processDatagram P db getParameter rnd sequenceNumber request response s w =
     (if m_state s = SH_SRV_STATE_ZERO then Some (run_bind (state_zero P db rnd request response s) (\<lambda>r. Inr (r, w)))
      else if m_state s = SH_SRV_STATE_ALPHA then Some (run_bind (state_alpha request response s) (\<lambda>r. Inr (r, w)))
      else if m_state s = SH_SRV_STATE_BETA then state_beta P getParameter sequenceNumber request response s w
      else ret ((True, response, s), w))"

section \<open>\<^verbatim>\<open>ClientSession\<close>\<close>

text \<open>
  The client talks through a \<^verbatim>\<open>StopWaitTx\<close>, a transport of the theory \<open>Arq\<close>: \<open>call\<close> is its
  \<^verbatim>\<open>sendReliableMessage\<close>, \<open>next\<close> its \<^verbatim>\<open>getNextSequenceNumber\<close>. Exceptions of the two crypto objects are
  not caught.
\<close>

definition getShellServerResponse ::
  "host \<Rightarrow> 'x transport \<Rightarrow> ('x \<Rightarrow> u64) \<Rightarrow> bytes \<Rightarrow> datagram_crypt \<times> datagram_crypt \<Rightarrow> 'x \<Rightarrow>
     ((int \<times> bytes \<times> datagram_crypt \<times> datagram_crypt) \<times> 'x) io" where
  "getShellServerResponse P call next shellRequest = (\<lambda>(enc, dec) x.
     let sequenceNumber = next x
     in if length shellRequest > SH_MAX_MSGLEN then ret ((-1, [], enc, dec), x)
        else
          let encryptedRequest = resize (getOverheadLen + SH_MAX_MSGLEN) 0 []
          in io_bind (Some (encryptAndAuthenticate (h_bo P) (h_cipher P) shellRequest sequenceNumber encryptedRequest enc))
            (\<lambda>((encryptedRequest, encpacketLen), enc).
          let encryptedRequest = resize encpacketLen 0 encryptedRequest
          in case enc_construct_C_message encryptedRequest [] of (rval, serverRequest) \<Rightarrow>
            if rval \<noteq> 0 then ret ((-2, [], enc, dec), x)
            else io_bind (call serverRequest x) (\<lambda>((ok, serverResponse), x).
              if \<not> ok then ret ((-3, [], enc, dec), x)
              else case enc_parse_R_message serverResponse [] 0 of (rval, encryptedResponse, errorCode) \<Rightarrow>
                if rval \<noteq> 0 then ret ((-4, [], enc, dec), x)
                else if errorCode \<noteq> 0 then ret ((-5, [], enc, dec), x)
                else
                  let shellResponse = resize (getOverheadLen + SH_MAX_MSGLEN) 0 []
                  in io_bind (Some (decryptAndVerifyMac (h_bo P) (h_cipher P) encryptedResponse shellResponse sequenceNumber dec))
                    (\<lambda>((shellResponse, decpacketLen), dec).
                    ret ((0, resize decpacketLen 0 shellResponse, enc, dec), x)))))"

text \<open>
  The terminal loop on the lines of the standard input, with the responses it prints. At the end
  of the input, and after a line that does not fit, every \<^verbatim>\<open>getline\<close> fails and leaves an empty
  line, so that the loop goes on for ever.
\<close>

fun terminal_loop ::
  "host \<Rightarrow> 'x transport \<Rightarrow> ('x \<Rightarrow> u64) \<Rightarrow> string list \<Rightarrow> datagram_crypt \<times> datagram_crypt \<Rightarrow> 'x \<Rightarrow> ((int \<times> bytes list) \<times> 'x) io" where
  "terminal_loop P call next [] c x = None"
| "terminal_loop P call next (input # inputs) c x =
     (let line = takeWhile (\<lambda>ch. ch \<noteq> CHR 0x00) (take (SH_TERMINAL_MAXLINLEN - 1) input);
          again = (\<lambda>c x. if length input < SH_TERMINAL_MAXLINLEN then terminal_loop P call next inputs c x else None)
      in if length line = 0 then again c x
         else if line = ''exit'' then ret ((0, []), x)
         else io_bind (getShellServerResponse P call next (string2bytes line) c x) (\<lambda>((rval, shellResponse, c), x).
                if rval \<noteq> 0 then ret ((0, []), x)
                else io_bind (again c x) (\<lambda>((rval, printed), x). ret ((rval, shellResponse # printed), x))))"

text \<open>\<open>rnd\<close> is what the generator does; the user name is an argument as text and as bytes.\<close>

definition ClientSession :: "host \<Rightarrow> srp_math run" where
  "ClientSession P = run_bind (predefined SH_SRP_KEYPAIR) (\<lambda>ng. OsslMathImpl (h_bignum P) (h_sha1 P) ng)"

definition client_login ::
  "host \<Rightarrow> srp_math \<Rightarrow> 'x transport \<Rightarrow> bytes run \<Rightarrow> string \<Rightarrow> string \<Rightarrow> 'x \<Rightarrow> ((int + bytes) \<times> 'x) io" where
  "client_login P math call rnd strUsername strPassword x =
     io_bind (Some (getAuthenticator (h_bignum P) math rnd (string2bytes strUsername) (string2bytes strPassword))) (\<lambda>sca.
     case enc_construct_A_message strUsername (sca_A sca) [] of (rval, request) \<Rightarrow>
     if rval \<noteq> 0 then ret (Inl (-1), x)
     else io_bind (call request x) (\<lambda>((ok, response), x).
     if \<not> ok then ret (Inl (-2), x)
     else case enc_parse_P_message response [] [] 0 of (rval, srpSalt, srpB, errorCode) \<Rightarrow>
     if rval \<noteq> 0 then ret (Inl (-3), x)
     else if errorCode = SH_ERRORCODE_USERNOTFOUND then ret (Inl (-9), x)
     else if errorCode \<noteq> 0 then ret (Inl (-4), x)
     else case getM1 (h_bignum P) math True srpSalt srpB sca of
       Inl (Thrown what) \<Rightarrow> ret (Inl (-5), x)
     | Inl e \<Rightarrow> Some (Inl e)
     | Inr (srpM1, sca) \<Rightarrow>
     (case enc_construct_B_message srpM1 request of (rval, request) \<Rightarrow>
     if rval \<noteq> 0 then ret (Inl (-6), x)
     else io_bind (call request x) (\<lambda>((ok, response), x).
     if \<not> ok then ret (Inl (-7), x)
     else case enc_parse_Q_message response [] 0 of (rval, srpM2, errorCode) \<Rightarrow>
     if rval \<noteq> 0 then ret (Inl (-8), x)
     else if errorCode = SH_ERRORCODE_AUTHENTICATIONFAILED then ret (Inl (-9), x)
     else if errorCode \<noteq> 0 then ret (Inl (-9), x)
     else case getSessionKey srpM2 sca of
       Inl (Thrown what) \<Rightarrow> ret (Inl (-10), x)
     | Inl e \<Rightarrow> Some (Inl e)
     | Inr K \<Rightarrow> ret (Inr K, x)))))"

definition client_crypto :: "host \<Rightarrow> bytes \<Rightarrow> (datagram_crypt \<times> datagram_crypt) io" where
  "client_crypto P K =
     io_bind (HashKeyDerivator (h_sha1 P) K SH_AES256_KEYLEN SH_IVLEN SH_SHA1_OUTPUTLEN) (\<lambda>keydrv.
     Some (run_bind (DatagramCrypt (h_sha1 P) (h_garbage P) (h_beyond P) (mClientEncryptionKey keydrv) (mClientIV keydrv)
             (mClientMacKey keydrv)) (\<lambda>enc.
           run_bind (DatagramCrypt (h_sha1 P) (h_garbage P) (h_beyond P) (mServerEncryptionKey keydrv) (mServerIV keydrv)
             (mServerMacKey keydrv)) (\<lambda>dec.
             Inr (enc, dec)))))"

text \<open>The result of asking for the host name is only shown, in front of every line.\<close>

definition client_run ::
  "host \<Rightarrow> srp_math \<Rightarrow> 'x transport \<Rightarrow> ('x \<Rightarrow> u64) \<Rightarrow> bytes run \<Rightarrow> string \<Rightarrow> string \<Rightarrow> string list \<Rightarrow> 'x \<Rightarrow>
     ((int \<times> bytes list) \<times> 'x) io" where
  "client_run P math call next rnd strUsername strPassword inputs x =
     io_bind (client_login P math call rnd strUsername strPassword x) (\<lambda>(result, x).
       case result of
         Inl code \<Rightarrow> ret ((code, []), x)
       | Inr K \<Rightarrow>
           io_bind (client_crypto P K) (\<lambda>c.
           io_bind (getShellServerResponse P call next (string2bytes ''hostname'') c x) (\<lambda>((_, shell, c), x).
             terminal_loop P call next inputs c x)))"

section \<open>What a session may do\<close>

lemma resetState_simps [simp]:
  "m_state (resetState s) = SH_SRV_STATE_ZERO" "m_srpUsername (resetState s) = []" "m_srpA (resetState s) = []"
  "m_sessionK (resetState s) = []" "m_math (resetState s) = m_math s" "m_ver (resetState s) = m_ver s"
  "m_enc (resetState s) = None" "m_dec (resetState s) = None"
  by (simp_all add: resetState_def)

text \<open>
  Keys exist only in the state \<open>BETA\<close>, the two crypto objects together; the mathematics is that of
  the start.
\<close>

definition session_ok :: "srp_math \<Rightarrow> shell_session \<Rightarrow> bool" where
  "session_ok math s \<longleftrightarrow> m_state s \<in> {SH_SRV_STATE_ZERO, SH_SRV_STATE_ALPHA, SH_SRV_STATE_BETA} \<and> m_math s = math \<and>
     (m_enc s = None \<longleftrightarrow> m_dec s = None) \<and> (m_state s \<noteq> SH_SRV_STATE_BETA \<longrightarrow> m_enc s = None \<and> m_sessionK s = [])"

lemma session_ok_reset [simp]: "session_ok math (resetState s) \<longleftrightarrow> m_math s = math"
  by (auto simp: session_ok_def)

definition new_session :: "srp_math \<Rightarrow> shell_session \<Rightarrow> bool" where
  "new_session math s \<longleftrightarrow> m_state s = SH_SRV_STATE_ZERO \<and> m_math s = math \<and> m_srpUsername s = [] \<and> m_srpA s = [] \<and>
     m_sessionK s = [] \<and> m_enc s = None \<and> m_dec s = None"

lemma Session_new: "Session P = Inr s \<Longrightarrow> new_session (m_math s) s \<and> sm_hash (m_math s) = h_sha1 P"
  by (auto simp: Session_def new_session_def OsslMathImpl_def run_bind_eq_Inr_iff Let_def split: if_splits)

lemma new_session_ok: "new_session math s \<Longrightarrow> session_ok math s"
  by (simp add: new_session_def session_ok_def)

lemma getVerificator_nameless: "getVerificator L m i db rnd [] A \<noteq> Inr v"
  by (auto simp: getVerificator_def serverChallange_def run_bind_eq_Inr_iff)

lemma state_zero_cases:
  assumes "state_zero P db rnd request response s = Inr (ok, response', s')"
  shows "s' = resetState (s\<lparr>m_ver := m_ver s'\<rparr>) \<or>
    (ok \<and> m_state s' = SH_SRV_STATE_ALPHA \<and> m_math s' = m_math s \<and> m_enc s' = None \<and> m_dec s' = None \<and> m_sessionK s' = [] \<and>
     enc_parse_A_message request [] [] = Inr (0, m_srpUsername s', m_srpA s') \<and>
     getVerificator (h_bignum P) (m_math s) True db rnd (m_srpUsername s') (m_srpA s') = Inr (m_ver s') \<and>
     enc_construct_P_message_success (ver_salt (m_ver s')) (ver_B (m_ver s')) response = (0, response'))"
proof -
  obtain r u A where parse: "enc_parse_A_message request [] [] = Inr (r, u, A)"
    using assms by (auto simp: state_zero_def run_bind_eq_Inr_iff Let_def)
  have nameless: "r \<noteq> 0 \<Longrightarrow> u = []"
    using parse by (auto simp: enc_parse_A_message_def Let_def split: if_splits)
  obtain q where q: "getVerificator (h_bignum P) (m_math s) True db rnd u A = q" by blast
  show ?thesis
  proof (cases q)
    case (Inl e)
    then show ?thesis
      using assms parse q by (cases e) (auto simp: state_zero_def Let_def construct_P_fail resetState_def split: if_splits)
  next
    case (Inr v)
    then have "r = 0" using nameless getVerificator_nameless q by metis
    then show ?thesis
      using assms parse q Inr
      by (auto simp: state_zero_def Let_def resetState_def split: if_splits prod.splits)
  qed
qed

lemma state_alpha_cases:
  assumes "state_alpha request response s = Inr (ok, response', s')"
  shows "s' = resetState s \<or>
    (ok \<and> (\<exists>K. s' = s\<lparr>m_sessionK := K, m_state := SH_SRV_STATE_BETA\<rparr>) \<and> calc_M1 (m_ver s) \<noteq> [] \<and>
     enc_parse_B_message request [] = (0, calc_M1 (m_ver s)))"
  using assms
  by (fastforce simp: state_alpha_def authenticate_def Let_def construct_Q_fail resetState_def
      split: if_splits prod.splits)

lemma Some_eq_ret: "Some r = ret y \<longleftrightarrow> r = Inr y"
  by (auto simp: ret_def)

lemma initCrypto_cases:
  assumes "initCrypto P s = ret s'" and "m_enc s = None \<longleftrightarrow> m_dec s = None"
  shows "\<exists>enc dec. s' = s\<lparr>m_enc := Some enc, m_dec := Some dec\<rparr>"
proof (cases "m_enc s")
  case None
  then show ?thesis
    using assms by (auto simp: initCrypto_def io_bind_eq_ret Some_eq_ret run_bind_eq_Inr_iff)
next
  case (Some enc)
  then obtain dec where "m_dec s = Some dec" using assms(2) by fastforce
  then have "s' = s\<lparr>m_enc := Some enc, m_dec := Some dec\<rparr>"
    using assms(1) Some by (simp add: initCrypto_def)
  then show ?thesis by blast
qed

lemma case_ret [simp]: "(case ret x of None \<Rightarrow> a | Some r \<Rightarrow> f r) = f (Inr x)"
  by (simp add: ret_def)

lemma reset_crypto [simp]: "resetState (s\<lparr>m_enc := enc, m_dec := dec\<rparr>) = resetState s"
  "resetState (s\<lparr>m_dec := dec, m_enc := enc\<rparr>) = resetState s" "resetState (s\<lparr>m_dec := dec\<rparr>) = resetState s"
  "resetState (s\<lparr>m_enc := enc\<rparr>) = resetState s"
  by (simp_all add: resetState_def)

lemma processEncrpytedDatagram_session:
  assumes "processEncrpytedDatagram P getParameter seq message s w = ret (Inr (ok, response, s'), w')"
  shows "resetState s' = resetState s \<and> (ok \<longrightarrow> (\<exists>enc dec. s' = s\<lparr>m_dec := Some dec, m_enc := Some enc\<rparr>))"
  using assms
  by (auto simp: processEncrpytedDatagram_def Let_def io_bind_eq_ret Some_eq_ret
      split: if_splits option.splits sum.splits prod.splits)


lemma state_beta_cases:
  assumes "state_beta P getParameter seq request response s w = ret ((ok, response', s'), w')"
    and pair: "m_enc s = None \<longleftrightarrow> m_dec s = None"
  shows "s' = resetState s \<or> (\<exists>enc dec. s' = s\<lparr>m_enc := Some enc, m_dec := Some dec\<rparr>)"
proof -
  obtain r msg where msg: "enc_parse_C_message request [] = (r, msg)" by fastforce
  show ?thesis
  proof (cases "r = 0")
    case False
    then show ?thesis using assms(1) msg by (simp add: state_beta_def)
  next
    case True
    then consider (fault) e where "initCrypto P s = Some (Inl e)" | (keys) s1 where "initCrypto P s = ret s1"
      using assms(1) msg by (auto simp: state_beta_def Let_def ret_def split: option.splits sum.splits)
    then show ?thesis
    proof cases
      case fault
      then show ?thesis using assms(1) msg True by (auto simp: state_beta_def split: fault.splits)
    next
      case keys
      obtain enc dec where s1: "s1 = s\<lparr>m_enc := Some enc, m_dec := Some dec\<rparr>"
        using initCrypto_cases [OF keys pair] by blast
      obtain result w1 where p: "processEncrpytedDatagram P getParameter seq msg s1 w = ret (result, w1)"
        using assms(1) msg True keys by (auto simp: state_beta_def Let_def io_bind_eq_ret)
      show ?thesis
      proof (cases result)
        case (Inl e)
        then show ?thesis using assms(1) msg True keys p
          by (auto simp: state_beta_def Let_def split: fault.splits)
      next
        case (Inr x)
        obtain ok1 resp1 s2 where x: "x = (ok1, resp1, s2)" by (cases x)
        note q = processEncrpytedDatagram_session [OF p [unfolded Inr x]]
        show ?thesis
        proof (cases ok1)
          case False
          then show ?thesis using assms(1) msg True keys p Inr x s1 q by (auto simp: state_beta_def Let_def)
        next
          case ok: True
          then obtain enc' dec' where "s2 = s1\<lparr>m_dec := Some dec', m_enc := Some enc'\<rparr>" using q by blast
          moreover have "s' = s2" using assms(1) msg True keys p Inr x ok by (simp add: state_beta_def Let_def)
          ultimately have "s' = s\<lparr>m_enc := Some enc', m_dec := Some dec'\<rparr>" using s1 by simp
          then show ?thesis by blast
        qed
      qed
    qed
  qed
qed


text \<open>
  A session's past: the requests of the datagrams it has processed, oldest first. The generator may
  do anything each time.
\<close>

inductive session_history ::
  "host \<Rightarrow> lookup \<Rightarrow> 'w get_parameter \<Rightarrow> shell_session \<Rightarrow> 'w \<Rightarrow> bytes list \<Rightarrow> shell_session \<Rightarrow> 'w \<Rightarrow> bool"
  for P db getParameter s0 w0 where
  created: "session_history P db getParameter s0 w0 [] s0 w0"
| processed: "session_history P db getParameter s0 w0 h s w \<Longrightarrow>
    processDatagram P db getParameter rnd seq request [] s w = ret ((ok, response, s'), w') \<Longrightarrow>
    session_history P db getParameter s0 w0 (h @ [request]) s' w'"

inductive_cases session_historyE: "session_history P db getParameter s0 w0 h s w"

text \<open>
  The user \<open>u\<close> proved the password: an A message with the name was followed at once by a B message
  with the proof that the server had calculated from the stored verificator.
\<close>

definition asked_for :: "host \<Rightarrow> lookup \<Rightarrow> srp_math \<Rightarrow> bytes \<Rightarrow> bytes \<Rightarrow> verificator \<Rightarrow> bool" where
  "asked_for P db math request u v \<longleftrightarrow> (\<exists>A rnd. enc_parse_A_message request [] [] = Inr (0, u, A) \<and>
     getVerificator (h_bignum P) math True db rnd u A = Inr v)"

definition logged_in :: "host \<Rightarrow> lookup \<Rightarrow> srp_math \<Rightarrow> bytes list \<Rightarrow> bytes \<Rightarrow> bool" where
  "logged_in P db math h u \<longleftrightarrow> (\<exists>past a b later v. h = past @ [a, b] @ later \<and> asked_for P db math a u v \<and>
     calc_M1 v \<noteq> [] \<and> enc_parse_B_message b [] = (0, calc_M1 v))"

lemma logged_in_later: "logged_in P db math h u \<Longrightarrow> logged_in P db math (h @ x) u"
  unfolding logged_in_def by (metis append.assoc)

lemma asked_for_known: "asked_for P db math a u v \<Longrightarrow> u \<in> dom db"
  by (auto simp: asked_for_def getVerificator_def getByName_def run_bind_eq_Inr_iff split: option.splits)

lemma logged_in_known: "logged_in P db math h u \<Longrightarrow> u \<in> dom db"
  unfolding logged_in_def using asked_for_known by blast

definition history_inv :: "host \<Rightarrow> lookup \<Rightarrow> srp_math \<Rightarrow> 'w \<Rightarrow> bytes list \<Rightarrow> shell_session \<Rightarrow> 'w \<Rightarrow> bool" where
  "history_inv P db math w0 h s w \<longleftrightarrow> session_ok math s \<and>
     (m_state s = SH_SRV_STATE_ALPHA \<longrightarrow> (\<exists>past a u. h = past @ [a] \<and> asked_for P db math a u (m_ver s))) \<and>
     (m_state s = SH_SRV_STATE_BETA \<or> w \<noteq> w0 \<longrightarrow> (\<exists>u. logged_in P db math h u))"

lemma history_inv_step:
  assumes inv: "history_inv P db math w0 h s w"
    and step: "processDatagram P db getParameter rnd seq request [] s w = ret ((ok, response, s'), w')"
  shows "history_inv P db math w0 (h @ [request]) s' w'"
proof -
  have ok: "session_ok math s" using inv by (simp add: history_inv_def)
  then consider (zero) "m_state s = SH_SRV_STATE_ZERO" | (alpha) "m_state s = SH_SRV_STATE_ALPHA" | (beta) "m_state s = SH_SRV_STATE_BETA"
    by (auto simp: session_ok_def)
  then show ?thesis
  proof cases
    case zero
    then have z: "state_zero P db rnd request [] s = Inr (ok, response, s')" "w' = w"
      using step by (auto simp: processDatagram_def Some_eq_ret run_bind_eq_Inr_iff)
    from state_zero_cases [OF z(1)] show ?thesis
    proof
      assume s': "s' = resetState (s\<lparr>m_ver := m_ver s'\<rparr>)"
      have "m_state s' = SH_SRV_STATE_ZERO" "session_ok math s'"
        using ok by (subst s', simp add: session_ok_def)+
      then show ?thesis using inv z(2) logged_in_later [of P db math h _ "[request]"] by (auto simp: history_inv_def state_defs)
    next
      assume c: "ok \<and> m_state s' = SH_SRV_STATE_ALPHA \<and> m_math s' = m_math s \<and> m_enc s' = None \<and> m_dec s' = None \<and>
        m_sessionK s' = [] \<and> enc_parse_A_message request [] [] = Inr (0, m_srpUsername s', m_srpA s') \<and>
        getVerificator (h_bignum P) (m_math s) True db rnd (m_srpUsername s') (m_srpA s') = Inr (m_ver s') \<and>
        enc_construct_P_message_success (ver_salt (m_ver s')) (ver_B (m_ver s')) [] = (0, response)"
      then have "session_ok math s'" "asked_for P db math request (m_srpUsername s') (m_ver s')"
        using ok by (auto simp: session_ok_def asked_for_def)
      then show ?thesis
        using inv z(2) c logged_in_later [of P db math h _ "[request]"] by (auto simp: history_inv_def state_defs)
    qed
  next
    case alpha
    then have a: "state_alpha request [] s = Inr (ok, response, s')" "w' = w"
      using step by (auto simp: processDatagram_def Some_eq_ret run_bind_eq_Inr_iff state_defs)
    obtain past a u where h: "h = past @ [a]" "asked_for P db math a u (m_ver s)"
      using inv alpha by (auto simp: history_inv_def)
    from state_alpha_cases [OF a(1)] show ?thesis
    proof
      assume "s' = resetState s"
      then show ?thesis using inv ok a(2) logged_in_later [of P db math h _ "[request]"]
        by (auto simp: history_inv_def state_defs session_ok_def)
    next
      assume c: "ok \<and> (\<exists>K. s' = s\<lparr>m_sessionK := K, m_state := SH_SRV_STATE_BETA\<rparr>) \<and> calc_M1 (m_ver s) \<noteq> [] \<and>
        enc_parse_B_message request [] = (0, calc_M1 (m_ver s))"
      then have "logged_in P db math (h @ [request]) u" using h by (auto simp: logged_in_def)
      moreover have "session_ok math s'" "m_state s' = SH_SRV_STATE_BETA"
        using c ok by (auto simp: session_ok_def state_defs)
      ultimately show ?thesis by (auto simp: history_inv_def state_defs)
    qed
  next
    case beta
    then have b: "state_beta P getParameter seq request [] s w = ret ((ok, response, s'), w')"
      using step by (simp add: processDatagram_def state_defs)
    obtain u where "logged_in P db math h u" using inv beta by (auto simp: history_inv_def)
    then have "logged_in P db math (h @ [request]) u" by (rule logged_in_later)
    moreover have "session_ok math s' \<and> m_state s' \<noteq> SH_SRV_STATE_ALPHA"
      using state_beta_cases [OF b] ok beta by (auto simp: session_ok_def state_defs)
    ultimately show ?thesis by (auto simp: history_inv_def)
  qed
qed

lemma history_inv_reached:
  assumes "session_history P db getParameter s0 w0 h s w" and "session_ok math s0" and "m_state s0 = SH_SRV_STATE_ZERO"
  shows "history_inv P db math w0 h s w"
  using assms(1)
proof induction
  case created
  then show ?case using assms(2,3) by (simp add: history_inv_def state_defs)
qed (rule history_inv_step)


section \<open>Logging in\<close>

lemma server_A:
  assumes "m_state s = SH_SRV_STATE_ZERO" and "0 \<notin> set u" and "64 \<le> length u + length A"
    and "getVerificator (h_bignum P) (m_math s) True db rnd u A = Inr v"
    and "16 \<le> length (ver_salt v)" "length (ver_salt v) \<le> 64" "64 \<le> length (ver_B v)" "length (ver_B v) \<le> 1024"
  shows "\<exists>s'. processDatagram P db getParameter rnd seq ([0x45, 0x41] @ u @ [0] @ A) [] s w =
      ret ((True, [0x45, 0x50, 0, word_of_nat (length (ver_salt v))] @ ver_salt v @ ver_B v, s'), w) \<and>
    m_state s' = SH_SRV_STATE_ALPHA \<and> m_ver s' = v \<and> m_enc s' = None \<and> m_dec s' = None"
  using assms parse_A_message [OF assms(2,3), of "[]" "[]"] construct_P_success [OF assms(5-8), of "[]"]
  by (simp add: processDatagram_def state_zero_def Let_def ret_def)

lemma server_B:
  assumes "m_state s = SH_SRV_STATE_ALPHA" and "16 \<le> length (calc_M1 (m_ver s))" "length (calc_M1 (m_ver s)) \<le> 512"
    and "16 \<le> length (calc_M2 (m_ver s))" "length (calc_M2 (m_ver s)) \<le> 512"
  shows "processDatagram P db getParameter rnd seq ([0x45, 0x42] @ calc_M1 (m_ver s)) [] s w =
    ret ((True, [0x45, 0x51, 0] @ calc_M2 (m_ver s), s\<lparr>m_sessionK := ver_K (m_ver s), m_state := SH_SRV_STATE_BETA\<rparr>), w)"
proof -
  have "calc_M1 (m_ver s) \<noteq> []" using assms(2) by auto
  then show ?thesis
    using assms parse_B [OF assms(2,3), of "[]"] construct_Q_success [OF assms(4,5), of "[]"]
    by (simp add: processDatagram_def state_alpha_def authenticate_def Let_def ret_def state_defs)
qed

section \<open>The keys of a session\<close>

text \<open>Two hosts that run the same code; only the memory they get may differ.\<close>

definition same_code :: "host \<Rightarrow> host \<Rightarrow> bool" where
  "same_code P Q \<longleftrightarrow> h_bo P = h_bo Q \<and> h_cipher P = h_cipher Q \<and> h_bignum P = h_bignum Q \<and> h_sha1 P = h_sha1 Q \<and>
     length (h_beyond P) = 2 \<and> length (h_beyond Q) = 2"

text \<open>What is relied on of SHA-1, AES and the big numbers.\<close>

definition libraries_ok :: "host \<Rightarrow> bool" where
  "libraries_ok P \<longleftrightarrow> hash_ok (h_sha1 P) \<and> h_outputLen (h_sha1 P) = 20 \<and> h_blockSize (h_sha1 P) = 64 \<and>
     cipher_ok (h_cipher P) \<and> bignum_ok (h_bignum P)"

lemma DatagramCrypt_makes:
  assumes "hash_ok h" and "h_outputLen h = 20" and "h_blockSize h = 64"
    and "length e = 32" and "length i = 6" and "length m = 20" and "length beyond = 2"
  shows "\<exists>d. DatagramCrypt h garbage beyond e i m = Inr d \<and> crypt_ok d \<and> a_key (dc_aes d) = e \<and> a_secretIV (dc_aes d) = i \<and>
    Hmac h m = Inr (dc_hmac d)"
proof -
  have "m \<noteq> []" using assms(6) by auto
  then obtain hm where hm: "Hmac h m = Inr hm" "hm_hash hm = h"
    using assms(3,6) by (simp add: Hmac_def Let_def)
  then show ?thesis
    using assms by (simp add: DatagramCrypt_def AesCounter_def DREL_AESCOUNTER_SECRETIVLEN_def DREL_AES_KEYLEN_def
        crypt_ok_def counter_ok_def)
qed

lemma crypto_agrees:
  assumes "same_code C P" and "libraries_ok P" and "20 \<le> length K"
    and "m_sessionK s = K" and "m_enc s = None" and "m_dec s = None"
  shows "\<exists>senc sdec cenc cdec. initCrypto P s = ret (s\<lparr>m_enc := Some senc, m_dec := Some sdec\<rparr>) \<and>
    client_crypto C K = ret (cenc, cdec) \<and> crypt_ok senc \<and> crypt_ok sdec \<and> crypt_ok cenc \<and> crypt_ok cdec \<and>
    same_keys cenc sdec \<and> same_keys senc cdec"
proof -
  let ?h = "h_sha1 P"
  have h: "hash_ok ?h" "h_outputLen ?h = 20" "h_blockSize ?h = 64" "h_sha1 C = ?h"
    "length (h_beyond C) = 2" "length (h_beyond P) = 2"
    using assms(1,2) by (auto simp: same_code_def libraries_ok_def)
  have len: "length (derived ?h K name n) = n" for name n using length_derived [OF h(1)] h(2) by simp
  have kd: "HashKeyDerivator ?h K SH_AES256_KEYLEN SH_IVLEN SH_SHA1_OUTPUTLEN = Some (Inr
      \<lparr>mClientEncryptionKey = derived ?h K ''shell client encryption key'' 32,
       mClientIV = derived ?h K ''shell client encrpytion IV'' 6, mClientMacKey = derived ?h K ''shell client MAC key'' 20,
       mServerEncryptionKey = derived ?h K ''shell server encryption key'' 32,
       mServerIV = derived ?h K ''shell server encrpytion IV'' 6, mServerMacKey = derived ?h K ''shell server MAC key'' 20\<rparr>)"
    using HashKeyDerivator_derives [of ?h K 32 6 20] h assms(3) by (simp add: shell_consts)
  note makes = DatagramCrypt_makes [OF h(1-3) len len len]
  obtain senc where senc: "DatagramCrypt ?h (h_garbage P) (h_beyond P) (derived ?h K ''shell server encryption key'' 32)
      (derived ?h K ''shell server encrpytion IV'' 6) (derived ?h K ''shell server MAC key'' 20) = Inr senc"
    "crypt_ok senc" "a_key (dc_aes senc) = derived ?h K ''shell server encryption key'' 32"
    "a_secretIV (dc_aes senc) = derived ?h K ''shell server encrpytion IV'' 6"
    "Hmac ?h (derived ?h K ''shell server MAC key'' 20) = Inr (dc_hmac senc)"
    using makes [OF h(6)] by blast
  obtain cdec where cdec: "DatagramCrypt ?h (h_garbage C) (h_beyond C) (derived ?h K ''shell server encryption key'' 32)
      (derived ?h K ''shell server encrpytion IV'' 6) (derived ?h K ''shell server MAC key'' 20) = Inr cdec"
    "crypt_ok cdec" "a_key (dc_aes cdec) = derived ?h K ''shell server encryption key'' 32"
    "a_secretIV (dc_aes cdec) = derived ?h K ''shell server encrpytion IV'' 6"
    "Hmac ?h (derived ?h K ''shell server MAC key'' 20) = Inr (dc_hmac cdec)"
    using makes [OF h(5)] by blast
  obtain sdec where sdec: "DatagramCrypt ?h (h_garbage P) (h_beyond P) (derived ?h K ''shell client encryption key'' 32)
      (derived ?h K ''shell client encrpytion IV'' 6) (derived ?h K ''shell client MAC key'' 20) = Inr sdec"
    "crypt_ok sdec" "a_key (dc_aes sdec) = derived ?h K ''shell client encryption key'' 32"
    "a_secretIV (dc_aes sdec) = derived ?h K ''shell client encrpytion IV'' 6"
    "Hmac ?h (derived ?h K ''shell client MAC key'' 20) = Inr (dc_hmac sdec)"
    using makes [OF h(6)] by blast
  obtain cenc where cenc: "DatagramCrypt ?h (h_garbage C) (h_beyond C) (derived ?h K ''shell client encryption key'' 32)
      (derived ?h K ''shell client encrpytion IV'' 6) (derived ?h K ''shell client MAC key'' 20) = Inr cenc"
    "crypt_ok cenc" "a_key (dc_aes cenc) = derived ?h K ''shell client encryption key'' 32"
    "a_secretIV (dc_aes cenc) = derived ?h K ''shell client encrpytion IV'' 6"
    "Hmac ?h (derived ?h K ''shell client MAC key'' 20) = Inr (dc_hmac cenc)"
    using makes [OF h(5)] by blast
  have "initCrypto P s = ret (s\<lparr>m_enc := Some senc, m_dec := Some sdec\<rparr>)"
    using assms(4-6) kd senc(1) sdec(1) by (simp add: initCrypto_def ret_def)
  moreover have "client_crypto C K = ret (cenc, cdec)"
    using kd h(4) cenc(1) cdec(1) by (simp add: client_crypto_def ret_def)
  moreover have "same_keys cenc sdec" "same_keys senc cdec"
    using senc(3-5) cdec(3-5) sdec(3-5) cenc(3-5) by (simp_all add: same_keys_def)
  ultimately show ?thesis using senc(2) cdec(2) sdec(2) cenc(2) by blast
qed

section \<open>Commands\<close>

lemma buffer_len: "getOverheadLen + SH_MAX_MSGLEN = 60020"
  by (simp add: getOverheadLen_def DSRP_ENCPARAM_TRUNCDIGEST_SIZE_def SH_MAX_MSGLEN_def)

text \<open>A datagram that fits the buffers arrives.\<close>

lemma sealed_arrives:
  assumes "cipher_ok E" and "crypt_ok de" and "data \<noteq> []" and "length data \<le> 60008" and "seq \<noteq> 0xFFFFFFFFFFFFFFFF"
  shows "\<exists>out n de'. encryptAndAuthenticate bo E data seq (resize (getOverheadLen + SH_MAX_MSGLEN) 0 []) de = Inr ((out, n), de') \<and>
    same_keys de' de \<and> crypt_ok de' \<and> resize n 0 out \<noteq> [] \<and>
    (\<forall>dd. crypt_ok dd \<and> same_keys dd de \<longrightarrow> (\<exists>plain m dd'.
      decryptAndVerifyMac bo E (resize n 0 out) (resize (getOverheadLen + SH_MAX_MSGLEN) 0 []) seq dd = Inr ((plain, m), dd') \<and>
      resize m 0 plain = data \<and> same_keys dd' dd \<and> crypt_ok dd'))"
proof -
  let ?buf = "resize (getOverheadLen + SH_MAX_MSGLEN) 0 [] :: bytes"
  let ?c = "sealed bo E de seq data"
  let ?t = "tag de seq ?c"
  have len: "length ?c = length data" "length ?t = 12" using length_sealed [OF assms(1,2)] length_tag [OF assms(2)] by simp_all
  have fits: "length data \<le> 65534" "length data + 12 \<le> length ?buf" using assms(4) by (simp_all add: buffer_len)
  obtain de' where e: "encryptAndAuthenticate bo E data seq ?buf de =
      Inr ((?c @ ?t @ drop (length data + 12) ?buf, length data + 12), de')" "same_keys de' de" "crypt_ok de'"
    using encrypt_seals [OF assms(1-3) fits(1) assms(5) fits(2), of bo] by auto
  have msg: "resize (length data + 12) 0 (?c @ ?t @ drop (length data + 12) ?buf) = ?c @ ?t"
    using len by (simp add: resize_cut)
  have c: "?c \<noteq> []" "length ?c + 8 \<le> length ?buf" "length ?c \<le> 65534" using len assms(3,4) by (auto simp: buffer_len)
  have d: "\<exists>plain m dd'. decryptAndVerifyMac bo E (?c @ ?t) ?buf seq dd = Inr ((plain, m), dd') \<and>
      resize m 0 plain = data \<and> same_keys dd' dd \<and> crypt_ok dd'" if dd: "crypt_ok dd" "same_keys dd de" for dd
  proof -
    have "tag dd seq ?c = ?t" using dd(2) by (simp add: tag_def same_keys_def)
    then obtain dd' rest where "decryptAndVerifyMac bo E (?c @ ?t) ?buf seq dd = Inr ((sealed bo E dd seq ?c @ rest, length ?c), dd')"
      "same_keys dd' dd" "crypt_ok dd'"
      using decrypt_opens [OF assms(1) dd(1) len(2) c(1,2), of seq bo] c(3) assms(5) by auto
    moreover have "sealed bo E dd seq ?c = data" by (rule sealed_twice [OF assms(1,2) dd(2)])
    ultimately show ?thesis using len(1) by (auto simp: resize_cut)
  qed
  show ?thesis
    using e d unfolding msg [symmetric] by (intro exI [of _ "?c @ ?t @ drop (length data + 12) ?buf"] exI [of _ "length data + 12"] exI [of _ de'])
      (use c(1) in \<open>simp add: msg\<close>)
qed

text \<open>
  The client's crypto objects \<open>c\<close> fit the server's session \<open>s\<close>, whose own are made with its first command.
\<close>

definition linked :: "host \<Rightarrow> datagram_crypt \<times> datagram_crypt \<Rightarrow> shell_session \<Rightarrow> bool" where
  "linked P c s \<longleftrightarrow> m_state s = SH_SRV_STATE_BETA \<and> (\<exists>s1 senc sdec. initCrypto P s = ret s1 \<and>
     m_state s1 = SH_SRV_STATE_BETA \<and> m_enc s1 = Some senc \<and> m_dec s1 = Some sdec \<and>
     crypt_ok senc \<and> crypt_ok sdec \<and> crypt_ok (fst c) \<and> crypt_ok (snd c) \<and> same_keys (fst c) sdec \<and> same_keys senc (snd c))"

lemma same_keys_sym: "same_keys a b \<Longrightarrow> same_keys b a"
  by (simp add: same_keys_def)

lemma same_keys_trans: "same_keys a b \<Longrightarrow> same_keys b c \<Longrightarrow> same_keys a c"
  by (simp add: same_keys_def)

lemma linked_after:
  assumes "m_state s = SH_SRV_STATE_BETA" and "m_enc s = Some senc" and "m_dec s = Some sdec"
    and "crypt_ok senc" "crypt_ok sdec" "crypt_ok cenc" "crypt_ok cdec" "same_keys cenc sdec" "same_keys senc cdec"
  shows "linked P (cenc, cdec) s"
  using assms by (simp add: linked_def initCrypto_def)

text \<open>The server's part of a command, from the datagram to its reply.\<close>

lemma server_command:
  assumes "cipher_ok (h_cipher P)" and init: "initCrypto P s = ret s1" "m_enc s1 = Some senc" "m_dec s1 = Some sdec"
    and "m_state s = SH_SRV_STATE_BETA" and "msg \<noteq> []"
    and dec: "decryptAndVerifyMac (h_bo P) (h_cipher P) msg (resize (getOverheadLen + SH_MAX_MSGLEN) 0 []) seq sdec = Inr ((plain, m), sdec')"
    and app: "processApplicationDatagram getParameter (resize m 0 plain) w = ret ((True, reply), w')" "reply \<noteq> []"
    and enc: "encryptAndAuthenticate (h_bo P) (h_cipher P) reply seq (resize (getOverheadLen + SH_MAX_MSGLEN) 0 []) senc = Inr ((out, n), senc')"
  shows "processDatagram P db getParameter rnd seq ([0x45, 0x43] @ msg) [] s w =
    ret ((True, [0x45, 0x52, 0] @ resize n 0 out, s1\<lparr>m_dec := Some sdec', m_enc := Some senc'\<rparr>), w')"
proof -
  have "processEncrpytedDatagram P getParameter seq msg s1 w =
      ret (Inr (True, resize n 0 out, s1\<lparr>m_dec := Some sdec', m_enc := Some senc'\<rparr>), w')"
    using init dec app enc \<open>msg \<noteq> []\<close> by (simp add: processEncrpytedDatagram_def Let_def)
  then show ?thesis
    using assms(5) init(1) parse_C [of msg "[]"] construct_R [of "resize n 0 out" 0 "[]"]
    by (simp add: processDatagram_def state_beta_def Let_def state_defs)
qed

section \<open>A client and its session\<close>

text \<open>
  The session as the handler of a \<^verbatim>\<open>StopWaitRx\<close>: its state is the session with the connector;
  \<open>rnd n\<close> is what the generator does if it is asked for datagram \<open>n\<close>. A session that faults is as
  gone as one that refuses.
\<close>

definition session_handler ::
  "host \<Rightarrow> lookup \<Rightarrow> 'w get_parameter \<Rightarrow> (u64 \<Rightarrow> bytes run) \<Rightarrow> (shell_session \<times> 'w) handler" where
  "session_handler P db getParameter rnd sequenceNumber request = (\<lambda>(s, w).
     case processDatagram P db getParameter (rnd sequenceNumber) sequenceNumber request [] s w of
       Some (Inr ((ok, response, s'), w')) \<Rightarrow> ((ok, response), (s', w'))
     | _ \<Rightarrow> ((False, []), (s, w)))"

text \<open>
  The answers to commands, as the session's \<^verbatim>\<open>processApplicationDatagram\<close> gives them; an answer of
  more than 60008 bytes does not fit the buffers.
\<close>

fun answers_to :: "'w get_parameter \<Rightarrow> string list \<Rightarrow> 'w \<Rightarrow> (bytes list \<times> 'w) option" where
  "answers_to getParameter [] w = Some ([], w)"
| "answers_to getParameter (command # commands) w =
     (case processApplicationDatagram getParameter (string2bytes command) w of
        Some (Inr ((True, reply), w')) \<Rightarrow>
          if 60008 < length reply then None
          else map_option (\<lambda>(replies, w''). (reply # replies, w'')) (answers_to getParameter commands w')
      | _ \<Rightarrow> None)"

lemma answers_to_Cons:
  assumes "answers_to getParameter (command # commands) w = Some (all, w'')"
  shows "\<exists>reply w' replies. processApplicationDatagram getParameter (string2bytes command) w = ret ((True, reply), w') \<and>
    length reply \<le> 60008 \<and> answers_to getParameter commands w' = Some (replies, w'') \<and> all = reply # replies"
  using assms by (auto simp: ret_def not_less split: option.splits sum.splits bool.splits if_splits)

lemma reply_not_empty:
  assumes "processApplicationDatagram getParameter request w = ret ((ok, reply), w')"
  shows "reply \<noteq> []"
proof -
  have "string2bytes (if length r = 0 then ''Unknown command'' else r) \<noteq> []" for r
    by (auto simp: string2bytes_def)
  then show ?thesis
    using assms by (auto simp: processApplicationDatagram_def Let_def io_bind_eq_ret simp del: length_0_conv)
qed

text \<open>A line of the terminal that is a command.\<close>

definition command_line :: "string \<Rightarrow> bool" where
  "command_line l \<longleftrightarrow> l \<noteq> [] \<and> l \<noteq> ''exit'' \<and> length l < SH_TERMINAL_MAXLINLEN \<and> CHR 0x00 \<notin> set l"

lemma command_line_read:
  "command_line l \<Longrightarrow> takeWhile (\<lambda>ch. ch \<noteq> CHR 0x00) (take (SH_TERMINAL_MAXLINLEN - 1) l) = l"
  "command_line l \<Longrightarrow> takeWhile (\<lambda>ch. ch \<noteq> CHR 0x00) l = l"
  by (auto simp: command_line_def SH_TERMINAL_MAXLINLEN_def takeWhile_eq_all_conv)

text \<open>A transport whose other side is a session.\<close>

locale session_calls = reliable_calls call next_number ready "session_handler P db getParameter rnd"
  for call :: "'x transport" and next_number :: "'x \<Rightarrow> u64" and ready :: "nat \<Rightarrow> 'x \<Rightarrow> shell_session \<times> 'w \<Rightarrow> bool"
    and P :: host and db :: lookup and getParameter :: "'w get_parameter" and rnd :: "u64 \<Rightarrow> bytes run"
begin

lemma call_handler:
  assumes "ready (Suc k) x (s, w)"
    and "processDatagram P db getParameter (rnd (next_number x)) (next_number x) request [] s w = ret ((True, response, s'), w')"
  shows "\<exists>x'. call request x = ret ((True, response), x') \<and> ready k x' (s', w')"
proof (rule serves [OF assms(1)])
  show "session_handler P db getParameter rnd (next_number x) request (s, w) = ((True, response), (s', w'))"
    using assms(2) by (simp add: session_handler_def ret_def)
qed

text \<open>One command.\<close>

lemma command_answered:
  assumes code: "same_code C P" "cipher_ok (h_cipher P)"
    and "ready (Suc k) x (s, w)" and linked: "linked P c s" and "request \<noteq> []" and "length request \<le> 60000"
    and app: "processApplicationDatagram getParameter request w = ret ((True, reply), w')" "length reply \<le> 60008"
  shows "\<exists>c' x' s'. getShellServerResponse C call next_number request c x = ret ((0, reply, c'), x') \<and>
    ready k x' (s', w') \<and> linked P c' s'"
proof -
  let ?n = "next_number x" and ?buf = "resize (getOverheadLen + SH_MAX_MSGLEN) 0 [] :: bytes"
  obtain cenc cdec where c: "c = (cenc, cdec)" by (cases c)
  obtain s1 senc sdec where s1: "m_state s = SH_SRV_STATE_BETA" "initCrypto P s = ret s1" "m_state s1 = SH_SRV_STATE_BETA"
    "m_enc s1 = Some senc" "m_dec s1 = Some sdec"
    and ok: "crypt_ok senc" "crypt_ok sdec" "crypt_ok cenc" "crypt_ok cdec"
    and keys: "same_keys cenc sdec" "same_keys senc cdec"
    using linked by (auto simp: linked_def c)
  have n: "?n \<noteq> 0xFFFFFFFFFFFFFFFF" by (rule number [OF assms(3)])
  have cc: "h_bo C = h_bo P" "h_cipher C = h_cipher P" using code(1) by (simp_all add: same_code_def)
  have "length request \<le> 60008" using assms(6) by simp
  from sealed_arrives [OF code(2) ok(3) assms(5) this n, of "h_bo P"]
  obtain out n1 cenc' plain m sdec' where e1: "encryptAndAuthenticate (h_bo P) (h_cipher P) request ?n ?buf cenc = Inr ((out, n1), cenc')"
    "same_keys cenc' cenc" "crypt_ok cenc'" "resize n1 0 out \<noteq> []"
    and d1: "decryptAndVerifyMac (h_bo P) (h_cipher P) (resize n1 0 out) ?buf ?n sdec = Inr ((plain, m), sdec')"
    "resize m 0 plain = request" "same_keys sdec' sdec" "crypt_ok sdec'"
    using ok(2) same_keys_sym [OF keys(1)] by blast
  have "reply \<noteq> []" by (rule reply_not_empty [OF app(1)])
  from sealed_arrives [OF code(2) ok(1) this app(2) n, of "h_bo P"]
  obtain out2 n2 senc' plain2 m2 cdec' where e2: "encryptAndAuthenticate (h_bo P) (h_cipher P) reply ?n ?buf senc = Inr ((out2, n2), senc')"
    "same_keys senc' senc" "crypt_ok senc'"
    and d2: "decryptAndVerifyMac (h_bo P) (h_cipher P) (resize n2 0 out2) ?buf ?n cdec = Inr ((plain2, m2), cdec')"
    "resize m2 0 plain2 = reply" "same_keys cdec' cdec" "crypt_ok cdec'"
    using ok(4) same_keys_sym [OF keys(2)] by blast
  let ?s = "s1\<lparr>m_dec := Some sdec', m_enc := Some senc'\<rparr>"
  have "processDatagram P db getParameter (rnd ?n) ?n ([0x45, 0x43] @ resize n1 0 out) [] s w =
      ret ((True, [0x45, 0x52, 0] @ resize n2 0 out2, ?s), w')"
    by (rule server_command [OF code(2) s1(2,4,5,1) e1(4) d1(1) app(1) [folded d1(2)] \<open>reply \<noteq> []\<close> e2(1)])
  from call_handler [OF assms(3) this]
  obtain x' where x': "call ([0x45, 0x43] @ resize n1 0 out) x = ret ((True, [0x45, 0x52, 0] @ resize n2 0 out2), x')"
    "ready k x' (?s, w')" by blast
  have "getShellServerResponse C call next_number request c x = ret ((0, reply, cenc', cdec'), x')"
    using assms(6) cc e1(1) x'(1) d2(1,2) construct_C [of "resize n1 0 out" "[]"] parse_R [of 0 "resize n2 0 out2" "[]" 0]
    by (simp add: getShellServerResponse_def c SH_MAX_MSGLEN_def Let_def)
  moreover have "linked P (cenc', cdec') ?s"
    using s1(3) ok e1(2,3) d1(3,4) e2(2,3) d2(3,4) keys
    by (intro linked_after [where senc = senc' and sdec = sdec']) (simp_all add: same_keys_def)
  ultimately show ?thesis using x'(2) by blast
qed

text \<open>The terminal: commands, then \<^verbatim>\<open>exit\<close>.\<close>

lemma terminal_answers:
  assumes code: "same_code C P" "cipher_ok (h_cipher P)"
  shows "ready (length commands + k) x (s, w) \<Longrightarrow> linked P c s \<Longrightarrow> \<forall>l \<in> set commands. command_line l \<Longrightarrow>
    answers_to getParameter commands w = Some (replies, w') \<Longrightarrow>
    \<exists>x' s'. terminal_loop C call next_number (commands @ [''exit'']) c x = ret ((0, replies), x') \<and> ready k x' (s', w')"
proof (induction commands arbitrary: x s w c replies)
  case Nil
  then show ?case by (auto simp: SH_TERMINAL_MAXLINLEN_def)
next
  case (Cons l commands)
  obtain reply w1 more where a: "processApplicationDatagram getParameter (string2bytes l) w = ret ((True, reply), w1)"
    "length reply \<le> 60008" "answers_to getParameter commands w1 = Some (more, w')" "replies = reply # more"
    using answers_to_Cons [OF Cons.prems(4)] by blast
  have l: "command_line l" using Cons.prems(3) by simp
  then have "string2bytes l \<noteq> []" "length (string2bytes l) \<le> 60000"
    by (auto simp: command_line_def string2bytes_def SH_TERMINAL_MAXLINLEN_def)
  from command_answered [OF code _ Cons.prems(2) this a(1,2), of "length commands + k" x] Cons.prems(1)
  obtain c1 x1 s1 where r: "getShellServerResponse C call next_number (string2bytes l) c x = ret ((0, reply, c1), x1)"
    "ready (length commands + k) x1 (s1, w1)" "linked P c1 s1" by auto
  obtain x' s' where t: "terminal_loop C call next_number (commands @ [''exit'']) c1 x1 = ret ((0, more), x')"
    "ready k x' (s', w')"
    using Cons.IH [OF r(2,3) _ a(3)] Cons.prems(3) by auto
  have "l \<noteq> []" "l \<noteq> ''exit''" "length l < SH_TERMINAL_MAXLINLEN" using l by (simp_all add: command_line_def)
  then have "terminal_loop C call next_number ((l # commands) @ [''exit'']) c x = ret ((0, replies), x')"
    using r(1) t(1) a(4) by (simp add: command_line_read(2) [OF l] Let_def)
  then show ?case using t(2) by blast
qed

text \<open>Logging in, up to a session that is linked to the client's keys.\<close>

lemma login_links:
  assumes code: "same_code C P" "libraries_ok P"
    and "ready (Suc (Suc k)) x (s, w)" and "m_state s = SH_SRV_STATE_ZERO" and math: "m_math s = math" "sm_hash math = h_sha1 P"
    and m: "checkNg math = Inr ()" "sm_N math > 0"
    and user: "db (string2bytes name) = Some u0" "length name \<le> 32" "CHR 0x00 \<notin> set name"
    and ver: "calculateVerificator (h_bignum P) math (string2bytes name) (string2bytes password) (usr_salt u0) = Inr (usr_verificator u0)"
      "usr_verificator u0 \<noteq> []" "16 \<le> length (usr_salt u0)" "length (usr_salt u0) \<le> 64"
    and rnd: "rnd (next_number x) = Inr b" "a \<noteq> []" "b \<noteq> []"
    and sca: "getAuthenticator (h_bignum P) math (Inr a) (string2bytes name) (string2bytes password) = Inr sca"
      "64 \<le> length (sca_A sca)" "length (sca_A sca) \<le> 1024"
    and ex: "exchange_ok (h_bignum P) math True u0 (string2bytes name) (string2bytes password) a b (sca_A sca)"
    and B: "64 \<le> length (public_B (h_bignum P) math (usr_verificator u0) b)"
      "length (public_B (h_bignum P) math (usr_verificator u0) b) \<le> 1024"
  shows "\<exists>K c x' s'. client_login C math call (Inr a) name password x = ret (Inr K, x') \<and> client_crypto C K = ret c \<and>
    ready k x' (s', w) \<and> linked P c s'"
proof -
  let ?L = "h_bignum P" and ?u = "string2bytes name" and ?A = "sca_A sca"
  have lib: "bignum_ok ?L" "hash_ok (sm_hash math)" "h_outputLen (sm_hash math) \<noteq> 0" "unat (h_outputLen (sm_hash math)) = 20"
    "h_bignum C = ?L"
    using code math(2) by (simp_all add: libraries_ok_def same_code_def)
  obtain v M1 M2 K where v: "getVerificator ?L math True db (Inr b) ?u ?A = Inr v" "ver_salt v = usr_salt u0"
    "ver_B v = public_B ?L math (usr_verificator u0) b" "calc_M1 v = M1" "calc_M2 v = M2" "ver_K v = K"
    "getM1 ?L math True (ver_salt v) (ver_B v) sca = Inr (M1, sca\<lparr>M2_calculated := M2, sca_K := K\<rparr>)"
    and len: "length M1 = 20" "length M2 = 20" "20 \<le> length K"
    using srp_exchange [of ?L math db ?u u0 "string2bytes password" a b sca True] lib m user(1) ver rnd sca ex by auto
  have name: "name \<noteq> []" "0 \<notin> set ?u"
  proof -
    show "name \<noteq> []" using ver(1) by (auto simp: calculateVerificator_def)
    have "char_of_byte 0 = CHR 0x00" by (simp add: char_of_byte_def char_of_def)
    then have "byte_of_char c = 0 \<Longrightarrow> c = CHR 0x00" for c by (metis char_of_byte_of_char)
    then show "0 \<notin> set ?u" using user(3) by (auto simp: string2bytes_def)
  qed
  have cA: "enc_construct_A_message name ?A out = (0, [0x45, 0x41] @ ?u @ [0] @ ?A)" for out
    using name(1) user(2) sca(2,3) by (intro construct_A) (simp_all add: Suc_le_eq)
  have salt: "16 \<le> length (ver_salt v)" "length (ver_salt v) \<le> 64" "64 \<le> length (ver_B v)" "length (ver_B v) \<le> 1024"
    using v(2,3) ver(3,4) B by simp_all
  let ?P = "[0x45, 0x50, 0, word_of_nat (length (ver_salt v))] @ ver_salt v @ ver_B v"
  have "64 \<le> length ?u + length ?A" using sca(2) by simp
  from server_A [OF assms(4) name(2) this _ salt, of P db "Inr b" getParameter "next_number x" w] v(1) math(1)
  obtain s1 where s1: "processDatagram P db getParameter (Inr b) (next_number x) ([0x45, 0x41] @ ?u @ [0] @ ?A) [] s w = ret ((True, ?P, s1), w)"
    "m_state s1 = SH_SRV_STATE_ALPHA" "m_ver s1 = v" "m_enc s1 = None" "m_dec s1 = None" by auto
  obtain x1 where x1: "call ([0x45, 0x41] @ ?u @ [0] @ ?A) x = ret ((True, ?P), x1)" "ready (Suc k) x1 (s1, w)"
    using call_handler [OF assms(3), of "[0x45, 0x41] @ ?u @ [0] @ ?A" ?P s1 w] s1(1) rnd(1) by auto
  let ?s2 = "s1\<lparr>m_sessionK := K, m_state := SH_SRV_STATE_BETA\<rparr>"
  have "processDatagram P db getParameter (rnd (next_number x1)) (next_number x1) ([0x45, 0x42] @ M1) [] s1 w =
      ret ((True, [0x45, 0x51, 0] @ M2, ?s2), w)"
    using server_B [OF s1(2), of P db getParameter "rnd (next_number x1)" "next_number x1" w] v(4-6) len s1(3) by simp
  from call_handler [OF x1(2) this]
  obtain x2 where x2: "call ([0x45, 0x42] @ M1) x1 = ret ((True, [0x45, 0x51, 0] @ M2), x2)" "ready k x2 (?s2, w)" by blast
  have pP: "enc_parse_P_message ?P [] [] 0 = (0, ver_salt v, ver_B v, 0)" by (rule parse_P [OF salt])
  have cB: "enc_construct_B_message M1 out = (0, [0x45, 0x42] @ M1)" for out using construct_B [of M1 out] len by simp
  have pQ: "enc_parse_Q_message ([0x45, 0x51, 0] @ M2) [] 0 = (0, M2, 0)" using parse_Q [of M2 "[]" 0] len by simp
  have "M2 \<noteq> []" using len by auto
  then have sk: "getSessionKey M2 (sca\<lparr>M2_calculated := M2, sca_K := K\<rparr>) = Inr K" by (simp add: getSessionKey_def)
  have login: "client_login C math call (Inr a) name password x = ret (Inr K, x2)"
    using sca(1) cA x1(1) pP v(7) cB x2(1) pQ sk lib(5)
    by (simp add: client_login_def SH_ERRORCODE_USERNOTFOUND_def SH_ERRORCODE_AUTHENTICATIONFAILED_def)
  obtain senc sdec cenc cdec where k: "initCrypto P ?s2 = ret (?s2\<lparr>m_enc := Some senc, m_dec := Some sdec\<rparr>)"
    "client_crypto C K = ret (cenc, cdec)" "crypt_ok senc" "crypt_ok sdec" "crypt_ok cenc" "crypt_ok cdec"
    "same_keys cenc sdec" "same_keys senc cdec"
    using crypto_agrees [OF code len(3), of ?s2] s1(4,5) by auto
  have "linked P (cenc, cdec) ?s2" unfolding linked_def using k by auto
  then show ?thesis using login k(2) x2(2) by blast
qed

end

text \<open>The network of the theory \<open>Arq\<close> carries the calls.\<close>

definition shell_network ::
  "(shell_session \<times> 'w) hosts \<Rightarrow> host \<Rightarrow> lookup \<Rightarrow> 'w get_parameter \<Rightarrow> (u64 \<Rightarrow> bytes run) \<Rightarrow> (shell_session \<times> 'w) hosts" where
  "shell_network N P db getParameter rnd = N\<lparr>hdl := session_handler P db getParameter rnd\<rparr>"

interpretation shell: session_calls "network_call (shell_network N P db getParameter rnd)" "\<lambda>(swt, w). getNextSequenceNumber swt"
  "network_ready (shell_network N P db getParameter rnd)" P db getParameter rnd for N P db getParameter rnd
  using net.reliable_calls_axioms [of "shell_network N P db getParameter rnd"]
  by (simp add: session_calls_def shell_network_def)

section \<open>Properties\<close>

text \<open>
  C2. A shell session over a network that loses, repeats, delays and reorders capsules. Let the
  server's host and the client's run the same code; let the user be registered with a verificator of
  the password; let no value of the SRP exchange degenerate; and let one of any as many rounds of the
  network as the client makes tries be good. Then the client logs in, and prints for each line of the
  terminal what the session's node answers to it, in order; each command has been carried out
  exactly once.
\<close>

lemma shell_over_lossy_network:
  fixes N :: "(shell_session \<times> 'w) hosts"
  assumes code: "same_code C P" "libraries_ok P"
    and s: "new_session math s" "sm_hash math = h_sha1 P" "checkNg math = Inr ()" "sm_N math > 0"
    and user: "db (string2bytes name) = Some u0" "length name \<le> 32" "CHR 0x00 \<notin> set name"
      "calculateVerificator (h_bignum P) math (string2bytes name) (string2bytes password) (usr_salt u0) = Inr (usr_verificator u0)"
      "usr_verificator u0 \<noteq> []" "16 \<le> length (usr_salt u0)" "length (usr_salt u0) \<le> 64"
    and random: "rnd 1 = Inr b" "a \<noteq> []" "b \<noteq> []"
    and A: "getAuthenticator (h_bignum P) math (Inr a) (string2bytes name) (string2bytes password) = Inr sca"
      "64 \<le> length (sca_A sca)" "length (sca_A sca) \<le> 1024"
    and B: "64 \<le> length (public_B (h_bignum P) math (usr_verificator u0) b)"
      "length (public_B (h_bignum P) math (usr_verificator u0) b) \<le> 1024"
    and ex: "exchange_ok (h_bignum P) math True u0 (string2bytes name) (string2bytes password) a b (sca_A sca)"
    and commands: "\<forall>l \<in> set commands. command_line l"
      "answers_to getParameter (''hostname'' # commands) w = Some (shown # replies, w')"
    and network: "wf_hosts N" "fair (max_tries N) rounds" "(length commands + 3) * max_tries N \<le> length rounds"
      "length commands + 3 < 2 ^ 64 - 1"
  shows "let net = shell_network N P db getParameter rnd in \<exists>swt net' s'. client_run C math (network_call net) (\<lambda>(swt, _). getNextSequenceNumber swt) (Inr a) name password
      (commands @ [''exit'']) (start_client net, start_net net (s, w) rounds) = ret ((0, replies), (swt, net')) \<and> app net' = (s', w')"
proof -
  define net where "net = shell_network N P db getParameter rnd"
  let ?x = "(start_client net, start_net net (s, w) rounds)" and ?next = "\<lambda>(swt, _). getNextSequenceNumber swt"
  have shape: "start_client net = start_client N" "max_tries net = max_tries N" "wf_hosts net"
    using network(1) by (simp_all add: net_def shell_network_def start_client_def wf_hosts_def)
  have "network_ready net (length commands + 3) ?x (s, w)"
    using network(2-4) shape by (intro network_ready_start) simp_all
  then have ready: "network_ready net (Suc (Suc (Suc (length commands)))) ?x (s, w)" by (simp add: numeral_3_eq_3)
  have one: "rnd (case ?x of (swt, _) \<Rightarrow> getNextSequenceNumber swt) = Inr b"
    using random(1) by (simp add: getNextSequenceNumber_def start_client_def StopWaitTx_def)
  have st: "m_state s = SH_SRV_STATE_ZERO" "m_math s = math" using s(1) by (simp_all add: new_session_def)
  from shell.login_links [OF code ready [unfolded net_def] st s(2-4) user(1-3) user(4-7) one [unfolded net_def] random(2,3) A ex B]
  obtain K c x1 s1 where login: "client_login C math (network_call net) (Inr a) name password ?x = ret (Inr K, x1)"
    "client_crypto C K = ret c" "network_ready net (Suc (length commands)) x1 (s1, w)" "linked P c s1"
    unfolding net_def by blast
  obtain w1 where host: "processApplicationDatagram getParameter (string2bytes ''hostname'') w = ret ((True, shown), w1)"
    "length shown \<le> 60008" "answers_to getParameter commands w1 = Some (replies, w')"
    using answers_to_Cons [OF commands(2)] by auto
  have cipher: "cipher_ok (h_cipher P)" using code(2) by (simp add: libraries_ok_def)
  have "string2bytes ''hostname'' \<noteq> []" "length (string2bytes ''hostname'') \<le> 60000" by (simp_all add: string2bytes_def)
  from shell.command_answered [OF code(1) cipher login(3) [unfolded net_def] login(4) this host(1,2)]
  obtain c2 x2 s2 where shown: "getShellServerResponse C (network_call net) ?next (string2bytes ''hostname'') c x1 = ret ((0, shown, c2), x2)"
    "network_ready net (length commands + 0) x2 (s2, w1)" "linked P c2 s2"
    unfolding net_def by auto
  from shell.terminal_answers [OF code(1) cipher shown(2) [unfolded net_def] shown(3) commands(1) host(3)]
  obtain x3 s3 where t: "terminal_loop C (network_call net) ?next (commands @ [''exit'']) c2 x2 = ret ((0, replies), x3)"
    "network_ready net 0 x3 (s3, w')"
    unfolding net_def by blast
  obtain swt net' where x3: "x3 = (swt, net')" by (cases x3)
  have "client_run C math (network_call net) ?next (Inr a) name password (commands @ [''exit'']) ?x = ret ((0, replies), (swt, net'))"
    using login(1,2) shown(1) t(1) x3 by (simp add: client_run_def)
  moreover have "app net' = (s3, w')" using t(2) x3 by (simp add: network_ready_def)
  ultimately show ?thesis unfolding net_def [symmetric] Let_def by blast
qed

text \<open>
  C3. Nothing is done for a client that has not proved its password. After any datagrams, a new
  session holds keys only in the state that follows the log-in; and if it is in this state, or has
  asked the node anything, then a registered user's A message was directly followed by a B message
  with the proof that belongs to the stored verificator.
\<close>

lemma commands_need_proof:
  assumes "new_session math s0" and "session_history P db getParameter s0 w0 h s w"
  shows "session_ok (math) s \<and>
    (m_state s = SH_SRV_STATE_BETA \<or> w \<noteq> w0 \<longrightarrow> (\<exists>u \<in> dom db. logged_in P db (math) h u))"
proof -
  have "history_inv P db (math) w0 h s w"
    using history_inv_reached [OF assms(2) new_session_ok [OF assms(1)]] assms(1) by (simp add: new_session_def)
  then show ?thesis using logged_in_known [of P db "math" h] unfolding history_inv_def by blast
qed

text \<open>
  C34. What a session does not take. A first message that has the header of an A message and its least length but no
  NUL makes the server read past its end. Any other malformed first message is answered as an unknown user,
  not as malformed, if there is no user with an empty name; an unknown user and a wrong proof are refused and the session
  starts again; whatever is not a C message after the log-in ends the session, and with it the server.
\<close>

lemma session_refuses:
  "(m_state s = SH_SRV_STATE_ZERO \<and> 67 \<le> length request \<and> take 2 request = [0x45, 0x41] \<and> 0 \<notin> set (drop 2 request) \<longrightarrow>
     processDatagram P db getParameter rnd seq request response s w = Some (Inl OutOfRange)) \<and>
   (m_state s = SH_SRV_STATE_ZERO \<and> enc_parse_A_message request [] [] = Inr (r, u, A) \<and> db (if r = 0 then u else []) = None \<longrightarrow>
     processDatagram P db getParameter rnd seq request response s w =
       ret ((True, [0x45, 0x50, SH_ERRORCODE_USERNOTFOUND], resetState s), w)) \<and>
   (m_state s = SH_SRV_STATE_ALPHA \<and> fst (enc_parse_B_message request []) \<noteq> 0 \<longrightarrow>
     processDatagram P db getParameter rnd seq request response s w =
       ret ((True, [0x45, 0x51, SH_ERRORCODE_PARSINGFAILED], resetState s), w)) \<and>
   (m_state s = SH_SRV_STATE_ALPHA \<and> enc_parse_B_message request [] = (0, M1) \<and> M1 \<noteq> calc_M1 (m_ver s) \<longrightarrow>
     processDatagram P db getParameter rnd seq request response s w =
       ret ((True, [0x45, 0x51, SH_ERRORCODE_AUTHENTICATIONFAILED], resetState s), w)) \<and>
   (m_state s = SH_SRV_STATE_BETA \<and> fst (enc_parse_C_message request []) \<noteq> 0 \<longrightarrow>
     processDatagram P db getParameter rnd seq request response s w = ret ((False, response, resetState s), w))"
proof (intro conjI impI, goal_cases)
  case 1
  then have "enc_parse_A_message request u a = Inl OutOfRange" for u a using parse_A_past_the_end by blast
  then show ?case using 1 by (simp add: processDatagram_def state_zero_def Let_def)
next
  case 2
  then have "r \<noteq> 0 \<Longrightarrow> u = []" by (auto simp: enc_parse_A_message_def Let_def split: if_splits)
  then have "db u = None" using 2 by (cases "r = 0") auto
  then show ?case
    using 2 by (auto simp: processDatagram_def state_zero_def getVerificator_def getByName_def Let_def construct_P_fail
        resetState_def ret_def split: prod.splits)
next
  case 3
  then show ?case
    by (cases "enc_parse_B_message request []")
      (simp add: processDatagram_def state_alpha_def Let_def construct_Q_fail ret_def state_defs)
next
  case 4
  then have "calc_M1 (m_ver s) \<noteq> M1" by blast
  with 4 show ?case
    by (simp add: processDatagram_def state_alpha_def authenticate_def Let_def construct_Q_fail ret_def state_defs)
next
  case 5
  then show ?case
    by (cases "enc_parse_C_message request []") (simp add: processDatagram_def state_beta_def state_defs)
qed

text \<open>
  C35. A datagram that is too long. After the log-in, a C message with more than 60024 bytes is
  copied past the end of the session's buffer, before its digest is looked at.
\<close>

lemma oversized_datagram_overflows:
  assumes "m_state s = SH_SRV_STATE_BETA" and "initCrypto P s = ret s1" and "m_dec s1 \<noteq> None" and "60024 < length message"
  shows "processDatagram P db getParameter rnd seq ([0x45, 0x43] @ message) response s w = Some (Inl OutOfRange)"
proof -
  obtain dec where dec: "m_dec s1 = Some dec" using assms(3) by blast
  have "message \<noteq> []" "\<not> length message \<le> 12" "60020 < length message - 12 + 8" using assms(4) by auto
  then have "processEncrpytedDatagram P getParameter seq message s1 w = ret (Inl OutOfRange, w)"
    using dec by (simp add: processEncrpytedDatagram_def decryptAndVerifyMac_def DSRP_ENCPARAM_TRUNCDIGEST_SIZE_def Let_def
        buffer_len [unfolded getOverheadLen_def DSRP_ENCPARAM_TRUNCDIGEST_SIZE_def] getOverheadLen_def SH_MAX_MSGLEN_def)
  then show ?thesis
    using assms(1,2) parse_C [of message "[]"] by (simp add: processDatagram_def state_beta_def state_defs)
qed

section \<open>A sample session\<close>

text \<open>
  A group of 64 bytes in which 2 generates the powers of two; a hash that is always 1, so that all
  exponents are small; and a node that repeats the question and counts.
\<close>

definition sample_host :: host where
  "sample_host = \<lparr>h_bo = SAN_LITTLE_ENDIAN, h_cipher = aes256 SAN_LITTLE_ENDIAN, h_bignum = sample_bignum,
     h_sha1 = \<lparr>h_hash = (\<lambda>b. replicate 19 0 @ [1]), h_outputLen = 20, h_blockSize = 64\<rparr>,
     h_garbage = replicate 16 7, h_beyond = [7, 7]\<rparr>"

definition sample_group :: srp_math where
  "sample_group = \<lparr>sm_hash = h_sha1 sample_host, sm_N = 2 ^ 512 - 1, sm_g = 2, sm_k = 1\<rparr>"

definition sample_session :: shell_session where
  "sample_session = \<lparr>m_state = SH_SRV_STATE_ZERO, m_srpUsername = [], m_srpA = [], m_sessionK = [], m_math = sample_group,
     m_ver = \<lparr>ver_salt = [], ver_B = [], calc_M1 = [], calc_M2 = [], ver_username = [], ver_K = []\<rparr>,
     m_enc = None, m_dec = None\<rparr>"

definition sample_shell_user :: user where
  "sample_shell_user = \<lparr>usr_username = string2bytes ''san'', usr_verificator = [2], usr_salt = replicate 16 5\<rparr>"

definition sample_users :: lookup where
  "sample_users = [string2bytes ''san'' \<mapsto> sample_shell_user]"

definition sample_parameter :: "nat get_parameter" where
  "sample_parameter param result w = ret ((0, param), w + 1)"

definition sample_a :: bytes where "sample_a = [1, 254]"
definition sample_b :: bytes where "sample_b = [1, 248]"

lemma sample_code: "same_code sample_host sample_host" "libraries_ok sample_host" "new_session sample_group sample_session"
  by (simp_all add: same_code_def libraries_ok_def sample_host_def hash_ok_def aes256_ok sample_bignum_ok
      new_session_def sample_session_def)

lemma number_bytes_step: "r < 256 \<Longrightarrow> 0 < 256 * n + r \<Longrightarrow> number_bytes (256 * n + r) = number_bytes n @ [word_of_nat r]"
  by (subst number_bytes.simps) simp

lemma number_bytes_zeros: "0 < m \<Longrightarrow> number_bytes (256 ^ k * m) = number_bytes m @ replicate k 0"
proof (induction k)
  case (Suc k)
  then show ?case
    using number_bytes_step [of 0 "256 ^ k * m"] by (simp add: mult.assoc replicate_append_same)
qed simp

lemma number_bytes_ones: "number_bytes (256 ^ k - 1) = replicate k 255"
proof (induction k)
  case (Suc k)
  have "(256 :: nat) ^ Suc k - 1 = 256 * (256 ^ k - 1) + 255" by (induction k) simp_all
  then show ?case
    using number_bytes_step [of 255 "256 ^ k - 1"] Suc by (simp add: replicate_append_same)
qed (simp add: number_bytes.simps)

lemma sample_powers:
  "number_bytes (2 ^ 510) = 64 # replicate 63 0" "number_bytes (2 + 2 ^ 504) = 1 # replicate 62 0 @ [2]"
  "number_bytes (2 ^ 512 - 1) = replicate 64 255" "number_bytes 2 = [2]"
proof -
  have one: "number_bytes 64 = [64]" "number_bytes 1 = [1]" "number_bytes 2 = [2]" by (simp_all add: number_bytes.simps)
  have "(2 :: nat) ^ 510 = 256 ^ 63 * 64" "(2 :: nat) ^ 504 = 256 * (256 ^ 62 * 1)" "(2 :: nat) ^ 512 = 256 ^ 64" by simp_all
  then show "number_bytes (2 ^ 510) = 64 # replicate 63 0" "number_bytes (2 + 2 ^ 504) = 1 # replicate 62 0 @ [2]"
    "number_bytes (2 ^ 512 - 1) = replicate 64 255" "number_bytes 2 = [2]"
    using number_bytes_zeros [of 64 63] number_bytes_zeros [of 1 62] number_bytes_step [of 2 "256 ^ 62"] number_bytes_ones [of 64] one
    by (simp_all only: add.commute [of 2] mult_1_right) simp_all
qed
lemma sample_hash_value: "BN_bin2bn sample_bignum (replicate 19 0 @ [1]) = 1"
  by (simp add: sample_bignum_def eval_nat_numeral)

lemma sample_exponents: "BN_bin2bn sample_bignum sample_a = 510" "BN_bin2bn sample_bignum sample_b = 504"
  "BN_bin2bn sample_bignum [2] = 2"
  by (simp_all add: sample_bignum_def sample_a_def sample_b_def)

definition sample_A :: bytes where "sample_A = 64 # replicate 63 0"

definition sample_authenticator :: authenticator where
  "sample_authenticator = \<lparr>sca_username = string2bytes ''san'', sca_password = string2bytes ''x'', sca_a = sample_a,
     sca_A = sample_A, sca_K = [], M2_calculated = []\<rparr>"

lemma sample_ng: "checkNg sample_group = Inr ()" "sm_N sample_group > 0" "sm_hash sample_group = h_sha1 sample_host"
  by (simp_all add: checkNg_def sample_group_def)

lemma sample_authenticates:
  "getAuthenticator (h_bignum sample_host) sample_group (Inr sample_a) (string2bytes ''san'') (string2bytes ''x'') = Inr sample_authenticator"
proof -
  have "(2 :: int) ^ 510 mod (2 ^ 512 - 1) = 2 ^ 510" by simp
  then have "BN_mod_exp sample_bignum 2 510 (2 ^ 512 - 1) = 2 ^ 510" by (simp add: sample_bignum_def)
  moreover have "BN_bn2bin sample_bignum (2 ^ 510) = sample_A"
    using sample_powers(1) by (simp add: sample_bignum_def sample_A_def nat_power_eq)
  ultimately have "calculateA sample_bignum sample_group sample_a = Inr sample_A"
    using sample_ng(1) sample_exponents(1)
    by (simp only: calculateA_def Let_def run_bind_Inr) (simp add: sample_group_def sample_a_def)
  then show ?thesis by (simp add: getAuthenticator_def sample_authenticator_def sample_host_def)
qed

lemma sample_verificator:
  "calculateVerificator (h_bignum sample_host) sample_group (string2bytes ''san'') (string2bytes ''x'')
     (usr_salt sample_shell_user) = Inr (usr_verificator sample_shell_user)"
proof -
  have "BN_mod_exp sample_bignum 2 1 (2 ^ 512 - 1) = 2" by (simp add: sample_bignum_def)
  moreover have "BN_bn2bin sample_bignum 2 = [2]" using sample_powers(4) by (simp add: sample_bignum_def)
  moreover have "calculate_x (sm_hash sample_group) u p s = replicate 19 0 @ [1]" for u p s
    by (simp add: calculate_x_def sample_group_def sample_host_def)
  ultimately show ?thesis
    using sample_hash_value
    by (simp add: calculateVerificator_def sample_host_def sample_shell_user_def string2bytes_def Let_def)
      (simp add: sample_group_def)
qed

lemma sample_B: "public_B (h_bignum sample_host) sample_group (usr_verificator sample_shell_user) sample_b = 1 # replicate 62 0 @ [2]"
proof -
  have "(1 * 2 mod (2 ^ 512 - 1) + 2 ^ 504 mod (2 ^ 512 - 1)) mod (2 ^ 512 - 1) = (2 + 2 ^ 504 :: int)" by simp
  moreover have "BN_bn2bin sample_bignum (2 + 2 ^ 504) = 1 # replicate 62 0 @ [2]"
    using sample_powers(2) by (simp add: sample_bignum_def nat_add_distrib nat_power_eq)
  ultimately show ?thesis
    unfolding public_B_def by (simp only: sample_host_def host.simps sample_shell_user_def user.simps sample_exponents)
      (simp add: sample_group_def)
qed

lemma sample_exchange:
  "exchange_ok (h_bignum sample_host) sample_group True sample_shell_user (string2bytes ''san'') (string2bytes ''x'')
     sample_a sample_b sample_A"
proof -
  have u: "scramble sample_bignum sample_group X Y = 1" "password_exponent sample_bignum sample_group n p s = 1" for X Y n p s
    using sample_hash_value by (simp_all add: scramble_def password_exponent_def calculate_x_def sample_group_def sample_host_def)
  have len: "length sample_A = BN_num_bytes sample_bignum (sm_N sample_group)"
  proof -
    have "nat (2 ^ 512 - 1) = 2 ^ 512 - 1" by simp
    then show ?thesis using sample_powers(3) by (simp only: sample_bignum_def bignum.simps sample_group_def srp_math.simps) (simp add: sample_A_def)
  qed
  have val: "BN_bin2bn sample_bignum sample_A = 2 ^ 510"
  proof -
    have "foldl (\<lambda>n x. 256 * n + int (unat x)) v (replicate k (0 :: byte)) = v * 256 ^ k" for v :: int and k
      by (induction k arbitrary: v) simp_all
    from this [of 64 63] show ?thesis by (simp add: sample_bignum_def sample_A_def)
  qed
  define N :: int where "N = 2 ^ 512 - 1"
  have "(2 :: int) ^ 512 mod N = 1" by (simp add: N_def)
  then have "((2 :: int) ^ 512) ^ 503 mod N = 1 mod N" by (metis power_mod power_one)
  moreover have "(y ^ 510 * y) ^ 504 = (y ^ 512) ^ 503 * y ^ 8" for y :: int
    by (simp add: power_mult [symmetric] power_mult_distrib power_add [symmetric])
  note this [of 2]
  ultimately have "(2 ^ 510 * 2) ^ 504 mod N = (1 mod N) * 2 ^ 8 mod N" by (metis mod_mult_left_eq)
  also have "\<dots> = 256" by (simp add: N_def)
  finally have pow: "(2 ^ 510 * 2 :: int) ^ 504 mod N = 256" .
  have group: "sm_N sample_group = N" by (simp only: sample_group_def srp_math.simps N_def)
  have n: "nat (1 :: int) = 1" "nat (504 :: int) = 504" by simp_all
  have "secret sample_bignum sample_group sample_A [2] sample_b 1 = BN_bn2bin sample_bignum ((2 ^ 510 * (2 mod N) mod N) ^ 504 mod N)"
    by (simp only: secret_def val sample_exponents group n power_one_right)
  also have "(2 ^ 510 * (2 mod N) mod N) ^ 504 mod N = 256" using pow by (metis mod_mult_right_eq power_mod)
  also have "BN_bn2bin sample_bignum 256 = [1, 0]" by (simp add: sample_bignum_def number_bytes.simps)
  finally have "secret sample_bignum sample_group sample_A [2] sample_b 1 = [1, 0]" .
  moreover have "BN_bin2bn sample_bignum sample_a + 1 * 1 < sm_N sample_group" by (simp add: sample_exponents sample_group_def)
  ultimately show ?thesis
    using sample_B len by (simp add: exchange_ok_def u sample_host_def sample_shell_user_def Let_def)
qed
definition sample_shell_hosts :: "(shell_session \<times> nat) hosts" where
  "sample_shell_hosts = \<lparr>bo_c = SAN_LITTLE_ENDIAN, bo_s = SAN_LITTLE_ENDIAN, heap_c = sample_capsule, heap_s = sample_capsule,
     hdl = (\<lambda>n r a. ((False, []), a)), max_tries = 2, server_address = replicate 32 1, server_port = 2201,
     client_address = replicate 32 2, client_port = 40000\<rparr>"

definition sample_shell_rounds :: "(pick list \<times> arrival) list" where
  "sample_shell_rounds = map (\<lambda>i. if odd i then good_round else ([Nth 0, Latest], Answer (Nth 0))) [0..<10]"

lemma sample_shell_fair: "fair 2 sample_shell_rounds"
proof -
  have "\<exists>j < 2. sample_shell_rounds ! (i + j) = good_round" if "i + 2 \<le> 10" for i
    using that by (intro exI [of _ "if odd i then 0 else 1"]) (simp add: sample_shell_rounds_def del: upt_conv_Cons upt_Suc)
  then show ?thesis by (simp add: fair_def sample_shell_rounds_def del: upt_conv_Cons upt_Suc)
qed

lemma sample_shell_wf: "wf_hosts sample_shell_hosts" "max_tries sample_shell_hosts = 2"
  by (simp_all add: wf_hosts_def sample_shell_hosts_def wf_sample_capsule sanAddressSize_def)

lemma sample_answers:
  "answers_to sample_parameter [''hostname'', ''uptime'', ''peers''] (5 :: nat) =
     Some ([string2bytes ''hostname'', string2bytes ''uptime'', string2bytes ''peers''], 8)"
  by (simp add: processApplicationDatagram_def ask_parameter_def sample_parameter_def ret_def)

lemma shell_over_lossy_network_witness:
  "\<exists>swt net' s'. client_run sample_host sample_group
      (network_call (shell_network sample_shell_hosts sample_host sample_users sample_parameter (\<lambda>n. Inr sample_b)))
      (\<lambda>(swt, _). getNextSequenceNumber swt) (Inr sample_a) ''san'' ''x'' ([''uptime'', ''peers''] @ [''exit''])
      (start_client (shell_network sample_shell_hosts sample_host sample_users sample_parameter (\<lambda>n. Inr sample_b)),
       start_net (shell_network sample_shell_hosts sample_host sample_users sample_parameter (\<lambda>n. Inr sample_b))
         (sample_session, 5) sample_shell_rounds) =
     ret ((0, [string2bytes ''uptime'', string2bytes ''peers'']), (swt, net')) \<and> app net' = (s', 8)"
proof -
  have "sample_users (string2bytes ''san'') = Some sample_shell_user" "usr_verificator sample_shell_user \<noteq> []"
    "16 \<le> length (usr_salt sample_shell_user)" "length (usr_salt sample_shell_user) \<le> 64"
    by (simp_all add: sample_users_def sample_shell_user_def)
  moreover have "sample_a \<noteq> []" "sample_b \<noteq> []" by (simp_all add: sample_a_def sample_b_def)
  moreover have "64 \<le> length (sca_A sample_authenticator)" "length (sca_A sample_authenticator) \<le> 1024"
    by (simp_all add: sample_authenticator_def sample_A_def)
  moreover have "\<forall>l \<in> set [''uptime'', ''peers'']. command_line l" by (simp add: command_line_def SH_TERMINAL_MAXLINLEN_def)
  moreover have "(length [''uptime'', ''peers''] + 3) * max_tries sample_shell_hosts \<le> length sample_shell_rounds"
    by (simp add: sample_shell_wf sample_shell_rounds_def del: upt_conv_Cons upt_Suc)
  ultimately show ?thesis
    using shell_over_lossy_network [where N = sample_shell_hosts and rnd = "\<lambda>n. Inr sample_b",
        OF sample_code(1,2,3) sample_ng(3,1,2) _ _ _ sample_verificator _ _ _ _ _ _ sample_authenticates,
        where commands = "[''uptime'', ''peers'']" and w = 5 and rounds = sample_shell_rounds and b = sample_b]
      sample_shell_wf sample_shell_fair sample_B sample_answers sample_exchange
    by (simp add: Let_def sample_authenticator_def)
qed

lemma commands_need_proof_witness:
  "\<exists>M1 s. session_history sample_host sample_users sample_parameter sample_session (0 :: nat)
       [[0x45, 0x41] @ string2bytes ''san'' @ [0] @ sample_A, [0x45, 0x42] @ M1] s 0 \<and> m_state s = SH_SRV_STATE_BETA \<and>
     (\<exists>u \<in> dom sample_users. logged_in sample_host sample_users sample_group
       [[0x45, 0x41] @ string2bytes ''san'' @ [0] @ sample_A, [0x45, 0x42] @ M1] u)"
proof -
  let ?a = "[0x45, 0x41] @ string2bytes ''san'' @ [0] @ sample_A"
  have user: "sample_users (string2bytes ''san'') = Some sample_shell_user" "usr_verificator sample_shell_user \<noteq> []"
    "length (usr_salt sample_shell_user) = 16" and ab: "sample_a \<noteq> []" "sample_b \<noteq> []"
    and lib: "bignum_ok (h_bignum sample_host)" "hash_ok (sm_hash sample_group)" "h_outputLen (sm_hash sample_group) = 20"
    using sample_code(2) by (simp_all add: sample_users_def sample_shell_user_def sample_a_def sample_b_def libraries_ok_def sample_ng(3))
  have ex: "exchange_ok (h_bignum sample_host) sample_group True sample_shell_user (string2bytes ''san'') (string2bytes ''x'')
      sample_a sample_b (sca_A sample_authenticator)"
    using sample_exchange by (simp add: sample_authenticator_def)
  obtain v where v: "getVerificator (h_bignum sample_host) sample_group True sample_users (Inr sample_b) (string2bytes ''san'') sample_A = Inr v"
    "ver_salt v = usr_salt sample_shell_user" "ver_B v = 1 # replicate 62 0 @ [2]" "length (calc_M1 v) = 20" "length (calc_M2 v) = 20"
    using srp_exchange [of "h_bignum sample_host" sample_group sample_users "string2bytes ''san''" sample_shell_user "string2bytes ''x''"
        sample_a sample_b sample_authenticator True] lib sample_ng user sample_verificator ab sample_authenticates ex sample_B
    by (auto simp: sample_authenticator_def)
  have zero: "0 \<notin> set (string2bytes ''san'')" by (simp add: string2bytes_def byte_of_char_def)
  have start: "m_state sample_session = SH_SRV_STATE_ZERO" "m_math sample_session = sample_group" by (simp_all add: sample_session_def)
  obtain r1 s1 where s1: "processDatagram sample_host sample_users sample_parameter (Inr sample_b) 1 ?a [] sample_session (0 :: nat) =
      ret ((True, r1, s1), 0)" "m_state s1 = SH_SRV_STATE_ALPHA" "m_ver s1 = v"
    using server_A [OF start(1) zero, of sample_A sample_host sample_users "Inr sample_b" v sample_parameter 1 0] v user(3) start(2)
    by (auto simp: sample_A_def)
  obtain r2 s2 where s2: "processDatagram sample_host sample_users sample_parameter (Inr sample_b) 2 ([0x45, 0x42] @ calc_M1 v) [] s1 (0 :: nat) =
      ret ((True, r2, s2), 0)" "m_state s2 = SH_SRV_STATE_BETA"
    using server_B [OF s1(2), of sample_host sample_users sample_parameter "Inr sample_b" 2 0] s1(3) v(4,5) by auto
  note h1 = session_history.processed [OF session_history.created s1(1)]
  note session_history.processed [OF h1 s2(1)]
  then have h: "session_history sample_host sample_users sample_parameter sample_session (0 :: nat) [?a, [0x45, 0x42] @ calc_M1 v] s2 0" by simp
  from commands_need_proof [OF sample_code(3) h] s2(2)
  have "\<exists>u \<in> dom sample_users. logged_in sample_host sample_users sample_group [?a, [0x45, 0x42] @ calc_M1 v] u" by blast
  then show ?thesis using h s2(2) by blast
qed

lemma session_refuses_witness:
  "processDatagram sample_host sample_users sample_parameter (Inr []) 1 ([0x45, 0x41] @ replicate 65 1) [] sample_session (0 :: nat) =
     Some (Inl OutOfRange) \<and>
   processDatagram sample_host sample_users sample_parameter (Inr []) 1 [0x45, 0x41] [] sample_session (0 :: nat) =
     ret ((True, [0x45, 0x50, 4], resetState sample_session), 0) \<and>
   processDatagram sample_host sample_users sample_parameter (Inr []) 2 [0x45, 0x43] [] (sample_session\<lparr>m_state := SH_SRV_STATE_ALPHA\<rparr>) (0 :: nat) =
     ret ((True, [0x45, 0x51, 3], resetState (sample_session\<lparr>m_state := SH_SRV_STATE_ALPHA\<rparr>)), 0)"
proof -
  have parsed: "enc_parse_A_message [0x45, 0x41] [] [] = Inr (-1, [], [])" "enc_parse_B_message [0x45, 0x43] [] = (-1, [])"
    by (simp_all add: enc_parse_A_message_def enc_parse_B_message_def enc_defs)
  have nobody: "sample_users [] = None" by (simp add: sample_users_def string2bytes_def)
  note refuses = session_refuses [where P = sample_host and db = sample_users and getParameter = sample_parameter and rnd = "Inr []"
      and response = "[]" and A = "[]" and u = "[]" and w = "0 :: nat" and ?M1.0 = "[]"]
  have "take 2 ([0x45, 0x41] @ replicate 65 (1 :: byte)) = [0x45, 0x41]" "drop 2 ([0x45, 0x41] @ replicate 65 (1 :: byte)) = replicate 65 1"
    by (simp_all add: numeral_2_eq_2 del: replicate.simps)
  moreover have "(0 :: byte) \<notin> set (replicate 65 1)" by (simp only: set_replicate_conv_if) simp
  ultimately have "processDatagram sample_host sample_users sample_parameter (Inr []) 1 ([0x45, 0x41] @ replicate 65 1) [] sample_session (0 :: nat) =
     Some (Inl OutOfRange)"
    using refuses [of sample_session "[0x45, 0x41] @ replicate 65 1" 1 0]
    by (simp only: length_append length_replicate) (simp add: sample_session_def)
  then show ?thesis
    using parsed nobody refuses [of sample_session "[0x45, 0x41]" 1 "-1"]
      refuses [of "sample_session\<lparr>m_state := SH_SRV_STATE_ALPHA\<rparr>" "[0x45, 0x43]" 2 0]
    by (simp add: sample_session_def state_defs shell_consts)
qed

lemma oversized_datagram_overflows_witness:
  "processDatagram sample_host sample_users sample_parameter (Inr []) 3 ([0x45, 0x43] @ replicate 60025 0) []
     (sample_session\<lparr>m_state := SH_SRV_STATE_BETA, m_enc := Some (sample_crypt [0, 0]), m_dec := Some (sample_crypt [0, 0])\<rparr>) (0 :: nat) =
   Some (Inl OutOfRange)"
  by (rule oversized_datagram_overflows [where ?s1.0 = "sample_session\<lparr>m_state := SH_SRV_STATE_BETA, m_enc := Some (sample_crypt [0, 0]),
      m_dec := Some (sample_crypt [0, 0])\<rparr>"]) (simp_all add: initCrypto_def)

end
