(* ===== verification/Passwords.thy ===== *)
theory Passwords
  imports StrUtils Srp
begin

text \<open>
  The password file of the shell server, \<^verbatim>\<open>src/shell/passwordloader.cpp\<close>: lines of a user name,
  a salt and a verificator. The lemmas show which users a file defines.
\<close>

section \<open>\<^verbatim>\<open>PasswordLoader\<close>\<close>

text \<open>\<^verbatim>\<open>iss >> srpUser >> srpSalt >> srpVerificator\<close>: three words, or the stream has failed.\<close>

definition word_of :: "string \<Rightarrow> string \<times> string" where
  "word_of s = (let s = dropWhile isspace s in (takeWhile (\<lambda>c. \<not> isspace c) s, dropWhile (\<lambda>c. \<not> isspace c) s))"

definition three_words :: "string \<Rightarrow> (string \<times> string \<times> string) option" where
  "three_words line =
     (let (srpUser, rest) = word_of line; (srpSalt, rest) = word_of rest; (srpVerificator, rest) = word_of rest
      in if srpUser = [] \<or> srpSalt = [] \<or> srpVerificator = [] then None else Some (srpUser, srpSalt, srpVerificator))"

text \<open>The loop over the lines. An error keeps the users that were read before.\<close>

fun load_users :: "string list \<Rightarrow> int \<Rightarrow> lookup \<Rightarrow> int \<times> lookup" where
  "load_users [] userCount db = (userCount, db)"
| "load_users (line # ls) userCount db =
     (let line = trim line
      in if length line = 0 then load_users ls userCount db
         else if length line \<ge> 1 \<and> line ! 0 = CHR ''#'' then load_users ls userCount db
         else case three_words line of
           None \<Rightarrow> (-2, db)
         | Some (srpUser, srpSalt, srpVerificator) \<Rightarrow>
             (case hexToBytes srpSalt of (ok, bSrpSalt) \<Rightarrow>
              if \<not> ok then (-3, db)
              else case hexToBytes srpVerificator of (ok, bSrpVerificator) \<Rightarrow>
              if \<not> ok then (-4, db)
              else
                let usr = \<lparr>usr_username = string2bytes srpUser, usr_verificator = bSrpVerificator, usr_salt = bSrpSalt\<rparr>;
                    (added, db) = userAdd usr db
                in load_users ls (if added then userCount + 1 else userCount) db))"

text \<open>\<open>infile\<close> is the text of the file, or \<open>None\<close> if it cannot be opened.\<close>

definition loadFromFile :: "string option \<Rightarrow> lookup \<Rightarrow> int \<times> lookup" where
  "loadFromFile infile db =
     (let db = clearDb db
      in case infile of None \<Rightarrow> (-1, db) | Some s \<Rightarrow> load_users (getlines s) 0 db)"

section \<open>Files of users\<close>

text \<open>A line is a user, or something that is skipped: white space, or a comment.\<close>

definition hex_text :: "bytes \<Rightarrow> string" where
  "hex_text b = concat (map byteToString b)"

definition entry :: "string + user \<Rightarrow> string" where
  "entry x = (case x of Inl comment \<Rightarrow> comment
     | Inr u \<Rightarrow> bytes2string (usr_username u) @ '' '' @ hex_text (usr_salt u) @ '' '' @ hex_text (usr_verificator u))"

definition password_file :: "(string + user) list \<Rightarrow> string" where
  "password_file xs = concat (map (\<lambda>x. entry x @ [CHR 0x0A]) xs)"

definition plain_entry :: "string + user \<Rightarrow> bool" where
  "plain_entry x = (case x of
     Inl comment \<Rightarrow> CHR 0x0A \<notin> set comment \<and> (trim comment = [] \<or> hd (trim comment) = CHR ''#'')
   | Inr u \<Rightarrow> usr_username u \<noteq> [] \<and> list_all (\<lambda>c. \<not> isspace c) (bytes2string (usr_username u)) \<and>
       hd (bytes2string (usr_username u)) \<noteq> CHR ''#'' \<and> usr_salt u \<noteq> [] \<and> usr_verificator u \<noteq> [])"

fun users_of :: "(string + user) list \<Rightarrow> user list" where
  "users_of [] = []"
| "users_of (Inl c # xs) = users_of xs"
| "users_of (Inr u # xs) = u # users_of xs"

lemma hex_text_plain: "c \<in> set (hex_text b) \<Longrightarrow> isxdigit c"
  using hex_pairs_print [of b] hex_pairs_None_iff [of "hex_text b"] by (auto simp: hex_text_def list_all_iff)

lemma hex_text_empty: "hex_text b = [] \<longleftrightarrow> b = []"
  by (cases b) (simp_all add: hex_text_def byteToString_eq)

lemma no_space_word: "\<forall>c \<in> set w. \<not> isspace c \<Longrightarrow> w \<noteq> [] \<Longrightarrow> r = [] \<or> isspace (hd r) \<Longrightarrow> word_of (w @ r) = (w, r)"
proof -
  assume w: "\<forall>c \<in> set w. \<not> isspace c" "w \<noteq> []" and r: "r = [] \<or> isspace (hd r)"
  have "dropWhile isspace (w @ r) = w @ r" using w by (intro dropWhile_hd) simp_all
  moreover have "takeWhile (\<lambda>c. \<not> isspace c) r = []" "dropWhile (\<lambda>c. \<not> isspace c) r = r"
    using r by (cases r; simp)+
  ultimately show ?thesis using w(1) by (simp add: word_of_def takeWhile_append2 dropWhile_append2)
qed

lemma word_after_space: "word_of (CHR '' '' # s) = word_of s"
  by (simp add: word_of_def isspace_def)

lemma load_user:
  assumes "plain_entry (Inr u)"
  shows "CHR 0x0A \<notin> set (entry (Inr u))" and "load_users (entry (Inr u) # ls) n db =
    (let (added, db) = userAdd u db in load_users ls (if added then n + 1 else n) db)"
proof -
  let ?n = "bytes2string (usr_username u)" and ?s = "hex_text (usr_salt u)" and ?v = "hex_text (usr_verificator u)"
  have hex: "\<forall>c \<in> set (hex_text b). \<not> isspace c" for b using hex_text_plain isxdigit_no_prefix by blast
  have name: "?n \<noteq> []" "\<forall>c \<in> set ?n. \<not> isspace c" "hd ?n \<noteq> CHR ''#''"
    and filled: "?s \<noteq> []" "?v \<noteq> []"
    using assms by (simp_all add: plain_entry_def list_all_iff hex_text_empty) (simp add: bytes2string_def)
  have e: "entry (Inr u) = ?n @ '' '' @ ?s @ '' '' @ ?v" by (simp add: entry_def)
  have "isspace (CHR 0x0A)" by (simp add: isspace_def)
  then show "CHR 0x0A \<notin> set (entry (Inr u))" using name(2) hex unfolding e by auto
  have "dropWhile isspace (rev (entry (Inr u))) = rev (entry (Inr u))"
    using filled(2) hex [of "usr_verificator u"] unfolding e by (intro dropWhile_hd) (simp_all add: hd_rev)
  moreover have "dropWhile isspace (entry (Inr u)) = entry (Inr u)"
    using name unfolding e by (intro dropWhile_hd) simp_all
  ultimately have t: "trim (entry (Inr u)) = entry (Inr u)" by (simp add: trim_def ltrim_def rtrim_def)
  have "three_words (entry (Inr u)) = Some (?n, ?s, ?v)"
    using name(1,2) filled hex no_space_word [of ?n "'' '' @ ?s @ '' '' @ ?v"] no_space_word [of ?s "'' '' @ ?v"]
      no_space_word [of ?v "[]"]
    unfolding e by (simp add: three_words_def word_after_space isspace_def)
  moreover have "entry (Inr u) ! 0 \<noteq> CHR ''#''" "entry (Inr u) \<noteq> []" using name(1,3) unfolding e by (cases ?n; simp)+
  moreover have "hexToBytes ?s = (True, usr_salt u)" "hexToBytes ?v = (True, usr_verificator u)" by (simp_all add: hex_text_def)
  ultimately show "load_users (entry (Inr u) # ls) n db =
    (let (added, db) = userAdd u db in load_users ls (if added then n + 1 else n) db)"
    using t by (cases u) simp
qed

lemma load_entries:
  "\<forall>x \<in> set xs. plain_entry x \<Longrightarrow>
     load_users (map entry xs) n db =
       (n + int (card (usr_username ` set (users_of xs) - dom db)),
        \<lambda>name. case db name of Some u \<Rightarrow> Some u | None \<Rightarrow> find (\<lambda>u. usr_username u = name) (users_of xs))"
proof (induction xs arbitrary: n db)
  case Nil
  then show ?case by (auto simp: fun_eq_iff split: option.split)
next
  case (Cons x xs)
  show ?case
  proof (cases x)
    case (Inl c)
    then have "trim c = [] \<or> hd (trim c) = CHR ''#''" using Cons.prems by (simp add: plain_entry_def)
    then have "trim c = [] \<or> trim c ! 0 = CHR ''#''" by (metis hd_conv_nth)
    then have l: "load_users (map entry (x # xs)) n db = load_users (map entry xs) n db"
      using Inl by (cases "trim c = []") (simp_all add: entry_def Let_def Suc_le_eq)
    have u: "users_of (x # xs) = users_of xs" using Inl by simp
    show ?thesis unfolding l u using Cons.IH Cons.prems by simp
  next
    case (Inr u)
    have ok: "plain_entry (Inr u)" using Cons.prems Inr by simp
    let ?rest = "usr_username ` set (users_of xs)"
    show ?thesis
    proof (cases "db (usr_username u)")
      case None
      let ?db = "db(usr_username u \<mapsto> u)"
      have "usr_username ` set (users_of (x # xs)) - dom db = insert (usr_username u) (?rest - dom ?db)"
        using None Inr by auto
      moreover have "card (insert (usr_username u) (?rest - dom ?db)) = Suc (card (?rest - dom ?db))" by simp
      ultimately have c: "n + int (card (usr_username ` set (users_of (x # xs)) - dom db)) = n + 1 + int (card (?rest - dom ?db))"
        by simp
      have l: "load_users (map entry (x # xs)) n db = load_users (map entry xs) (n + 1) ?db"
        using load_user(2) [OF ok] None Inr by (simp add: userAdd_def)
      have f: "(\<lambda>name. case db name of Some u \<Rightarrow> Some u | None \<Rightarrow> find (\<lambda>u. usr_username u = name) (users_of (x # xs))) =
          (\<lambda>name. case ?db name of Some u \<Rightarrow> Some u | None \<Rightarrow> find (\<lambda>u. usr_username u = name) (users_of xs))"
        using None Inr by (auto simp: fun_eq_iff split: option.split)
      show ?thesis unfolding l c f by (rule Cons.IH) (use Cons.prems in simp)
    next
      case (Some u')
      then have c: "usr_username ` set (users_of (x # xs)) - dom db = ?rest - dom db" using Inr by auto
      have l: "load_users (map entry (x # xs)) n db = load_users (map entry xs) n db"
        using load_user(2) [OF ok] Some Inr by (simp add: userAdd_def)
      have f: "(\<lambda>name. case db name of Some u \<Rightarrow> Some u | None \<Rightarrow> find (\<lambda>u. usr_username u = name) (users_of (x # xs))) =
          (\<lambda>name. case db name of Some u \<Rightarrow> Some u | None \<Rightarrow> find (\<lambda>u. usr_username u = name) (users_of xs))"
        using Some Inr by (auto simp: fun_eq_iff split: option.split)
      show ?thesis unfolding l c f by (rule Cons.IH) (use Cons.prems in simp)
    qed
  qed
qed

text \<open>
  C37. The password file. A file whose lines are users, white space and comments defines exactly its
  users, of several lines with the same name the first; the number that is returned is that of the
  different names. What was loaded before is gone.
\<close>

lemma password_file_users:
  assumes "\<forall>x \<in> set xs. plain_entry x"
  shows "loadFromFile (Some (password_file xs)) db =
    (int (card (usr_username ` set (users_of xs))), \<lambda>name. find (\<lambda>u. usr_username u = name) (users_of xs))"
proof -
  have "CHR 0x0A \<notin> set (entry x)" if "x \<in> set xs" for x
    using assms that load_user(1) by (cases x) (auto simp: plain_entry_def entry_def)
  then have "StrUtils.fields (CHR 0x0A) [] (password_file xs) = map entry xs @ [[]]"
    by (induction xs) (simp_all add: password_file_def fields_cut)
  then have "getlines (password_file xs) = map entry xs" by (simp add: getlines_def)
  then show ?thesis using load_entries [OF assms, of 0 Map.empty] by (simp add: loadFromFile_def clearDb_def)
qed

lemma password_file_users_witness:
  "loadFromFile (Some (password_file [Inl ''# users'', Inr sample_user, Inr (sample_user\<lparr>usr_salt := [9]\<rparr>)])) Map.empty =
     (1, \<lambda>name. if name = [65] then Some sample_user else None)"
proof -
  have "string2bytes ''A'' = [65]" by (simp add: string2bytes_def byte_of_char_def)
  then have "bytes2string [65] = ''A''" by (metis bytes2string_string2bytes)
  moreover have "trim ''# users'' = ''# users''" by (simp add: trim_def ltrim_def rtrim_def isspace_def)
  ultimately have "\<forall>x \<in> set [Inl ''# users'', Inr sample_user, Inr (sample_user\<lparr>usr_salt := [9]\<rparr>)]. plain_entry x"
    by (simp add: plain_entry_def sample_user_def isspace_def)
  from password_file_users [OF this, of Map.empty] show ?thesis
    by (auto simp: sample_user_def fun_eq_iff)
qed

end
