(* ===== verification/Server.thy ===== *)
theory Server
  imports ShellSession Passwords
begin

text \<open>
  The main loop of the shell server, \<^verbatim>\<open>src/shell/shell_server.cpp\<close>, with the session manager
  of \<^verbatim>\<open>src/shell/sessionmanager.hpp\<close>. The lemmas show that the sessions of different clients
  do not interfere, as long as no capsule is refused: then the server ends, for all of them.
\<close>

section \<open>The program\<close>

text \<open>
  A session is the receiver's end of the protocol and the state \<open>'a\<close> its handler works on, which
  contains what the node will answer to this session. \<open>srv_fromPort\<close> is a variable of \<^verbatim>\<open>main\<close>
  that keeps its value when a capsule has no ports, and has none at first.
\<close>

record 'a server =
  srv_sessions :: "(stopwaitrx \<times> 'a) sessions"
  srv_fromPort :: "u16 option"

definition empty_server :: "'a server" where
  "empty_server = \<lparr>srv_sessions = Map.empty, srv_fromPort = None\<rparr>"

definition server_round ::
  "byte_order \<Rightarrow> 'w wait_for_capsule \<Rightarrow> 'w send_capsule \<Rightarrow> capsule \<Rightarrow> 'a handler \<Rightarrow> (bytes \<Rightarrow> u16 \<Rightarrow> stopwaitrx \<times> 'a) \<Rightarrow>
     'a server \<times> 'w \<Rightarrow> (int option \<times> 'a server \<times> 'w) io" where
  "server_round bo waitForCapsule sendCapsule heap handle createT = (\<lambda>(srv, w).
     io_bind (waitForCapsule heap 50000 w) (\<lambda>((rval, rxcapsule), w).
       if rval = SAN2_WAITFORCAPSULE_SUCCESS then
         (case (case getPortsDS bo rxcapsule of Some (toPort, fromPort) \<Rightarrow> Some fromPort | None \<Rightarrow> srv_fromPort srv) of
            None \<Rightarrow> Some (Inl Indeterminate)
          | Some fromPort \<Rightarrow>
              (case getSession createT (m_srcAddress rxcapsule) fromPort (srv_sessions srv) of ((swr, a), storage) \<Rightarrow>
                 io_bind (incommingCapsule bo sendCapsule heap handle rxcapsule swr a w) (\<lambda>((ok, ses), w).
                   let srv = \<lparr>srv_sessions = storage((m_srcAddress rxcapsule, fromPort) \<mapsto> ses), srv_fromPort = Some fromPort\<rparr>
                   in if \<not> ok then ret (Some (-6), srv, w) else ret (None, srv, w))))
       else if rval = SAN2_WAITFORCAPSULE_ERROR_INVOKE_FAILED then ret (Some (-1), srv, w)
       else ret (None, srv, w)))"

definition server_loop ::
  "byte_order \<Rightarrow> 'w wait_for_capsule \<Rightarrow> 'w send_capsule \<Rightarrow> capsule \<Rightarrow> 'a handler \<Rightarrow> (bytes \<Rightarrow> u16 \<Rightarrow> stopwaitrx \<times> 'a) \<Rightarrow>
     'a server \<times> 'w \<Rightarrow> (int \<times> 'a server \<times> 'w) io" where
  "server_loop bo waitForCapsule sendCapsule heap handle createT =
     io_loop (server_round bo waitForCapsule sendCapsule heap handle createT)"

text \<open>
  \<^verbatim>\<open>main\<close> after its arguments are parsed, with the calls of the connector as arguments; \<open>init\<close> is the state of a new session.
\<close>

definition server_main ::
  "byte_order \<Rightarrow> string option \<Rightarrow> (u16 \<Rightarrow> 'w \<Rightarrow> (bool \<times> 'w) io) \<Rightarrow> ('w \<Rightarrow> ((u32 \<times> bytes list) \<times> 'w) io) \<Rightarrow>
     'w wait_for_capsule \<Rightarrow> 'w send_capsule \<Rightarrow> capsule \<Rightarrow> (lookup \<Rightarrow> 'a handler) \<Rightarrow> 'a \<Rightarrow> u16 \<Rightarrow> 'w \<Rightarrow>
     (int \<times> 'a server \<times> 'w) io" where
  "server_main bo infile register getInterfaceAddresses waitForCapsule sendCapsule heap handler init srvIntPort w =
     (case loadFromFile infile Map.empty of (userCount, pload) \<Rightarrow>
        if userCount \<le> 0 then ret (-1, empty_server, w)
        else io_bind (register srvIntPort w) (\<lambda>(registered, w).
          if \<not> registered then ret (-1, empty_server, w)
          else io_bind (getInterfaceAddresses w) (\<lambda>((addressCount, adrs), w).
            if addressCount < 1 then ret (-3, empty_server, w)
            else case adrs of
              [] \<Rightarrow> Some (Inl OutOfRange)
            | serverAddress # _ \<Rightarrow>
                server_loop bo waitForCapsule sendCapsule heap (handler pload)
                  (\<lambda>clientAddress clientPort. (StopWaitRx serverAddress srvIntPort clientAddress clientPort, init))
                  (empty_server, w))))"

section \<open>Sessions one by one\<close>

text \<open>
  A connection to the node that gives the waits of a script one after the other, then is lost, and
  takes every capsule.
\<close>

type_synonym script = "(u32 \<times> capsule) list \<times> bytes list"

definition script_wait :: "script wait_for_capsule" where
  "script_wait heap timeout = (\<lambda>(waits, sent). case waits of
     [] \<Rightarrow> ret ((SAN2_WAITFORCAPSULE_ERROR_INVOKE_FAILED, heap), [], sent)
   | x # xs \<Rightarrow> ret (x, xs, sent))"

definition script_send :: "script send_capsule" where
  "script_send b = (\<lambda>(waits, sent). ret (True, waits, sent @ [b]))"

text \<open>What one session makes of its capsules, without the others; \<open>None\<close> when it refuses one.\<close>

primrec alone :: "byte_order \<Rightarrow> capsule \<Rightarrow> 'a handler \<Rightarrow> capsule list \<Rightarrow> stopwaitrx \<times> 'a \<Rightarrow> (stopwaitrx \<times> 'a) option" where
  "alone bo heap h [] ses = Some ses"
| "alone bo heap h (c # cs) ses =
     (case incommingCapsule bo script_send heap h c (fst ses) (snd ses) ([], []) of
        Some (Inr ((ok, ses'), _)) \<Rightarrow> if ok then alone bo heap h cs ses' else None
      | _ \<Rightarrow> None)"

definition is_from :: "byte_order \<Rightarrow> bytes \<times> u16 \<Rightarrow> u32 \<times> capsule \<Rightarrow> bool" where
  "is_from bo k x \<longleftrightarrow> fst x = SAN2_WAITFORCAPSULE_SUCCESS \<and> m_srcAddress (snd x) = fst k \<and>
     (case getPortsDS bo (snd x) of Some (_, p) \<Rightarrow> p = snd k | None \<Rightarrow> False)"

definition own :: "byte_order \<Rightarrow> bytes \<times> u16 \<Rightarrow> (u32 \<times> capsule) list \<Rightarrow> capsule list" where
  "own bo k waits = map snd (filter (is_from bo k) waits)"

lemma script_send_frame:
  "incommingCapsule bo script_send heap h c swr a (waits, sent) =
     (case incommingCapsule bo script_send heap h c swr a ([], []) of
        None \<Rightarrow> None | Some (Inl e) \<Rightarrow> Some (Inl e)
      | Some (Inr (r, _, out)) \<Rightarrow> ret (r, waits, sent @ out))"
  by (auto simp: incommingCapsule_def script_send_def Let_def ret_def split: option.splits prod.splits)

lemma incomming_needs_ports:
  "incommingCapsule bo sd heap h c swr a w = ret ((True, ses), w') \<Longrightarrow> \<exists>d p. getPortsDS bo c = Some (d, p)"
  by (cases "getPortsDS bo c") (auto simp: incommingCapsule_def Let_def split: if_splits)


definition ses_of :: "(bytes \<Rightarrow> u16 \<Rightarrow> stopwaitrx \<times> 'a) \<Rightarrow> 'a server \<Rightarrow> bytes \<times> u16 \<Rightarrow> stopwaitrx \<times> 'a" where
  "ses_of mk srv k = (case srv_sessions srv k of Some s \<Rightarrow> s | None \<Rightarrow> mk (fst k) (snd k))"

definition good_wait :: "byte_order \<Rightarrow> u32 \<times> capsule \<Rightarrow> bool" where
  "good_wait bo x \<longleftrightarrow> fst x \<noteq> SAN2_WAITFORCAPSULE_ERROR_INVOKE_FAILED \<and>
     (fst x = SAN2_WAITFORCAPSULE_SUCCESS \<longrightarrow> getPortsDS bo (snd x) \<noteq> None)"

lemma own_Cons: "own bo k (x # xs) = (if is_from bo k x then snd x # own bo k xs else own bo k xs)"
  by (simp add: own_def)

lemma getSession_eq:
  "getSession mk adr port st = (case st (adr, port) of
     Some s \<Rightarrow> (s, st) | None \<Rightarrow> (mk adr port, st((adr, port) \<mapsto> mk adr port)))"
  by (simp add: getSession_def Let_def split: option.split)

text \<open>One capsule, which its session accepts.\<close>

lemma server_round_accepts:
  assumes "is_from bo k (code, c)" and "incommingCapsule bo script_send heap h c (fst (ses_of mk srv k)) (snd (ses_of mk srv k)) ([], []) =
      ret ((ok, ses), [], out)"
  shows "server_round bo script_wait script_send heap h mk (srv, (code, c) # waits, sent) =
    ret (if ok then None else Some (-6), \<lparr>srv_sessions = (srv_sessions srv)(k \<mapsto> ses), srv_fromPort = Some (snd k)\<rparr>, waits, sent @ out)"
proof -
  obtain d where p: "code = SAN2_WAITFORCAPSULE_SUCCESS" "getPortsDS bo c = Some (d, snd k)" "k = (m_srcAddress c, snd k)"
    using assms(1) by (cases k) (auto simp: is_from_def split: option.splits)
  have run: "incommingCapsule bo script_send heap h c (fst (ses_of mk srv k)) (snd (ses_of mk srv k)) (waits, sent) =
      ret ((ok, ses), waits, sent @ out)"
    using assms(2) by (subst script_send_frame) (simp add: ret_def)
  obtain st where "getSession mk (m_srcAddress c) (snd k) (srv_sessions srv) = (ses_of mk srv k, st)"
    "st(k \<mapsto> ses) = (srv_sessions srv)(k \<mapsto> ses)"
    using p(3) by (cases k; cases "srv_sessions srv k") (auto simp: getSession_eq ses_of_def)
  then show ?thesis
    using p run by (cases "ses_of mk srv k") (simp add: server_round_def script_wait_def Let_def)
qed

lemma server_round_skips:
  assumes "good_wait bo (code, c)" and "code \<noteq> SAN2_WAITFORCAPSULE_SUCCESS"
  shows "server_round bo script_wait script_send heap h mk (srv, (code, c) # waits, sent) = ret (None, srv, waits, sent)"
  using assms by (simp add: server_round_def script_wait_def good_wait_def)

lemma server_prefix:
  assumes "\<forall>x \<in> set waits. good_wait bo x" and "\<forall>k. alone bo heap h (own bo k waits) (ses_of mk srv k) \<noteq> None"
  shows "\<exists>srv' sent'. (\<forall>more. server_loop bo script_wait script_send heap h mk (srv, waits @ more, sent) =
      server_loop bo script_wait script_send heap h mk (srv', more, sent')) \<and>
    (\<forall>k. srv_sessions srv' k = (if own bo k waits = [] then srv_sessions srv k
      else alone bo heap h (own bo k waits) (ses_of mk srv k)))"
  using assms
proof (induction waits arbitrary: srv sent)
  case Nil
  then show ?case by (auto simp: own_def)
next
  case (Cons x waits)
  obtain code c where x: "x = (code, c)" by (cases x)
  show ?case
  proof (cases "code = SAN2_WAITFORCAPSULE_SUCCESS")
    case False
    then have skip: "own bo k (x # waits) = own bo k waits" for k using x by (simp add: own_Cons is_from_def)
    have loop: "server_loop bo script_wait script_send heap h mk (srv, (x # waits) @ more, sent) =
        server_loop bo script_wait script_send heap h mk (srv, waits @ more, sent)" for more
      using server_round_skips [of bo code c] False Cons.prems(1) x
      unfolding server_loop_def by (intro io_loop_round) simp
    show ?thesis using Cons.IH [of srv sent] Cons.prems unfolding skip loop by simp
  next
    case True
    then obtain d p where ports: "getPortsDS bo c = Some (d, p)" using Cons.prems(1) x by (auto simp: good_wait_def)
    let ?k = "(m_srcAddress c, p)"
    have mine: "is_from bo k x \<longleftrightarrow> k = ?k" for k using x True ports by (cases k) (auto simp: is_from_def)
    then have frm: "is_from bo ?k (code, c)" using x by simp
    have "alone bo heap h (c # own bo ?k waits) (ses_of mk srv ?k) \<noteq> None"
      using Cons.prems(2) mine x by (metis own_Cons snd_conv)
    then obtain ses out where i: "incommingCapsule bo script_send heap h c (fst (ses_of mk srv ?k)) (snd (ses_of mk srv ?k)) ([], []) =
        ret ((True, ses), out)" and rest: "alone bo heap h (own bo ?k waits) ses \<noteq> None"
      by (auto simp: ret_def split: option.splits sum.splits if_splits)
    have "fst out = []" using script_send_frame [of bo heap h c "fst (ses_of mk srv ?k)" "snd (ses_of mk srv ?k)" "[]" "[]"] i
      by (cases out) (simp add: ret_def)
    then obtain b where out: "out = ([], b)" by (cases out) simp
    let ?srv = "\<lparr>srv_sessions = (srv_sessions srv)(?k \<mapsto> ses), srv_fromPort = Some (snd ?k)\<rparr>"
    have loop: "server_loop bo script_wait script_send heap h mk (srv, (x # waits) @ more, sent) =
        server_loop bo script_wait script_send heap h mk (?srv, waits @ more, sent @ b)" for more
      using server_round_accepts [OF frm i [unfolded out]] x unfolding server_loop_def by (intro io_loop_round) simp
    have first: "alone bo heap h (c # cs) (ses_of mk srv ?k) = alone bo heap h cs ses" for cs
      using i by (simp add: ret_def)
    have ses: "ses_of mk ?srv k = (if k = ?k then ses else ses_of mk srv k)" for k by (simp add: ses_of_def)
    have own: "own bo k (x # waits) = (if k = ?k then c # own bo k waits else own bo k waits)" for k
      using mine x by (simp add: own_Cons)
    have "\<forall>k. alone bo heap h (own bo k waits) (ses_of mk ?srv k) \<noteq> None"
    proof
      fix k
      show "alone bo heap h (own bo k waits) (ses_of mk ?srv k) \<noteq> None"
        using rest spec [OF Cons.prems(2), of k] own [of k] ses [of k] by (cases "k = ?k") simp_all
    qed
    then obtain srv' sent' where *: "\<forall>more. server_loop bo script_wait script_send heap h mk (?srv, waits @ more, sent @ b) =
        server_loop bo script_wait script_send heap h mk (srv', more, sent')"
      "\<forall>k. srv_sessions srv' k = (if own bo k waits = [] then srv_sessions ?srv k
        else alone bo heap h (own bo k waits) (ses_of mk ?srv k))"
      using Cons.IH [of ?srv "sent @ b"] Cons.prems(1) by auto
    have "srv_sessions srv' k = (if own bo k (x # waits) = [] then srv_sessions srv k
        else alone bo heap h (own bo k (x # waits)) (ses_of mk srv k))" for k
    proof (cases "k = ?k")
      case True
      then have "own bo k (x # waits) = c # own bo ?k waits" "ses_of mk ?srv k = ses" "srv_sessions ?srv k = Some ses"
        using own [of k] ses [of k] by simp_all
      then show ?thesis using spec [OF *(2), of ?k] first [of "own bo ?k waits"] True by (cases "own bo ?k waits = []") simp_all
    next
      case False
      then show ?thesis using spec [OF *(2), of k] own [of k] ses [of k] by simp
    qed
    then show ?thesis using *(1) unfolding loop by blast
  qed
qed


section \<open>Properties\<close>

lemma short_message_refused:
  assumes "4 \<le> length (m_data c)" and "length (m_data c) < 13"
  shows "incommingCapsule bo sd heap h c swr a w = ret ((False, swr, a), w)"
  using assms by (auto simp: incommingCapsule_def Let_def split: option.split)

text \<open>
  C5. The sessions do not interfere. Let capsules with ports, from any hosts and ports, arrive in any
  order, with timeouts and other errors in between, and let each session on its own accept what is
  from its client. Then the server serves them all until the connection to the node is lost, and each
  session ends as if the others did not exist. But a single capsule that is too
  short, of anyone, ends the server, with all sessions.
\<close>

lemma sessions_do_not_interfere:
  assumes "\<forall>x \<in> set waits. good_wait bo x"
    and "\<forall>k. alone bo heap h (own bo k waits) (mk (fst k) (snd k)) \<noteq> None"
  shows "(\<exists>srv sent. server_loop bo script_wait script_send heap h mk (empty_server, waits, []) = ret (-1, srv, [], sent) \<and>
      (\<forall>k. srv_sessions srv k = (if own bo k waits = [] then None
        else alone bo heap h (own bo k waits) (mk (fst k) (snd k))))) \<and>
    (\<forall>c more. getPortsDS bo c \<noteq> None \<and> length (m_data c) < 13 \<longrightarrow>
      (\<exists>srv sent. server_loop bo script_wait script_send heap h mk
        (empty_server, waits @ (SAN2_WAITFORCAPSULE_SUCCESS, c) # more, []) = ret (-6, srv, more, sent)))"
proof -
  have s: "ses_of mk empty_server k = mk (fst k) (snd k)" "srv_sessions empty_server k = None" for k
    by (simp_all add: ses_of_def empty_server_def)
  obtain srv sent where prefix: "\<And>more. server_loop bo script_wait script_send heap h mk (empty_server, waits @ more, []) =
      server_loop bo script_wait script_send heap h mk (srv, more, sent)"
    and sessions: "\<forall>k. srv_sessions srv k = (if own bo k waits = [] then None
      else alone bo heap h (own bo k waits) (mk (fst k) (snd k)))"
    using server_prefix [OF assms(1), of heap h mk empty_server "[]"] assms(2) unfolding s by blast
  have "server_round bo script_wait script_send heap h mk (srv, [], sent) = ret (Some (-1), srv, [], sent)"
    by (simp add: server_round_def script_wait_def SAN2_WAITFORCAPSULE_SUCCESS_def SAN2_WAITFORCAPSULE_ERROR_INVOKE_FAILED_def)
  then have "server_loop bo script_wait script_send heap h mk (empty_server, waits, []) = ret (-1, srv, [], sent)"
    using prefix [of "[]"] by (simp add: server_loop_def io_loop_leaves)
  moreover have "\<exists>srv sent. server_loop bo script_wait script_send heap h mk
      (empty_server, waits @ (SAN2_WAITFORCAPSULE_SUCCESS, c) # more, []) = ret (-6, srv, more, sent)"
    if c: "getPortsDS bo c \<noteq> None" "length (m_data c) < 13" for c more
  proof -
    obtain d p where ports: "getPortsDS bo c = Some (d, p)" using c(1) by auto
    then have frm: "is_from bo (m_srcAddress c, p) (SAN2_WAITFORCAPSULE_SUCCESS, c)" by (simp add: is_from_def)
    have "4 \<le> length (m_data c)" using ports by (auto simp: getPortsDS_def split: if_splits)
    from server_round_accepts [OF frm, of heap h mk srv False] short_message_refused [OF this c(2)]
    show ?thesis unfolding prefix by (fastforce simp: server_loop_def intro: io_loop_leaves)
  qed
  ultimately show ?thesis using sessions by blast
qed

lemma request_accepted:
  assumes "getPortsDS bo c = Some (d, rx_clientPort swr)" and "m_srcAddress c = rx_clientAddress swr"
    and "4 \<le> length (m_data c)" and "drop 4 (m_data c) = [0x53] @ pack_uint64 bo' (rx_expectedSeqNum swr) @ request"
    and "h (rx_expectedSeqNum swr) request a = ((True, response), a')"
  shows "\<exists>ses w. incommingCapsule bo script_send heap h c swr a ([], []) = ret ((True, ses), w)"
proof -
  let ?data = "[0x53] @ pack_uint64 bo' (rx_expectedSeqNum swr) @ request"
  have "\<not> length ?data < 9" "?data ! 0 = 0x53" "unpackUint64 bo ?data 1 = rx_expectedSeqNum swr" "drop 9 ?data = request"
    by (simp_all only: datagram_fields not_less)
  then show ?thesis
    using assms unfolding incommingCapsule_def Let_def assms(4) by (simp only: not_less [symmetric]) (simp add: script_send_def)
qed

text \<open>Two clients of an echo server, and somebody's short message.\<close>

definition sample_echo :: "unit handler" where
  "sample_echo = (\<lambda>sequenceNumber request a. ((True, request), a))"

definition sample_request :: "byte \<Rightarrow> capsule" where
  "sample_request a = setDSdata SAN_BIG_ENDIAN 2201 4000 ([0x53] @ pack_uint64 SAN_BIG_ENDIAN 1 @ [a])
     (setSourceAddress (replicate 32 a) sample_capsule)"

lemma sessions_do_not_interfere_witness:
  "\<exists>srv sent. server_loop SAN_BIG_ENDIAN script_wait script_send sample_capsule sample_echo
     (\<lambda>a p. (StopWaitRx (replicate 32 9) 2201 a p, ()))
     (empty_server, [(SAN2_WAITFORCAPSULE_SUCCESS, sample_request 1), (SAN2_WAITFORCAPSULE_TIMEOUT, sample_capsule),
        (SAN2_WAITFORCAPSULE_SUCCESS, sample_request 2)], []) = ret (-1, srv, [], sent) \<and>
     srv_sessions srv (replicate 32 2, 4000) \<noteq> None \<and> srv_sessions srv (replicate 32 3, 4000) = None"
proof -
  let ?mk = "\<lambda>a p. (StopWaitRx (replicate 32 9) 2201 a p, ())"
  let ?waits = "[(SAN2_WAITFORCAPSULE_SUCCESS, sample_request 1), (SAN2_WAITFORCAPSULE_TIMEOUT, sample_capsule),
        (SAN2_WAITFORCAPSULE_SUCCESS, sample_request 2)]"
  have ports: "getPortsDS SAN_BIG_ENDIAN (sample_request a) = Some (2201, 4000)" "m_srcAddress (sample_request a) = replicate 32 a" for a
    by (simp_all add: sample_request_def step_simps getPortsDS_def cu16.dec_front cu16.dec_two [of _ _ 2] cu16.enc_width)
  have good: "\<forall>x \<in> set ?waits. good_wait SAN_BIG_ENDIAN x"
    using ports by (simp add: good_wait_def SAN2_WAITFORCAPSULE_SUCCESS_def SAN2_WAITFORCAPSULE_TIMEOUT_def
        SAN2_WAITFORCAPSULE_ERROR_INVOKE_FAILED_def)
  have own: "own SAN_BIG_ENDIAN k ?waits = (if k = (replicate 32 1, 4000) then [sample_request 1]
      else if k = (replicate 32 2, 4000) then [sample_request 2] else [])" for k
    using ports by (cases k) (auto simp: own_def is_from_def SAN2_WAITFORCAPSULE_SUCCESS_def SAN2_WAITFORCAPSULE_TIMEOUT_def
        replicate_eq_replicate)
  have accepts: "alone SAN_BIG_ENDIAN sample_capsule sample_echo [sample_request a] (?mk (replicate 32 a) 4000) \<noteq> None" for a
  proof -
    have "drop 4 (m_data (sample_request a)) = [0x53] @ pack_uint64 SAN_BIG_ENDIAN 1 @ [a]" "4 \<le> length (m_data (sample_request a))"
      unfolding sample_request_def by (rule ds_data)+
    then obtain ses w where "incommingCapsule SAN_BIG_ENDIAN script_send sample_capsule sample_echo (sample_request a)
        (StopWaitRx (replicate 32 9) 2201 (replicate 32 a) 4000) () ([], []) = ret ((True, ses), w)"
      using request_accepted [of SAN_BIG_ENDIAN "sample_request a" 2201 "StopWaitRx (replicate 32 9) 2201 (replicate 32 a) 4000"
          SAN_BIG_ENDIAN "[a]" sample_echo "()" "[a]" "()" sample_capsule] ports [of a]
      by (auto simp: StopWaitRx_def sample_echo_def)
    then show ?thesis by (simp add: ret_def)
  qed
  have "\<forall>k. alone SAN_BIG_ENDIAN sample_capsule sample_echo (own SAN_BIG_ENDIAN k ?waits) (?mk (fst k) (snd k)) \<noteq> None"
    using accepts own by simp
  from sessions_do_not_interfere [OF good this]
  obtain srv sent where "server_loop SAN_BIG_ENDIAN script_wait script_send sample_capsule sample_echo ?mk (empty_server, ?waits, []) =
      ret (-1, srv, [], sent)" and s: "\<forall>k. srv_sessions srv k = (if own SAN_BIG_ENDIAN k ?waits = [] then None
      else alone SAN_BIG_ENDIAN sample_capsule sample_echo (own SAN_BIG_ENDIAN k ?waits) (?mk (fst k) (snd k)))"
    by blast
  moreover have "own SAN_BIG_ENDIAN (replicate 32 2, 4000) ?waits = [sample_request 2]"
    "own SAN_BIG_ENDIAN (replicate 32 3, 4000) ?waits = []" unfolding own by (simp_all add: replicate_eq_replicate)
  ultimately show ?thesis using accepts [of 2] by auto
qed

end
