(* ===== verification/TcpInterface.thy ===== *)
theory TcpInterface
  imports Node
begin

text \<open>
  The link between two nodes: \<^verbatim>\<open>src/interfaces/tcp/ctcpinterface.cpp\<close> sends,
  \<^verbatim>\<open>src/interfaces/tcp/ccapsulereceiver.cpp\<close> receives, over the connections of
  \<^verbatim>\<open>src/tcp/ctcpclient.cpp\<close> and \<^verbatim>\<open>src/tcp/csingletcpserver.cpp\<close>. The lemmas show what the
  greeting tells, that a link carries the capsules of an output queue into the input queue of
  the neighbour, which capsule a broken connection costs, and that the server outlives its
  connections.
\<close>

section \<open>\<^verbatim>\<open>StreamRpcChannel\<close> over a TCP stream\<close>

definition tcp_send :: "byte_order \<Rightarrow> socket sender" where
  "tcp_send bo = stream_sendDatagram bo tcp_writeSome"

definition tcp_recv :: "byte_order \<Rightarrow> u32 \<Rightarrow> nat \<Rightarrow> socket receiver" where
  "tcp_recv bo mx timeoutMsec = stream_recvDatagram bo (tcp_readSomeAppend mx) mx timeoutMsec"

definition CTCP_INTERFACE_MAX_SINGLE_READ_SIZE :: u32 where
  "CTCP_INTERFACE_MAX_SINGLE_READ_SIZE = 2000"

section \<open>\<^verbatim>\<open>CTcpClient::open\<close>\<close>

text \<open>
  What the addresses that \<^verbatim>\<open>getaddrinfo\<close> found lead to; no list when it fails. A socket that is
  not open stands for \<^verbatim>\<open>SNET_BADSOCKET\<close>.
\<close>

datatype candidate = NoSocket | NoConnect | Connects socket

definition SNET_BADSOCKET :: socket where
  "SNET_BADSOCKET = \<lparr>is_open = False, rx = [], tx = [], wire = []\<rparr>"

fun connect_first :: "candidate list \<Rightarrow> socket option" where
  "connect_first [] = None"
| "connect_first (NoSocket # cs) = connect_first cs"
| "connect_first (NoConnect # cs) = connect_first cs"
| "connect_first (Connects s # cs) = Some s"

definition tcpclient_open :: "candidate list option \<Rightarrow> ErrorCode \<times> socket" where
  "tcpclient_open servinfo =
     (case servinfo of
        None \<Rightarrow> (FAILURE, SNET_BADSOCKET)
      | Some cs \<Rightarrow> (case connect_first cs of None \<Rightarrow> (FAILURE, SNET_BADSOCKET) | Some s \<Rightarrow> (SUCCESS, s)))"

section \<open>The sender: \<^verbatim>\<open>CTcpInterface\<close>\<close>

text \<open>
  \<open>ti_stops\<close> holds the answers of \<^verbatim>\<open>isTerminated()\<close> to come, one for each call in \<^verbatim>\<open>run\<close>
  and one for each call of \<^verbatim>\<open>try_pop\<close>; \<open>ti_opens\<close> what each call of \<^verbatim>\<open>open\<close> will meet;
  \<open>ti_wakes\<close> what the other threads put into the output queue during the waits.
\<close>

record tcpif =
  ti_iface :: iface
  ti_sock :: socket
  ti_opens :: "candidate list option list"
  ti_stops :: "bool list"
  ti_wakes :: "capsule wake list"

definition CTcpInterface :: "bytes \<Rightarrow> u64 \<Rightarrow> tcpif" where
  "CTcpInterface sanaddr maxOutputQueueSize =
     \<lparr>ti_iface = \<lparr>if_address = sanaddr, if_peer = sanDefaultAddress, if_rx = DISCONNECTED, if_tx = DISCONNECTED,
        if_queue = [], if_max = maxOutputQueueSize\<rparr>,
      ti_sock = SNET_BADSOCKET, ti_opens = [], ti_stops = [], ti_wakes = []\<rparr>"

definition firstMessage :: "bytes \<Rightarrow> bytes" where
  "firstMessage addr = copy_at 4 addr (resize (4 + sanAddressSize) 0 [0x53, 0x41, 0x4E, 0x32])"

definition setPeerAddress :: "bytes \<Rightarrow> iface \<Rightarrow> iface" where
  "setPeerAddress address i = i\<lparr>if_peer := address\<rparr>"

definition setTXstate :: "line_status \<Rightarrow> tcpif \<Rightarrow> tcpif" where
  "setTXstate st t = t\<lparr>ti_iface := (ti_iface t)\<lparr>if_tx := st\<rparr>\<rparr>"

definition isTerminated :: "tcpif \<Rightarrow> (bool \<times> tcpif) io" where
  "isTerminated t = (case ti_stops t of [] \<Rightarrow> None | b # bs \<Rightarrow> ret (b, t\<lparr>ti_stops := bs\<rparr>))"

definition on_socket :: "(socket \<Rightarrow> (bool \<times> socket) io) \<Rightarrow> tcpif \<Rightarrow> (bool \<times> tcpif) io" where
  "on_socket f t = io_bind (f (ti_sock t)) (\<lambda>(ok, s). ret (ok, t\<lparr>ti_sock := s\<rparr>))"

text \<open>
  The innermost loop asks the output queue for a capsule; while it gives none, the connection is
  tried out with a call that does nothing.
\<close>

datatype popping = Popped capsule | ConnectionLost | TxTerminated

definition tx_try :: "byte_order \<Rightarrow> tcpif \<Rightarrow> (popping option \<times> tcpif) io" where
  "tx_try bo t =
     io_bind (isTerminated t) (\<lambda>(stopped, t).
       case run_call (if_max (ti_iface t)) stopped TryPop (if_queue (ti_iface t)) (ti_wakes t) of
         None \<Rightarrow> None
       | Some ((rval, out), q, ws) \<Rightarrow>
           let t = t\<lparr>ti_iface := (ti_iface t)\<lparr>if_queue := q\<rparr>, ti_wakes := ws\<rparr>
           in if rval = 0
              then (case out of None \<Rightarrow> Some (Inl NullPointer) | Some capsule \<Rightarrow> ret (Some (Popped capsule), t))
              else io_bind (isTerminated t) (\<lambda>(stopped, t).
                     if stopped then ret (Some TxTerminated, setTXstate LINE_FAILURE t)
                     else io_bind (on_socket (invokeFunction bo (tcp_send bo) AliveFuncOut ()) t) (\<lambda>(ok, t).
                            if \<not> ok then ret (Some ConnectionLost, setTXstate DISCONNECTED t)
                            else ret (None, t))))"

text \<open>The loop of a connection: true leaves \<^verbatim>\<open>run\<close>, false only the loop.\<close>

definition tx_deliver :: "byte_order \<Rightarrow> popping \<Rightarrow> tcpif \<Rightarrow> (bool option \<times> tcpif) io" where
  "tx_deliver bo p t =
     (case p of
        TxTerminated \<Rightarrow> ret (Some True, t)
      | ConnectionLost \<Rightarrow> ret (Some False, t)
      | Popped capsule \<Rightarrow>
          io_bind (on_socket (invokeFunction bo (tcp_send bo) SendCapsuleFuncOut (setCapsuleToSend bo capsule)) t)
            (\<lambda>(rval, t). if \<not> rval then ret (Some False, setTXstate DISCONNECTED t) else ret (None, t)))"

definition tx_one :: "byte_order \<Rightarrow> tcpif \<Rightarrow> (bool option \<times> tcpif) io" where
  "tx_one bo t =
     io_bind (isTerminated t) (\<lambda>(stopped, t).
       if stopped then ret (Some False, t)
       else io_bind (io_loop (tx_try bo) t) (\<lambda>(p, t). tx_deliver bo p t))"

text \<open>The outer loop connects again whenever a connection is lost; waiting before a new try is time only.\<close>

definition tx_connect :: "byte_order \<Rightarrow> tcpif \<Rightarrow> (unit option \<times> tcpif) io" where
  "tx_connect bo t =
     io_bind (isTerminated t) (\<lambda>(stopped, t).
       if stopped then ret (Some (), t)
       else case ti_opens t of
           [] \<Rightarrow> None
         | servinfo # os \<Rightarrow>
             (case tcpclient_open servinfo of (code, s) \<Rightarrow>
                let t = t\<lparr>ti_sock := s, ti_opens := os\<rparr>
                in if code \<noteq> SUCCESS then ret (None, t)
                   else io_bind (on_socket (writeAll tcp_writeSome (firstMessage (if_address (ti_iface t)))) t) (\<lambda>(ok, t).
                          if \<not> ok then ret (None, t)
                          else io_bind (io_loop (tx_one bo) (setTXstate CONNECTED t)) (\<lambda>(returned, t).
                                 if returned then ret (Some (), t) else ret (None, t)))))"

text \<open>
  Registering needs only the ids of the two functions: the invoker's factories make objects whose
  state differs.
\<close>

definition registered_as :: "'f funcOut \<Rightarrow> unit funcOut" where
  "registered_as f = \<lparr>out_getUniqueId = out_getUniqueId f, out_pack = (\<lambda>_. (True, []))\<rparr>"

definition no_invoker :: "'f invoker" where
  "no_invoker = \<lparr>i_functions = (\<lambda>_. None), i_syncFunctions = (\<lambda>_. None)\<rparr>"

definition tcpif_run :: "byte_order \<Rightarrow> tcpif \<Rightarrow> (unit \<times> tcpif) io" where
  "tcpif_run bo t =
     (case invoker_registerFunction (registered_as SendCapsuleFuncOut) no_invoker of
        (r, iv) \<Rightarrow>
          if \<not> r then ret ((), setTXstate LINE_FAILURE t)
          else (case invoker_registerFunction AliveFuncOut iv of
                  (r, iv) \<Rightarrow>
                    if \<not> r then ret ((), setTXstate LINE_FAILURE t) else io_loop (tx_connect bo) t))"

section \<open>The receiver: \<^verbatim>\<open>CCapsuleReceiver\<close>\<close>

definition parseFirstMessage :: "bytes \<Rightarrow> iface \<Rightarrow> bool \<times> iface" where
  "parseFirstMessage data i =
     (if length data \<noteq> 4 + sanAddressSize then (False, i)
      else if data ! 0 \<noteq> 0x53 then (False, i)
      else if data ! 1 \<noteq> 0x41 then (False, i)
      else if data ! 2 \<noteq> 0x4E then (False, i)
      else if data ! 3 \<noteq> 0x32 then (False, i)
      else (True, setPeerAddress (drop 4 data) i))"

text \<open>
  The receiver's \<^verbatim>\<open>SendCapsuleFuncIn\<close> keeps a reference to the value that \<^verbatim>\<open>getInterfaceAddress()\<close>
  returned, a temporary that is gone when the function object has been made. \<open>stale\<close> is what a read
  through this reference gives: C++ defines nothing, so it may be a fault, or any bytes, others at
  each read, as the state differs at each read.
\<close>

type_synonym 'q stale_read = "'q service \<Rightarrow> bytes run"

definition receiver_SendCapsuleFuncIn :: "byte_order \<Rightarrow> 'q stale_read \<Rightarrow> 'q service funcIn" where
  "receiver_SendCapsuleFuncIn bo stale =
     \<lparr>in_getUniqueId = 1, in_unpack = SendCapsuleFuncIn_unpack, in_call = SendCapsuleFuncIn_operator bo stale\<rparr>"

definition receiver_functions :: "byte_order \<Rightarrow> 'q stale_read \<Rightarrow> 'q service executor \<Rightarrow> bool \<times> 'q service executor" where
  "receiver_functions bo stale ex =
     (case exec_registerFunction (receiver_SendCapsuleFuncIn bo stale) ex of (r, ex) \<Rightarrow>
        if \<not> r then (False, ex) else exec_registerFunction AliveFuncIn ex)"

text \<open>
  \<^verbatim>\<open>receive\<close>, for one connection. The functions push into the node's queue and stop with
  the receiver's thread; that is the part of a service that \<open>sv\<close> holds. \<open>fid\<close> is the
  uninitialised \<^verbatim>\<open>functionId\<close> of the executor's loop.
\<close>

definition receiver_receive :: "byte_order \<Rightarrow> u32 \<Rightarrow> 'q stale_read \<Rightarrow> iface \<Rightarrow> 'q service \<Rightarrow> socket \<Rightarrow>
    (ErrorCode \<times> iface \<times> 'q service \<times> socket) io" where
  "receiver_receive bo fid stale i sv s =
     (let i = i\<lparr>if_rx := DISCONNECTED\<rparr>
      in case receiver_functions bo stale no_functions of
           (r, ex) \<Rightarrow>
             if \<not> r then ret (FAILURE, i\<lparr>if_rx := LINE_FAILURE\<rparr>, sv, s)
             else
               io_bind (readExactNumBytesAppend (tcp_readSomeAppend 2000) 2000 [] (word_of_nat (4 + sanAddressSize)) s)
                 (\<lambda>((ok, data), s).
                   if \<not> ok then ret (SUCCESS, i, sv, s)
                   else case parseFirstMessage data i of
                       (ok, i) \<Rightarrow>
                         if \<not> ok then ret (SUCCESS, i, sv, s)
                         else
                           let i = i\<lparr>if_rx := CONNECTED\<rparr>
                           in io_bind (exec_run bo (tcp_send bo) (tcp_recv bo 2000 5000) executor_terminated ex fid sv s) (\<lambda>(sv, s).
                                ret (SUCCESS, setPeerAddress sanDefaultAddress (i\<lparr>if_rx := DISCONNECTED\<rparr>), sv, s))))"

section \<open>The server of the receiver: \<^verbatim>\<open>CSingleTcpServer::runProc\<close>\<close>

text \<open>The candidates for the listening socket, and whether \<^verbatim>\<open>listen\<close> succeeds on the first that binds.\<close>

datatype binding = BindNoSocket | BindNoReuse | BindFails | Binds bool

fun bind_first :: "binding list \<Rightarrow> bool" where
  "bind_first [] = False"
| "bind_first (BindNoSocket # bs) = bind_first bs"
| "bind_first (BindNoReuse # bs) = False"
| "bind_first (BindFails # bs) = bind_first bs"
| "bind_first (Binds listens # bs) = listens"

text \<open>
  The state of the accept loop: the answers of \<^verbatim>\<open>isTerminated()\<close> and the results of
  \<^verbatim>\<open>accept\<close> to come, nothing for an error, and what \<^verbatim>\<open>receive\<close> works on.
\<close>

record 'a acceptor =
  ac_stops :: "bool list"
  ac_accepts :: "socket option list"
  ac_state :: 'a

definition accept_round :: "('a \<Rightarrow> socket \<Rightarrow> (ErrorCode \<times> 'a) io) \<Rightarrow> 'a acceptor \<Rightarrow> (ErrorCode option \<times> 'a acceptor) io" where
  "accept_round handler ac =
     (case ac_stops ac of
        [] \<Rightarrow> None
      | True # bs \<Rightarrow> ret (Some SUCCESS, ac\<lparr>ac_stops := bs\<rparr>)
      | False # bs \<Rightarrow>
          (case (ac_accepts ac, bs) of
             (r # rs, stopped # bs) \<Rightarrow>
               let ac = ac\<lparr>ac_stops := bs, ac_accepts := rs\<rparr>
               in if stopped then ret (Some SUCCESS, ac)
                  else (case r of
                      None \<Rightarrow> ret (None, ac)
                    | Some s \<Rightarrow>
                        io_bind (handler (ac_state ac) s) (\<lambda>(rc, a).
                          let ac = ac\<lparr>ac_state := a\<rparr>
                          in if rc \<noteq> SUCCESS then ret (Some rc, ac) else ret (None, ac)))
           | _ \<Rightarrow> None))"

definition single_runProc :: "binding list option \<Rightarrow> ('a \<Rightarrow> socket \<Rightarrow> (ErrorCode \<times> 'a) io) \<Rightarrow> 'a acceptor \<Rightarrow>
    (ErrorCode \<times> 'a acceptor) io" where
  "single_runProc servinfo handler ac =
     (case servinfo of
        None \<Rightarrow> ret (FAILURE, ac)
      | Some bs \<Rightarrow> if \<not> bind_first bs then ret (FAILURE, ac) else io_loop (accept_round handler) ac)"

definition receiver_handler :: "byte_order \<Rightarrow> u32 \<Rightarrow> 'q stale_read \<Rightarrow> iface \<times> 'q service \<Rightarrow> socket \<Rightarrow> (ErrorCode \<times> iface \<times> 'q service) io" where
  "receiver_handler bo fid stale a s =
     io_bind (receiver_receive bo fid stale (fst a) (snd a) s) (\<lambda>(rc, i, sv, s). ret (rc, i, sv))"

definition receiver_server :: "byte_order \<Rightarrow> u32 \<Rightarrow> 'q stale_read \<Rightarrow> binding list option \<Rightarrow> (iface \<times> 'q service) acceptor \<Rightarrow>
    (ErrorCode \<times> (iface \<times> 'q service) acceptor) io" where
  "receiver_server bo fid stale servinfo ac = single_runProc servinfo (receiver_handler bo fid stale) ac"

section \<open>The TCP stream is a transport\<close>

definition tcp_ready :: "u32 \<Rightarrow> socket \<Rightarrow> bytes list \<Rightarrow> nat \<Rightarrow> bool" where
  "tcp_ready mx s ms k \<longleftrightarrow> mx \<noteq> 0 \<and> tcp_ok mx s \<and> tcp_closed s \<and> tcp_sends s \<and>
     tcp_pending s = concat (map frame ms) \<and> (\<forall>m \<in> set ms. length m < 2 ^ 32) \<and> k \<le> tx_room (tx s)"

text \<open>Reading leaves the sending side alone, and writing the receiving side.\<close>

lemma tcp_read_keeps: "tcp_readSomeAppend mx n out s = ret (v, s') \<Longrightarrow> rx_update (\<lambda>_. []) s' = rx_update (\<lambda>_. []) s"
  by (auto simp: tcp_readSomeAppend_def sock_read_stream_def ret_def split: option.splits if_splits)

lemma tcp_write_keeps:
  "tcp_writeSome data s = ret (v, s') \<Longrightarrow> (is_open s', rx s') = (is_open s, rx s)"
  by (auto simp: tcp_writeSome_def Let_def sock_sendall_stream_def sendall_def ret_def split: option.splits if_splits)

lemma tcp_side_eq: "rx_update (\<lambda>_. []) s' = rx_update (\<lambda>_. []) s \<Longrightarrow> tcp_sends s' = tcp_sends s \<and> tx s' = tx s \<and> wire s' = wire s"
  by (cases s; cases s') (simp add: tcp_sends_def)

interpretation tcp: rpc_transport "tcp_send bo" "tcp_recv bo mx t" "tcp_ready mx" wire for bo mx t
proof (standard, goal_cases)
  case (1 s m ms k)
  then obtain s' where r: "readMessage bo (tcp_readSomeAppend mx) mx s = ret ((True, m), s')"
    "tcp_pending s' = concat (map frame ms)" "tcp_ok mx s'" "tcp_closed s'"
    using tcp_src.readMessage_frame [of mx s m "concat (map frame ms)" bo] by (auto simp: tcp_ready_def)
  then have "rx_update (\<lambda>_. []) s' = rx_update (\<lambda>_. []) s"
    using readMessage_keeps [of "tcp_readSomeAppend mx" "rx_update (\<lambda>_. [])"] tcp_read_keeps by blast
  then show ?case
    using 1 r tcp_side_eq [of s' s] by (intro exI [of _ s'])
      (simp add: tcp_recv_def stream_recvDatagram_def tcp_ready_def)
next
  case (2 s k)
  then obtain out s' where r: "readMessage bo (tcp_readSomeAppend mx) mx s = ret ((False, out), s')"
    using tcp_src.readMessage_truncated [of mx s "[]" "frame []" bo] by (auto simp: tcp_ready_def)
  then have "rx_update (\<lambda>_. []) s' = rx_update (\<lambda>_. []) s"
    using readMessage_keeps [of "tcp_readSomeAppend mx" "rx_update (\<lambda>_. [])"] tcp_read_keeps by blast
  then show ?case using r tcp_side_eq [of s' s]
    by (auto simp: tcp_recv_def stream_recvDatagram_def)
next
  case (3 s ms k m)
  then have "length (frame m) < 2 ^ 31" "length (frame m) \<le> tx_room (tx s)" "tcp_sends s"
    by (auto simp: frame_def tcp_ready_def)
  then obtain s' where w: "writeMessage bo tcp_writeSome m s = ret (True, s')"
    "wire s' = wire s @ frame m" "tcp_sends s'" "tx_room (tx s) - length (frame m) \<le> tx_room (tx s')"
    using tcp_snk.writeAll_writes [of s "frame m"] by (auto simp: writeMessage_frame)
  then have "(is_open s', rx s') = (is_open s, rx s)"
    using writeMessage_keeps [of tcp_writeSome "\<lambda>s. (is_open s, rx s)"] tcp_write_keeps by blast
  then show ?case
    using 3 w by (intro exI [of _ s'])
      (auto simp: tcp_send_def stream_sendDatagram_def tcp_ready_def tcp_ok_def tcp_closed_def tcp_pending_def frame_def)
qed

text \<open>A call on a healthy connection goes out as one frame.\<close>

lemma tcp_invoke:
  assumes "tcp_sends s" and "out_pack func f = (True, b)" and "out_getUniqueId func \<le> SAN_RPC_MAX_FID"
    and "length b + 6 < 2 ^ 31" and "length b + 6 \<le> tx_room (tx s)"
  shows "\<exists>s'. invokeFunction bo (tcp_send bo) func f s = ret (True, s') \<and> tcp_sends s' \<and>
    wire s' = wire s @ frame (rpc_datagram (out_getUniqueId func) b) \<and> tx_room (tx s) - (length b + 6) \<le> tx_room (tx s')"
proof -
  let ?m = "rpc_datagram (out_getUniqueId func) b"
  have "length (frame ?m) = length b + 6" by (simp add: frame_def)
  then obtain s' where "writeMessage bo tcp_writeSome ?m s = ret (True, s')"
    "wire s' = wire s @ frame ?m" "tcp_sends s'" "tx_room (tx s) - (length b + 6) \<le> tx_room (tx s')"
    using tcp_snk.writeAll_writes [of s "frame ?m"] assms by (auto simp: writeMessage_frame)
  then show ?thesis
    using assms(2) leD [OF assms(3)] by (simp add: invokeFunction_def sendData_datagram tcp_send_def stream_sendDatagram_def)
qed

section \<open>The greeting\<close>

lemma firstMessage_eq: "length a = sanAddressSize \<Longrightarrow> firstMessage a = [0x53, 0x41, 0x4E, 0x32] @ a"
  by (simp add: firstMessage_def copy_at_def resize_def sanAddressSize_def)

lemma length_firstMessage [simp]: "length a = sanAddressSize \<Longrightarrow> length (firstMessage a) = 36"
  by (simp add: firstMessage_eq sanAddressSize_def)

lemma parseFirstMessage_iff:
  "fst (parseFirstMessage d i) \<longleftrightarrow> (\<exists>a. length a = sanAddressSize \<and> d = firstMessage a)"
proof
  assume p: "fst (parseFirstMessage d i)"
  then have len: "length d = 4 + sanAddressSize" by (auto simp: parseFirstMessage_def split: if_splits)
  have "d = take 4 d @ drop 4 d" by simp
  also have "take 4 d = [d ! 0, d ! 1, d ! 2, d ! 3]"
    using len by (intro nth_equalityI) (auto simp: sanAddressSize_def less_Suc_eq numeral_eq_Suc)
  finally have "d = [0x53, 0x41, 0x4E, 0x32] @ drop 4 d"
    using p by (simp add: parseFirstMessage_def split: if_splits)
  then show "\<exists>a. length a = sanAddressSize \<and> d = firstMessage a"
    using len firstMessage_eq [of "drop 4 d"] by (intro exI [of _ "drop 4 d"]) simp
next
  assume "\<exists>a. length a = sanAddressSize \<and> d = firstMessage a"
  then show "fst (parseFirstMessage d i)"
    by (auto simp: firstMessage_eq parseFirstMessage_def)
qed

lemma parse_first [simp]:
  "length a = sanAddressSize \<Longrightarrow> parseFirstMessage (firstMessage a) i = (True, i\<lparr>if_peer := a\<rparr>)"
  by (simp add: firstMessage_eq parseFirstMessage_def setPeerAddress_def)

section \<open>What a link carries\<close>

text \<open>
  The output queue holds \<open>q\<close>; during the waits the other threads put more into it, and some
  waits time out. These are the calls that go out.
\<close>

definition send_calls :: "byte_order \<Rightarrow> capsule list \<Rightarrow> (u32 \<times> bytes) list" where
  "send_calls bo cs = map (\<lambda>c. (1, capsule_pack bo c)) cs"

definition link_calls :: "byte_order \<Rightarrow> capsule list \<Rightarrow> capsule wake list \<Rightarrow> (u32 \<times> bytes) list" where
  "link_calls bo q ws = send_calls bo q @
     concat (map (\<lambda>(timedout, _, q). (if timedout then [(2, [])] else []) @ send_calls bo q) ws)"

definition link_capsules :: "capsule list \<Rightarrow> capsule wake list \<Rightarrow> capsule list" where
  "link_capsules q ws = q @ concat (map (\<lambda>(_, _, q). q) ws)"

definition calls_wire :: "(u32 \<times> bytes) list \<Rightarrow> bytes" where
  "calls_wire reqs = concat (map frame (requests reqs))"

lemma calls_wire_simps [simp]:
  "calls_wire [] = []" "calls_wire (r # rs) = frame (rpc_datagram (fst r) (snd r)) @ calls_wire rs"
  "calls_wire (rs @ rs') = calls_wire rs @ calls_wire rs'"
  by (simp_all add: calls_wire_def requests_def split_beta)

lemma length_calls_wire_Cons: "length (calls_wire (r # rs)) = length (snd r) + 6 + length (calls_wire rs)"
  by (simp add: frame_def)

definition wakes_fair :: "capsule wake list \<Rightarrow> bool" where
  "wakes_fair ws \<longleftrightarrow> (\<forall>(_, stopped, q) \<in> set ws. \<not> stopped \<and> length q < 2 ^ 32)"

definition link_fits :: "byte_order \<Rightarrow> capsule list \<Rightarrow> bool" where
  "link_fits bo cs \<longleftrightarrow> (\<forall>c \<in> set cs. length (capsule_pack bo c) + 6 < 2 ^ 31)"

text \<open>The loop of a connection from the call of \<^verbatim>\<open>try_pop\<close> on.\<close>

definition tx_rest :: "byte_order \<Rightarrow> tcpif \<Rightarrow> (bool \<times> tcpif) io" where
  "tx_rest bo t = io_bind (io_loop (tx_try bo) t) (\<lambda>(p, t). io_bind (tx_deliver bo p t) (\<lambda>(r, t).
     case r of Some x \<Rightarrow> ret (x, t) | None \<Rightarrow> io_loop (tx_one bo) t))"

lemma tx_one_rest: "ti_stops t = False # bs \<Longrightarrow> io_loop (tx_one bo) t = tx_rest bo (t\<lparr>ti_stops := bs\<rparr>)"
  by (subst io_loop.simps)
    (auto simp: tx_one_def tx_rest_def isTerminated_def io_bind_def ret_def split: option.splits sum.splits)

lemma tx_rest_round: "tx_try bo t = ret (None, t') \<Longrightarrow> tx_rest bo t = tx_rest bo t'"
  by (simp add: tx_rest_def io_loop_round)

lemma tx_rest_same: "tx_try bo t = tx_try bo t' \<Longrightarrow> tx_rest bo t = tx_rest bo t'"
  unfolding tx_rest_def by (subst (1 2) io_loop.simps) simp

lemma tx_rest_leaves:
  "tx_try bo t = ret (Some p, t') \<Longrightarrow> tx_rest bo t =
    io_bind (tx_deliver bo p t') (\<lambda>(r, t). case r of Some x \<Rightarrow> ret (x, t) | None \<Rightarrow> io_loop (tx_one bo) t)"
  by (simp add: tx_rest_def io_loop_leaves)

lemma tx_try_pop:
  "ti_stops t = False # bs \<Longrightarrow> if_queue (ti_iface t) = c # q \<Longrightarrow> length (c # q) < 2 ^ 32 \<Longrightarrow>
    tx_try bo t = ret (Some (Popped c), t\<lparr>ti_iface := (ti_iface t)\<lparr>if_queue := q\<rparr>, ti_stops := bs\<rparr>)"
  using isEmpty_iff [of "c # q"] by (simp add: tx_try_def isTerminated_def run_call_def pop_item_def)

lemma run_call_woken: "run_call mx False TryPop [] ((False, False, q) # ws) = run_call mx False TryPop q ws"
  by (simp add: run_call_def isEmpty_def)

lemma tx_try_woken:
  "ti_stops t = False # bs \<Longrightarrow> if_queue (ti_iface t) = [] \<Longrightarrow> ti_wakes t = (False, False, q) # ws \<Longrightarrow>
    tx_try bo t = tx_try bo (t\<lparr>ti_iface := (ti_iface t)\<lparr>if_queue := q\<rparr>, ti_wakes := ws\<rparr>)"
  by (cases "run_call (if_max (ti_iface t)) False TryPop q ws")
    (auto simp: tx_try_def isTerminated_def run_call_woken Let_def)

lemma tx_try_idle:
  assumes "ti_stops t = False # False # bs" and "if_queue (ti_iface t) = []" and "ti_wakes t = (True, stopped, q) # ws"
    and "invokeFunction bo (tcp_send bo) AliveFuncOut () (ti_sock t) = ret (True, s)"
  shows "tx_try bo t = ret (None, t\<lparr>ti_iface := (ti_iface t)\<lparr>if_queue := q\<rparr>, ti_sock := s, ti_stops := bs, ti_wakes := ws\<rparr>)"
  using assms by (simp add: tx_try_def isTerminated_def run_call_def isEmpty_def on_socket_def)

lemma tx_try_end:
  "ti_stops t = False # True # bs \<Longrightarrow> if_queue (ti_iface t) = [] \<Longrightarrow> ti_wakes t = (False, True, q) # ws \<Longrightarrow>
    tx_try bo t = ret (Some TxTerminated,
      setTXstate LINE_FAILURE (t\<lparr>ti_iface := (ti_iface t)\<lparr>if_queue := q\<rparr>, ti_stops := bs, ti_wakes := ws\<rparr>))"
  by (simp add: tx_try_def isTerminated_def run_call_def isEmpty_def setTXstate_def)

lemma on_socket_ret: "f (ti_sock t) = ret (b, s) \<Longrightarrow> on_socket f t = ret (b, t\<lparr>ti_sock := s\<rparr>)"
  by (simp add: on_socket_def)

text \<open>What one run of the loop promises; a capsule at the front of the queue goes out first.\<close>

definition tx_goal :: "byte_order \<Rightarrow> tcpif \<Rightarrow> (u32 \<times> bytes) list \<Rightarrow> bool" where
  "tx_goal bo t calls \<longleftrightarrow> (\<exists>t'. tx_rest bo t = ret (True, t') \<and>
      wire (ti_sock t') = wire (ti_sock t) @ calls_wire calls \<and>
      ti_iface t' = (ti_iface t)\<lparr>if_queue := [], if_tx := LINE_FAILURE\<rparr> \<and> ti_opens t' = ti_opens t)"

definition tx_start :: "byte_order \<Rightarrow> tcpif \<Rightarrow> capsule list \<Rightarrow> capsule wake list \<Rightarrow> bool" where
  "tx_start bo t q ws \<longleftrightarrow> wakes_fair ws \<and> length q < 2 ^ 32 \<and> link_fits bo (link_capsules q ws) \<and>
     if_queue (ti_iface t) = q \<and> ti_wakes t = ws @ [(False, True, [])] \<and>
     ti_stops t = replicate (2 * length (link_calls bo q ws) + 1) False @ [True] \<and>
     tcp_sends (ti_sock t) \<and> length (calls_wire (link_calls bo q ws)) \<le> tx_room (tx (ti_sock t))"

lemma link_calls_simps:
  "link_calls bo (c # q) ws = (1, capsule_pack bo c) # link_calls bo q ws"
  "link_calls bo [] [] = []"
  "link_calls bo [] ((timedout, stopped, q) # ws) = (if timedout then [(2, [])] else []) @ link_calls bo q ws"
  by (simp_all add: link_calls_def send_calls_def)

lemma link_capsules_simps:
  "link_capsules (c # q) ws = c # link_capsules q ws" "link_capsules [] [] = []"
  "link_capsules [] ((timedout, stopped, q) # ws) = link_capsules q ws"
  by (simp_all add: link_capsules_def)

lemmas tx_start_simps = tx_start_def wakes_fair_def link_fits_def link_calls_simps link_capsules_simps

lemma tx_link_pop:
  assumes "tx_start bo t (c # q) ws" and IH: "\<And>t. tx_start bo t q ws \<Longrightarrow> tx_goal bo t (link_calls bo q ws)"
  shows "tx_goal bo t (link_calls bo (c # q) ws)"
proof -
  let ?b = "capsule_pack bo c" and ?bs = "replicate (2 * length (link_calls bo q ws)) False @ [True]"
  have room: "length ?b + 6 \<le> tx_room (tx (ti_sock t))" "length ?b + 6 < 2 ^ 31" "tcp_sends (ti_sock t)"
    using assms(1) by (auto simp: tx_start_simps frame_def)
  obtain s where s: "invokeFunction bo (tcp_send bo) SendCapsuleFuncOut ?b (ti_sock t) = ret (True, s)"
    "tcp_sends s" "wire s = wire (ti_sock t) @ frame (rpc_datagram 1 ?b)"
    "tx_room (tx (ti_sock t)) - (length ?b + 6) \<le> tx_room (tx s)"
    using tcp_invoke [of "ti_sock t" SendCapsuleFuncOut ?b ?b bo] room
    by (auto simp: SendCapsuleFuncOut_def SAN_RPC_MAX_FID_def)
  define t1 where "t1 = t\<lparr>ti_iface := (ti_iface t)\<lparr>if_queue := q\<rparr>, ti_sock := s, ti_stops := False # ?bs\<rparr>"
  have "tx_try bo t = ret (Some (Popped c), t\<lparr>ti_iface := (ti_iface t)\<lparr>if_queue := q\<rparr>, ti_stops := False # False # ?bs\<rparr>)"
    using assms(1) by (intro tx_try_pop) (simp_all add: tx_start_simps)
  then have "tx_rest bo t = tx_rest bo t1"
    using s(1) by (simp add: tx_rest_leaves tx_deliver_def setCapsuleToSend_def on_socket_def tx_one_rest t1_def)
  moreover have "tx_start bo t1 q ws"
    using assms(1) s(2,4) by (auto simp: tx_start_simps t1_def frame_def)
  ultimately show ?thesis
    using IH [of t1] s(3) by (auto simp: tx_goal_def t1_def link_calls_simps)
qed

lemma tx_link_idle:
  assumes "tx_start bo t [] ((True, stopped, q) # ws)" and IH: "\<And>t. tx_start bo t q ws \<Longrightarrow> tx_goal bo t (link_calls bo q ws)"
  shows "tx_goal bo t (link_calls bo [] ((True, stopped, q) # ws))"
proof -
  let ?bs = "replicate (2 * length (link_calls bo q ws)) False @ [True]"
  obtain s where s: "invokeFunction bo (tcp_send bo) AliveFuncOut () (ti_sock t) = ret (True, s)"
    "tcp_sends s" "wire s = wire (ti_sock t) @ frame (rpc_datagram 2 [])"
    "tx_room (tx (ti_sock t)) - 6 \<le> tx_room (tx s)"
    using tcp_invoke [of "ti_sock t" AliveFuncOut "()" "[]" bo] assms(1)
    by (auto simp: AliveFuncOut_def SAN_RPC_MAX_FID_def tx_start_simps frame_def)
  define t1 where "t1 = t\<lparr>ti_iface := (ti_iface t)\<lparr>if_queue := q\<rparr>, ti_sock := s, ti_stops := False # ?bs,
    ti_wakes := ws @ [(False, True, [])]\<rparr>"
  have "tx_try bo t = ret (None, t1)"
    unfolding t1_def using assms(1) s(1) by (intro tx_try_idle [where stopped = False]) (simp_all add: tx_start_simps)
  then have "tx_rest bo t = tx_rest bo t1" by (rule tx_rest_round)
  moreover have "tx_start bo t1 q ws"
    using assms(1) s(2,4) by (auto simp: tx_start_simps t1_def frame_def)
  ultimately show ?thesis
    using IH [of t1] s(3) by (auto simp: tx_goal_def t1_def link_calls_simps)
qed

lemma tx_link_woken:
  assumes "tx_start bo t [] ((False, stopped, q) # ws)" and IH: "\<And>t. tx_start bo t q ws \<Longrightarrow> tx_goal bo t (link_calls bo q ws)"
  shows "tx_goal bo t (link_calls bo [] ((False, stopped, q) # ws))"
proof -
  define t1 where "t1 = t\<lparr>ti_iface := (ti_iface t)\<lparr>if_queue := q\<rparr>, ti_wakes := ws @ [(False, True, [])]\<rparr>"
  have "tx_try bo t = tx_try bo t1"
    unfolding t1_def using assms(1) by (intro tx_try_woken) (auto simp: tx_start_simps)
  then have "tx_rest bo t = tx_rest bo t1" by (rule tx_rest_same)
  moreover have "tx_start bo t1 q ws" using assms(1) by (auto simp: tx_start_simps t1_def)
  ultimately show ?thesis
    using IH [of t1] by (auto simp: tx_goal_def t1_def link_calls_simps)
qed

text \<open>
  It goes on until \<^verbatim>\<open>run\<close> returns because the thread was terminated while it waited, having
  looked at the flag twice for each call.
\<close>

lemma tx_link: "tx_start bo t q ws \<Longrightarrow> tx_goal bo t (link_calls bo q ws)"
proof (induction ws arbitrary: q t)
  case (Nil q t)
  then show ?case
  proof (induction q arbitrary: t)
    case Nil
    then have "tx_try bo t = ret (Some TxTerminated,
        setTXstate LINE_FAILURE (t\<lparr>ti_iface := (ti_iface t)\<lparr>if_queue := []\<rparr>, ti_stops := [], ti_wakes := []\<rparr>))"
      by (intro tx_try_end) (simp_all add: tx_start_simps)
    then show ?case
      by (simp add: tx_goal_def tx_rest_leaves tx_deliver_def link_calls_simps setTXstate_def)
  next
    case (Cons c q)
    show ?case by (rule tx_link_pop [OF Cons.prems Cons.IH])
  qed
next
  case (Cons w ws q t)
  note ws_IH = Cons.IH
  from Cons.prems show ?case
  proof (induction q arbitrary: t)
    case Nil
    obtain timedout stopped q' where w: "w = (timedout, stopped, q')" by (cases w)
    show ?case
      using Nil tx_link_idle [OF _ ws_IH] tx_link_woken [OF _ ws_IH] unfolding w by (cases timedout) simp_all
  next
    case (Cons c q)
    show ?case by (rule tx_link_pop [OF Cons.prems Cons.IH])
  qed
qed

section \<open>What the receiver does with the calls\<close>

definition receiver_executor :: "byte_order \<Rightarrow> 'q stale_read \<Rightarrow> 'q service executor" where
  "receiver_executor bo stale = snd (receiver_functions bo stale no_functions)"

lemma receiver_functions_eq: "receiver_functions bo stale no_functions = (True, receiver_executor bo stale)"
  by (simp add: receiver_executor_def receiver_functions_def no_functions_def exec_registerFunction_def
      receiver_SendCapsuleFuncIn_def AliveFuncIn_def)

lemma receiver_lookup:
  "m_functions (receiver_executor bo stale) = [1 \<mapsto> receiver_SendCapsuleFuncIn bo stale, 2 \<mapsto> AliveFuncIn]"
  "m_syncFunctions (receiver_executor bo stale) = Map.empty"
  by (simp_all add: receiver_executor_def receiver_functions_def no_functions_def exec_registerFunction_def
      receiver_SendCapsuleFuncIn_def AliveFuncIn_def)

text \<open>The capsules are in the node's queue, each with its mark.\<close>

definition received :: "byte_order \<Rightarrow> bytes list \<Rightarrow> capsule list \<Rightarrow> 'q service \<Rightarrow> 'q service" where
  "received bo marks cs sv = sv\<lparr>m_SerializedCapsule := (if cs = [] then m_SerializedCapsule sv else capsule_pack bo (last cs)),
     sv_nodeQueue := sv_nodeQueue sv @ map2 setFromInterfaceAddress marks cs\<rparr>"

primrec receives :: "byte_order \<Rightarrow> 'q stale_read \<Rightarrow> capsule list \<Rightarrow> 'q service \<Rightarrow> 'q service" where
  "receives bo stale [] sv = sv"
| "receives bo stale (c # cs) sv =
     (let sv = sv\<lparr>m_SerializedCapsule := capsule_pack bo c\<rparr>
      in receives bo stale cs (sv\<lparr>sv_nodeQueue := sv_nodeQueue sv @ [setFromInterfaceAddress (projr (stale sv)) c]\<rparr>))"

lemma receives_marks: "\<exists>marks. length marks = length cs \<and> receives bo stale cs sv = received bo marks cs sv"
proof (induction cs arbitrary: sv)
  case Nil
  then show ?case by (simp add: received_def)
next
  case (Cons c cs)
  let ?sv = "sv\<lparr>m_SerializedCapsule := capsule_pack bo c\<rparr>"
  obtain marks where "length marks = length cs" "receives bo stale cs
      (?sv\<lparr>sv_nodeQueue := sv_nodeQueue sv @ [setFromInterfaceAddress (projr (stale ?sv)) c]\<rparr>) =
    received bo marks cs (?sv\<lparr>sv_nodeQueue := sv_nodeQueue sv @ [setFromInterfaceAddress (projr (stale ?sv)) c]\<rparr>)"
    using Cons.IH by blast
  then show ?case by (intro exI [of _ "projr (stale ?sv) # marks"]) (simp add: received_def Let_def)
qed

definition node_takes :: "'q service \<Rightarrow> capsule list \<Rightarrow> bool" where
  "node_takes sv cs \<longleftrightarrow> \<not> sv_stopped sv \<and> unat (sv_nodeMax sv) < 2 ^ 32 \<and>
     length (sv_nodeQueue sv) + length cs \<le> unat (sv_nodeMax sv)"

definition stale_reads :: "'q stale_read \<Rightarrow> bool" where
  "stale_reads stale \<longleftrightarrow> (\<forall>sv. \<exists>a. stale sv = Inr a)"

lemma serve1_capsule:
  assumes "node_takes sv (c # cs)" and "wf_capsule c" and "stale_reads stale"
  shows "serve1 (receiver_executor bo' stale) 1 (capsule_pack bo c) sv = ret ([], receives bo stale [c] sv) \<and>
    node_takes (receives bo stale [c] sv) cs"
proof -
  have "\<not> isFull (sv_nodeMax sv) (sv_nodeQueue sv)" using assms(1) by (intro has_room) (auto simp: node_takes_def)
  moreover obtain a where "stale (sv\<lparr>m_SerializedCapsule := capsule_pack bo c\<rparr>) = Inr a" using assms(3) by (auto simp: stale_reads_def)
  ultimately show ?thesis
    using assms by (simp add: serve1_def receiver_lookup receiver_SendCapsuleFuncIn_def SendCapsuleFuncIn_unpack_def
        SendCapsuleFuncIn_operator_def capsule_unpack_pack node_takes_def setFromInterfaceAddress_def Let_def)
qed

lemma serve1_alive: "serve1 (receiver_executor bo stale) 2 inp sv = ret ([], sv)"
  by (simp add: serve1_def receiver_lookup AliveFuncIn_def)

lemma serve_link:
  fixes sv :: "'q service"
  assumes "node_takes sv (link_capsules q ws)" and "\<forall>c \<in> set (link_capsules q ws). wf_capsule c" and stale: "stale_reads stale"
  shows "serve (receiver_executor bo' stale) (link_calls bo q ws) sv = ret ([], receives bo stale (link_capsules q ws) sv)"
proof -
  have step: "serve (receiver_executor bo' stale) (link_calls bo (c # q) ws) sv = ret ([], receives bo stale (link_capsules (c # q) ws) sv)"
    if "node_takes sv (link_capsules (c # q) ws)" "\<forall>c \<in> set (link_capsules (c # q) ws). wf_capsule c"
      "\<And>sv :: 'q service. node_takes sv (link_capsules q ws) \<Longrightarrow> \<forall>c \<in> set (link_capsules q ws). wf_capsule c \<Longrightarrow>
        serve (receiver_executor bo' stale) (link_calls bo q ws) sv = ret ([], receives bo stale (link_capsules q ws) sv)"
    for c q ws and sv :: "'q service"
    using that serve1_capsule [of sv c "link_capsules q ws" stale bo' bo] stale
    by (simp add: link_calls_simps link_capsules_simps Let_def)
  show ?thesis using assms(1,2)
  proof (induction ws arbitrary: q sv)
    case (Nil q sv)
    then show ?case
    proof (induction q arbitrary: sv)
      case Nil
      then show ?case by (simp add: link_calls_simps link_capsules_simps)
    next
      case (Cons c q)
      then show ?case by (intro step) simp_all
    qed
  next
    case (Cons w ws q sv)
    note ws_IH = Cons.IH
    from Cons.prems show ?case
    proof (induction q arbitrary: sv)
      case Nil
      obtain timedout stopped q' where w: "w = (timedout, stopped, q')" by (cases w)
      show ?case using Nil ws_IH [of sv q'] by (simp add: w link_calls_simps link_capsules_simps serve1_alive)
    next
      case (Cons c q)
      then show ?case by (intro step) simp_all
    qed
  qed
qed

lemma link_calls_from:
  assumes "r \<in> set (link_calls bo q ws)"
  shows "r = (2, []) \<or> (\<exists>c \<in> set (link_capsules q ws). r = (1, capsule_pack bo c))"
proof -
  have sent: "r \<in> set (send_calls bo q) \<Longrightarrow> \<exists>c \<in> set q. r = (1, capsule_pack bo c)" for q
    by (auto simp: send_calls_def)
  consider "r \<in> set (send_calls bo q)"
    | timedout stopped q' where "(timedout, stopped, q') \<in> set ws"
        "r \<in> set ((if timedout then [(2, [])] else []) @ send_calls bo q')"
    using assms unfolding link_calls_def by fastforce
  then show ?thesis
  proof cases
    case 1
    then show ?thesis using sent [of q] by (auto simp: link_capsules_def)
  next
    case (2 timedout stopped q')
    moreover from this(1) have "set q' \<subseteq> set (link_capsules q ws)" by (force simp: link_capsules_def)
    ultimately show ?thesis using sent [of q'] by (cases timedout) auto
  qed
qed

text \<open>A read through the reference that faults ends the program at the first capsule.\<close>

lemma serve_stale_faults:
  assumes "\<forall>sv. stale sv = Inl e" and "\<forall>r \<in> set calls. r = (2, []) \<or> (\<exists>c. wf_capsule c \<and> r = (1, capsule_pack bo c))"
    and "\<exists>r \<in> set calls. fst r = 1"
  shows "serve (receiver_executor bo' stale) calls sv = Some (Inl e)"
  using assms(2,3)
proof (induction calls arbitrary: sv)
  case (Cons r calls)
  consider "r = (2, [])" | c where "wf_capsule c" "r = (1, capsule_pack bo c)" using Cons.prems(1) by auto
  then show ?case
  proof cases
    case 1
    then show ?thesis using Cons by (simp add: serve1_alive)
  next
    case 2
    then have "serve1 (receiver_executor bo' stale) 1 (capsule_pack bo c) sv = Some (Inl e)"
      using assms(1) by (simp add: serve1_def receiver_lookup receiver_SendCapsuleFuncIn_def SendCapsuleFuncIn_unpack_def
          SendCapsuleFuncIn_operator_def capsule_unpack_pack io_bind_def)
    then show ?thesis using 2 by (simp add: io_bind_def)
  qed
qed simp

lemma link_calls_sends: "c \<in> set (link_capsules q ws) \<Longrightarrow> (1, capsule_pack bo c) \<in> set (link_calls bo q ws)"
  by (force simp: link_capsules_def link_calls_def send_calls_def)

text \<open>A connection with a right greeting: its calls are served until the peer closes it.\<close>

lemma receiver_greeted:
  assumes "length a = sanAddressSize" and "tcp_ok 2000 s" and "tcp_closed s" and "tcp_sends s"
    and "tcp_pending s = firstMessage a @ calls_wire (link_calls bo q ws)"
    and "link_fits bo (link_capsules q ws)"
  shows "\<exists>s1. receiver_receive bo' fid stale i sv s =
      io_bind (exec_run bo' (tcp_send bo') (tcp_recv bo' 2000 5000) (\<lambda>_. False) (receiver_executor bo' stale) fid sv s1)
        (\<lambda>(sv, s). ret (SUCCESS, i\<lparr>if_rx := DISCONNECTED, if_peer := sanDefaultAddress\<rparr>, sv, s)) \<and>
    tcp_ready 2000 s1 (requests (link_calls bo q ws)) 0 \<and> (\<forall>(fid, _) \<in> set (link_calls bo q ws). fid \<le> SAN_RPC_MAX_FID)"
proof -
  have n: "unat (word_of_nat (4 + sanAddressSize) :: u32) = 36" by (simp add: sanAddressSize_def)
  obtain s1 where s1: "readExactNumBytesAppend (tcp_readSomeAppend 2000) 2000 [] (word_of_nat (4 + sanAddressSize)) s =
      ret ((True, firstMessage a), s1)"
    "tcp_pending s1 = calls_wire (link_calls bo q ws)" "tcp_ok 2000 s1" "tcp_closed s1"
    using tcp_src.readExact_enough [OF assms(2), of "word_of_nat (4 + sanAddressSize)" "[]"] assms(1,3,5) n
    by (auto simp: length_firstMessage [OF assms(1)])
  have "rx_update (\<lambda>_. []) s1 = rx_update (\<lambda>_. []) s"
    using readExact_keeps [of "tcp_readSomeAppend 2000" "rx_update (\<lambda>_. [])", OF _ s1(1)] tcp_read_keeps by blast
  then have "tcp_sends s1" using tcp_side_eq assms(4) by blast
  moreover have calls: "\<forall>(fid, b) \<in> set (link_calls bo q ws). fid \<le> SAN_RPC_MAX_FID \<and> length b + 6 < 2 ^ 31"
    using assms(6) by (auto simp: link_fits_def SAN_RPC_MAX_FID_def dest!: link_calls_from)
  then have "\<forall>m \<in> set (requests (link_calls bo q ws)). length m < 2 ^ 32"
    by (auto simp: requests_def)
  ultimately have ready: "tcp_ready 2000 s1 (requests (link_calls bo q ws)) 0"
    using s1(2-4) by (simp add: tcp_ready_def calls_wire_def)
  have fids: "\<forall>(fid, _) \<in> set (link_calls bo q ws). fid \<le> SAN_RPC_MAX_FID" using calls by auto
  show ?thesis
    using s1(1) assms(1) ready fids
    by (intro exI [of _ s1]) (simp add: receiver_receive_def receiver_functions_eq setPeerAddress_def executor_terminated_def Let_def)
qed

lemma receiver_serves:
  assumes "length a = sanAddressSize" and "tcp_ok 2000 s" and "tcp_closed s" and "tcp_sends s"
    and "tcp_pending s = firstMessage a @ calls_wire (link_calls bo q ws)"
    and "link_fits bo (link_capsules q ws)"
    and "serve (receiver_executor bo' stale) (link_calls bo q ws) sv = ret ([], sv')"
  shows "\<exists>s'. receiver_receive bo' fid stale i sv s = ret (SUCCESS, i\<lparr>if_rx := DISCONNECTED, if_peer := sanDefaultAddress\<rparr>, sv', s')"
proof -
  obtain s1 where s1: "receiver_receive bo' fid stale i sv s =
      io_bind (exec_run bo' (tcp_send bo') (tcp_recv bo' 2000 5000) (\<lambda>_. False) (receiver_executor bo' stale) fid sv s1)
        (\<lambda>(sv, s). ret (SUCCESS, i\<lparr>if_rx := DISCONNECTED, if_peer := sanDefaultAddress\<rparr>, sv, s))"
    "tcp_ready 2000 s1 (requests (link_calls bo q ws)) 0" "\<forall>(fid, _) \<in> set (link_calls bo q ws). fid \<le> SAN_RPC_MAX_FID"
    using receiver_greeted [OF assms(1-6)] by blast
  have "\<exists>s2. exec_run bo' (tcp_send bo') (tcp_recv bo' 2000 5000) (\<lambda>_. False) (receiver_executor bo' stale) fid
      sv s1 = ret (sv', s2) \<and> wire s2 = wire s1 @ concat (map frame [])"
    by (rule tcp.exec_run_serves [OF assms(7) s1(2,3), where I = "\<lambda>_. True"]) simp_all
  then show ?thesis using s1(1) by auto
qed

lemma receiver_faults:
  assumes "length a = sanAddressSize" and "tcp_ok 2000 s" and "tcp_closed s" and "tcp_sends s"
    and "tcp_pending s = firstMessage a @ calls_wire (link_calls bo q ws)"
    and "link_fits bo (link_capsules q ws)" and "\<forall>c \<in> set (link_capsules q ws). wf_capsule c"
    and "link_capsules q ws \<noteq> []" and "\<forall>sv. stale sv = Inl e"
  shows "receiver_receive bo' fid stale i sv s = Some (Inl e)"
proof -
  obtain s1 where s1: "receiver_receive bo' fid stale i sv s =
      io_bind (exec_run bo' (tcp_send bo') (tcp_recv bo' 2000 5000) (\<lambda>_. False) (receiver_executor bo' stale) fid sv s1)
        (\<lambda>(sv, s). ret (SUCCESS, i\<lparr>if_rx := DISCONNECTED, if_peer := sanDefaultAddress\<rparr>, sv, s))"
    "tcp_ready 2000 s1 (requests (link_calls bo q ws)) 0" "\<forall>(fid, _) \<in> set (link_calls bo q ws). fid \<le> SAN_RPC_MAX_FID"
    using receiver_greeted [OF assms(1-6)] by blast
  have "\<forall>r \<in> set (link_calls bo q ws). r = (2, []) \<or> (\<exists>c. wf_capsule c \<and> r = (1, capsule_pack bo c))"
    using link_calls_from [of _ bo q ws] assms(7) by blast
  moreover obtain c where "c \<in> set (link_capsules q ws)" using assms(8) by (cases "link_capsules q ws") auto
  then have "\<exists>r \<in> set (link_calls bo q ws). fst r = 1" using link_calls_sends [of c q ws bo] by (intro bexI [of _ "(1, capsule_pack bo c)"]) simp_all
  ultimately have "serve (receiver_executor bo' stale) (link_calls bo q ws) sv = Some (Inl e)"
    using serve_stale_faults [OF assms(9)] by blast
  from tcp.exec_run_faults [OF this s1(2) receiver_lookup(2) s1(3)] show ?thesis using s1(1) by (simp add: io_bind_def)
qed

lemma tcpif_run_eq: "tcpif_run bo t = io_loop (tx_connect bo) t"
  by (simp add: tcpif_run_def invoker_registerFunction_def registered_as_def no_invoker_def SendCapsuleFuncOut_def
      AliveFuncOut_def)

text \<open>The first connection: it is greeted, and then the loop above runs.\<close>

lemma tx_connect_greets:
  assumes "ti_stops t = False # False # bs" and "ti_opens t = Some cs # os" and "connect_first cs = Some s"
    and "tcp_sends s" and "length (if_address (ti_iface t)) = sanAddressSize" and "36 \<le> tx_room (tx s)"
    and "\<And>s'. wire s' = wire s @ firstMessage (if_address (ti_iface t)) \<Longrightarrow> tcp_sends s' \<Longrightarrow>
      tx_room (tx s) - 36 \<le> tx_room (tx s') \<Longrightarrow>
      \<exists>t'. tx_rest bo ((setTXstate CONNECTED (t\<lparr>ti_opens := os, ti_sock := s'\<rparr>))\<lparr>ti_stops := bs\<rparr>) = ret (True, t') \<and> P t'"
  shows "\<exists>t'. tcpif_run bo t = ret ((), t') \<and> P t'"
proof -
  let ?m = "firstMessage (if_address (ti_iface t))"
  obtain s' where w: "writeAll tcp_writeSome ?m s = ret (True, s')" "wire s' = wire s @ ?m" "tcp_sends s'"
    "tx_room (tx s) - 36 \<le> tx_room (tx s')"
    using tcp_snk.writeAll_writes [of s ?m] assms(4-6) by auto
  then obtain t' where t': "tx_rest bo ((setTXstate CONNECTED (t\<lparr>ti_opens := os, ti_sock := s'\<rparr>))\<lparr>ti_stops := bs\<rparr>) = ret (True, t')" "P t'"
    using assms(7) by blast
  have "io_loop (tx_one bo) (setTXstate CONNECTED (t\<lparr>ti_stops := False # bs, ti_opens := os, ti_sock := s'\<rparr>)) = ret (True, t')"
    using tx_one_rest [of "setTXstate CONNECTED (t\<lparr>ti_stops := False # bs, ti_opens := os, ti_sock := s'\<rparr>)" bs bo] t'(1)
    by (simp add: setTXstate_def)
  then have "tx_connect bo t = ret (Some (), t')"
    using assms(1-3) w(1) by (simp add: tx_connect_def isTerminated_def tcpclient_open_def on_socket_def)
  then show ?thesis using t'(2) by (auto simp: tcpif_run_eq io_loop_leaves)
qed

section \<open>Properties\<close>

text \<open>
  C11. A link carries capsules. The sender connects to the first address that answers, greets the
  neighbour with its address and sends every capsule of its output queue, those queued before and
  those the node puts there later, in order, trying the connection out in between when there is
  nothing to send; terminated, it reports a failed line. The receiver of the neighbour, on a host of either
  byte order and whatever pieces the bytes arrive in, forgets the peer when the connection ends, and
  until then puts exactly these capsules, in this order, into the input queue of its node. Their marks
  are not the address of its interface but whatever its dangling reference reads as; if such a read
  is a fault, the first capsule ends the program.
\<close>

lemma link_carries_capsules:
  assumes "ti_opens t = Some cs # os" and "connect_first cs = Some s" and "tcp_sends s" and "wire s = []"
    and "length (if_address (ti_iface t)) = sanAddressSize"
    and "wakes_fair ws" and "length (if_queue (ti_iface t)) < 2 ^ 32" and "ti_wakes t = ws @ [(False, True, [])]"
    and "link_fits bo (link_capsules (if_queue (ti_iface t)) ws)"
    and "ti_stops t = replicate (2 * length (link_calls bo (if_queue (ti_iface t)) ws) + 3) False @ [True]"
    and "36 + length (calls_wire (link_calls bo (if_queue (ti_iface t)) ws)) \<le> tx_room (tx s)"
    and "\<forall>c \<in> set (link_capsules (if_queue (ti_iface t)) ws). wf_capsule c"
    and "node_takes sv (link_capsules (if_queue (ti_iface t)) ws)"
  shows "\<exists>t'. tcpif_run bo t = ret ((), t') \<and> ti_iface t' = (ti_iface t)\<lparr>if_queue := [], if_tx := LINE_FAILURE\<rparr> \<and>
    (\<forall>r. tcp_ok 2000 r \<and> tcp_closed r \<and> tcp_sends r \<and> tcp_pending r = wire (ti_sock t') \<longrightarrow>
      (stale_reads stale \<longrightarrow> (\<exists>marks r'. length marks = length (link_capsules (if_queue (ti_iface t)) ws) \<and>
        receiver_receive bo' fid stale i sv r = ret (SUCCESS, i\<lparr>if_rx := DISCONNECTED, if_peer := sanDefaultAddress\<rparr>,
          received bo marks (link_capsules (if_queue (ti_iface t)) ws) sv, r'))) \<and>
      ((\<forall>sv. stale sv = Inl e) \<and> link_capsules (if_queue (ti_iface t)) ws \<noteq> [] \<longrightarrow>
        receiver_receive bo' fid stale i sv r = Some (Inl e)))"
proof -
  let ?q = "if_queue (ti_iface t)" and ?a = "if_address (ti_iface t)"
  let ?bs = "replicate (2 * length (link_calls bo ?q ws) + 1) False @ [True]"
  let ?P = "\<lambda>t'. wire (ti_sock t') = firstMessage ?a @ calls_wire (link_calls bo ?q ws) \<and>
    ti_iface t' = (ti_iface t)\<lparr>if_queue := [], if_tx := LINE_FAILURE\<rparr>"
  have "\<exists>t'. tcpif_run bo t = ret ((), t') \<and> ?P t'"
  proof (rule tx_connect_greets [where bs = ?bs])
    fix s' assume s': "wire s' = wire s @ firstMessage ?a" "tcp_sends s'" "tx_room (tx s) - 36 \<le> tx_room (tx s')"
    let ?t = "(setTXstate CONNECTED (t\<lparr>ti_opens := os, ti_sock := s'\<rparr>))\<lparr>ti_stops := ?bs\<rparr>"
    have "tx_start bo ?t ?q ws"
      using assms s'(2,3) by (simp add: tx_start_def setTXstate_def)
    from tx_link [OF this] show "\<exists>t'. tx_rest bo ?t = ret (True, t') \<and> ?P t'"
      using s'(1) assms(4) by (auto simp: tx_goal_def setTXstate_def)
  qed (use assms in \<open>simp_all add: numeral_3_eq_3\<close>)
  then obtain t' where t': "tcpif_run bo t = ret ((), t')" "?P t'" by blast
  have "\<exists>marks r'. length marks = length (link_capsules ?q ws) \<and> receiver_receive bo' fid stale i sv r =
      ret (SUCCESS, i\<lparr>if_rx := DISCONNECTED, if_peer := sanDefaultAddress\<rparr>, received bo marks (link_capsules ?q ws) sv, r')"
    if "stale_reads stale" "tcp_ok 2000 r" "tcp_closed r" "tcp_sends r" "tcp_pending r = wire (ti_sock t')" for r
  proof -
    have "tcp_pending r = firstMessage ?a @ calls_wire (link_calls bo ?q ws)" using that(5) t'(2) by simp
    from receiver_serves [OF assms(5) that(2-4) this assms(9) serve_link [OF assms(13,12) that(1)]]
    show ?thesis using receives_marks by metis
  qed
  moreover have "receiver_receive bo' fid stale i sv r = Some (Inl e)"
    if "\<forall>sv. stale sv = Inl e" "link_capsules ?q ws \<noteq> []" "tcp_ok 2000 r" "tcp_closed r" "tcp_sends r"
      "tcp_pending r = wire (ti_sock t')" for r
    using receiver_faults [OF assms(5) that(3-5) _ assms(9,12) that(2,1)] that(6) t'(2) by simp
  ultimately show ?thesis using t' by (intro exI [of _ t']) blast
qed

text \<open>A queue of one capsule, a pause, and another capsule.\<close>

definition sample_tcpif :: tcpif where
  "sample_tcpif = \<lparr>ti_iface = (sample_iface 1 0)\<lparr>if_queue := [sample_capsule]\<rparr>, ti_sock = SNET_BADSOCKET,
     ti_opens = [Some [NoConnect, Connects \<lparr>is_open = True, rx = [], tx = replicate 400 (Ready False (Taken 3)), wire = []\<rparr>]],
     ti_stops = replicate 9 False @ [True], ti_wakes = [(True, False, [sample_capsule]), (False, True, [])]\<rparr>"

lemma link_carries_capsules_witness:
  "\<exists>t'. tcpif_run SAN_LITTLE_ENDIAN sample_tcpif = ret ((), t') \<and> if_queue (ti_iface t') = []"
proof -
  let ?ws = "[(True, False, [sample_capsule])]"
  have len: "length (capsule_pack bo sample_capsule) = headerSize + length (m_data sample_capsule)" for bo
    using wf_sample_capsule by (simp add: length_capsule_pack)
  have data: "headerSize + length (m_data sample_capsule) < 150" by (simp add: size_defs sample_capsule_def)
  have q: "link_calls bo [sample_capsule] ?ws =
      [(1, capsule_pack bo sample_capsule), (2, []), (1, capsule_pack bo sample_capsule)]" for bo
    by (simp add: link_calls_def send_calls_def)
  have c: "link_capsules [sample_capsule] ?ws = [sample_capsule, sample_capsule]" by (simp add: link_capsules_def)
  show ?thesis
    using link_carries_capsules [where t = sample_tcpif and cs = "[NoConnect, Connects \<lparr>is_open = True, rx = [],
          tx = replicate 400 (Ready False (Taken 3)), wire = []\<rparr>]" and os = "[]" and
        s = "\<lparr>is_open = True, rx = [], tx = replicate 400 (Ready False (Taken 3)), wire = []\<rparr>" and ws = ?ws and
        bo = SAN_LITTLE_ENDIAN and bo' = SAN_BIG_ENDIAN and i = "sample_iface 1 0" and sv = sample_service and
        stale = "\<lambda>_. Inr []" and fid = 0 and e = OutOfRange] len data wf_sample_capsule
    by (auto simp: sample_tcpif_def sample_iface_def sample_service_def q c wakes_fair_def link_fits_def
        tcp_sends_def list_all_iff tx_room_def frame_def sanAddressSize_def node_takes_def)
qed

text \<open>
  The greeting. The receiver accepts exactly the greetings the sender makes, and takes the
  sender's whole address from them; anything else leaves the interface alone.
\<close>

lemma greeting_tells_address:
  "(\<forall>a. length a = sanAddressSize \<longrightarrow> parseFirstMessage (firstMessage a) i = (True, i\<lparr>if_peer := a\<rparr>)) \<and>
   (\<forall>d. fst (parseFirstMessage d i) \<longleftrightarrow> (\<exists>a. length a = sanAddressSize \<and> d = firstMessage a)) \<and>
   (\<forall>d. \<not> fst (parseFirstMessage d i) \<longrightarrow> snd (parseFirstMessage d i) = i)"
proof (intro conjI)
  show "\<forall>d. \<not> fst (parseFirstMessage d i) \<longrightarrow> snd (parseFirstMessage d i) = i"
    by (simp add: parseFirstMessage_def)
qed (simp_all add: parseFirstMessage_iff)

text \<open>
  C31. A broken connection costs a capsule. The capsule has left the output queue when the
  sending fails, and it is not put back: when the connection is set up again, it is neither in the
  queue nor was any of it on the wire.
\<close>

lemma broken_link_loses_capsule:
  assumes "ti_stops t = False # False # bs" and "if_queue (ti_iface t) = c # q" and "length (c # q) < 2 ^ 32"
    and "is_open (ti_sock t)" and "tx (ti_sock t) = Ready False r # es" and "r = PeerReset \<or> r = SendFails"
    and "length (capsule_pack bo c) + 6 < 2 ^ 31"
  shows "\<exists>t'. tx_one bo t = ret (Some False, t') \<and> if_queue (ti_iface t') = q \<and> if_tx (ti_iface t') = DISCONNECTED \<and>
    wire (ti_sock t') = wire (ti_sock t)"
proof -
  let ?t = "t\<lparr>ti_stops := False # bs\<rparr>" and ?m = "rpc_datagram 1 (capsule_pack bo c)"
  have "length (frame ?m) = length (capsule_pack bo c) + 6" by (simp add: frame_def)
  then have len: "length (frame ?m) < 2 ^ 31" "frame ?m \<noteq> []" using assms(7) by fastforce+
  have "tx_try bo ?t = ret (Some (Popped c), t\<lparr>ti_iface := (ti_iface t)\<lparr>if_queue := q\<rparr>, ti_stops := bs\<rparr>)"
    using tx_try_pop [of ?t bs c q bo] assms(2,3) by simp
  then have pop: "io_loop (tx_try bo) ?t = ret (Popped c, t\<lparr>ti_iface := (ti_iface t)\<lparr>if_queue := q\<rparr>, ti_stops := bs\<rparr>)"
    by (rule io_loop_leaves)
  have "\<exists>code n. send_loop (frame ?m) (int (length (frame ?m))) 0 (int (length (frame ?m))) (tx (ti_sock t)) =
      Some ((code, n, []), es) \<and> code \<noteq> SUCCESS"
    using assms(5,6) len(2) by (subst send_loop.simps) auto
  then obtain code n where "send_loop (frame ?m) (int (length (frame ?m))) 0 (int (length (frame ?m))) (tx (ti_sock t)) =
      Some ((code, n, []), es)" "code \<noteq> SUCCESS" by blast
  then have "tcp_writeSome (frame ?m) (ti_sock t) = ret (-1, (ti_sock t)\<lparr>tx := es\<rparr>)"
    using assms(4) sint_data [OF len(1)] by (simp add: tcp_writeSome_def sock_sendall_stream_def sendall_def)
  then have "writeMessage bo tcp_writeSome ?m (ti_sock t) = ret (False, (ti_sock t)\<lparr>tx := es\<rparr>)"
    using len(2) by (simp add: writeMessage_frame) (subst writeAll.simps, simp add: ret_def)
  then have "invokeFunction bo (tcp_send bo) SendCapsuleFuncOut (capsule_pack bo c) (ti_sock t) =
      ret (False, (ti_sock t)\<lparr>tx := es\<rparr>)"
    by (simp add: invokeFunction_def sendData_datagram tcp_send_def stream_sendDatagram_def SendCapsuleFuncOut_def
        SAN_RPC_MAX_FID_def)
  then show ?thesis
    using assms(1) pop
    by (simp add: tx_one_def isTerminated_def tx_deliver_def setCapsuleToSend_def on_socket_def setTXstate_def)
qed

lemma broken_link_loses_capsule_witness:
  "\<exists>t'. tx_one SAN_LITTLE_ENDIAN (sample_tcpif\<lparr>ti_sock := \<lparr>is_open = True, rx = [], tx = [Ready False PeerReset], wire = []\<rparr>\<rparr>) =
     ret (Some False, t') \<and> if_queue (ti_iface t') = []"
proof -
  have "length (capsule_pack SAN_LITTLE_ENDIAN sample_capsule) + 6 < 2 ^ 31"
    using wf_sample_capsule by (simp add: length_capsule_pack size_defs sample_capsule_def)
  moreover have "replicate 9 False @ [True] = False # False # replicate 7 False @ [True]"
    by (simp add: numeral_eq_Suc)
  ultimately show ?thesis
    using broken_link_loses_capsule [of "sample_tcpif\<lparr>ti_sock := \<lparr>is_open = True, rx = [], tx = [Ready False PeerReset], wire = []\<rparr>\<rparr>"
        "replicate 7 False @ [True]" sample_capsule "[]" PeerReset "[]" SAN_LITTLE_ENDIAN]
    by (simp add: sample_tcpif_def sample_iface_def) blast
qed

section \<open>The server of the receiver serves its connections\<close>

text \<open>The results of \<^verbatim>\<open>accept\<close> one after the other, each from the state that the one before left.\<close>

primrec serve_connections :: "('a \<Rightarrow> socket \<Rightarrow> (ErrorCode \<times> 'a) io) \<Rightarrow> socket option list \<Rightarrow> 'a \<Rightarrow> 'a io" where
  "serve_connections handler [] a = ret a"
| "serve_connections handler (r # rs) a =
     (case r of None \<Rightarrow> serve_connections handler rs a
      | Some s \<Rightarrow> io_bind (handler a s) (\<lambda>(rc, a). serve_connections handler rs a))"

lemma serve_connections_append:
  "serve_connections handler (rs @ rs') a = io_bind (serve_connections handler rs a) (serve_connections handler rs')"
proof (induction rs arbitrary: a)
  case (Cons r rs)
  then show ?case by (cases r) (auto simp: io_bind_def split: option.splits sum.splits prod.splits)
qed simp

lemma accept_loop_serves:
  assumes "\<forall>a s rc a'. handler a s = ret (rc, a') \<longrightarrow> rc = SUCCESS" and "(k + 1) div 2 \<le> length rs"
  shows "io_loop (accept_round handler) \<lparr>ac_stops = replicate k False @ True # bs, ac_accepts = rs, ac_state = a\<rparr> =
    io_bind (serve_connections handler (take (k div 2) rs) a)
      (\<lambda>a. ret (SUCCESS, \<lparr>ac_stops = bs, ac_accepts = drop ((k + 1) div 2) rs, ac_state = a\<rparr>))"
  using assms(2)
proof (induction k arbitrary: rs a rule: less_induct)
  case (less k)
  consider "k = 0" | "k = 1" | j where "k = Suc (Suc j)" by (metis One_nat_def not0_implies_Suc)
  then show ?case
  proof cases
    case 1
    then show ?thesis by (simp add: io_loop_leaves accept_round_def)
  next
    case 2
    then obtain r rs' where "rs = r # rs'" using less.prems by (cases rs) auto
    then show ?thesis using 2 by (simp add: io_loop_leaves accept_round_def)
  next
    case 3
    obtain r rs' where rs: "rs = r # rs'" using less.prems 3 by (cases rs) auto
    have len: "(j + 1) div 2 \<le> length rs'" using less.prems 3 rs by simp
    note IH = less.IH [of j rs', OF _ len]
    let ?ac = "\<lparr>ac_stops = replicate k False @ True # bs, ac_accepts = rs, ac_state = a\<rparr>"
    show ?thesis
    proof (cases r)
      case None
      then have "accept_round handler ?ac = ret (None, \<lparr>ac_stops = replicate j False @ True # bs, ac_accepts = rs', ac_state = a\<rparr>)"
        using 3 rs by (simp add: accept_round_def)
      from io_loop_round [where body = "accept_round handler", OF this] show ?thesis using IH [of a] 3 rs None by simp
    next
      case (Some s)
      have step: "accept_round handler ?ac = io_bind (handler a s) (\<lambda>(rc, a).
          let ac = \<lparr>ac_stops = replicate j False @ True # bs, ac_accepts = rs', ac_state = a\<rparr>
          in if rc \<noteq> SUCCESS then ret (Some rc, ac) else ret (None, ac))"
        using 3 rs Some by (simp add: accept_round_def Let_def cong: if_cong)
      show ?thesis
      proof (cases "handler a s")
        case None
        then show ?thesis using step 3 rs Some by (subst io_loop.simps) (simp add: io_bind_def)
      next
        case h: (Some y)
        show ?thesis
        proof (cases y)
          case (Inl e)
          then show ?thesis using step h 3 rs Some by (subst io_loop.simps) (simp add: io_bind_def)
        next
          case (Inr v)
          obtain rc a' where v: "v = (rc, a')" by (cases v)
          then have rc: "rc = SUCCESS" using h Inr assms(1) by (auto simp: ret_def)
          then have "accept_round handler ?ac = ret (None, \<lparr>ac_stops = replicate j False @ True # bs, ac_accepts = rs', ac_state = a'\<rparr>)"
            using step h Inr v by (simp add: io_bind_def)
          from io_loop_round [where body = "accept_round handler", OF this] show ?thesis
            using IH [of a'] 3 rs Some h Inr v by (simp add: io_bind_def)
        qed
      qed
    qed
  qed
qed

lemma receiver_receive_code: "receiver_receive bo fid stale i sv s = ret (rc, r) \<Longrightarrow> rc = SUCCESS"
  by (auto simp: receiver_receive_def receiver_functions_eq Let_def io_bind_eq_ret split: if_splits prod.splits)

text \<open>
  A connection that is of no use: \<^verbatim>\<open>select\<close> fails on it, or what arrives until its end does not
  begin with a greeting.
\<close>

definition useless :: "socket \<Rightarrow> bool" where
  "useless s \<longleftrightarrow> is_open s \<and> (\<exists>t es. rx s = SelectFails t # es) \<or>
     tcp_ok 2000 s \<and> tcp_closed s \<and> (\<forall>a rest. length a = sanAddressSize \<longrightarrow> tcp_pending s \<noteq> firstMessage a @ rest)"

lemma useless_changes_nothing:
  assumes "useless s"
  shows "\<exists>s'. receiver_receive bo fid stale i sv s = ret (SUCCESS, i\<lparr>if_rx := DISCONNECTED\<rparr>, sv, s')"
proof -
  let ?n = "word_of_nat (4 + sanAddressSize) :: u32"
  have n: "unat ?n = 36" "?n \<noteq> 0" by (simp_all add: sanAddressSize_def)
  have "\<exists>ok d s'. readExactNumBytesAppend (tcp_readSomeAppend 2000) 2000 [] ?n s = ret ((ok, d), s') \<and>
      (ok \<longrightarrow> \<not> (\<exists>a. length a = sanAddressSize \<and> d = firstMessage a))"
    using assms unfolding useless_def
  proof (elim disjE conjE exE)
    fix t es assume "is_open s" "rx s = SelectFails t # es"
    then have "tcp_readSomeAppend 2000 k d s = ret ((-1, d), s\<lparr>rx := es\<rparr>)" for k d
      by (simp add: tcp_readSomeAppend_def sock_read_stream_def)
    then show ?thesis by (subst readExactNumBytesAppend.simps) (auto simp: ret_def Let_def sanAddressSize_def)
  next
    assume s: "tcp_ok 2000 s" "tcp_closed s" "\<forall>a rest. length a = sanAddressSize \<longrightarrow> tcp_pending s \<noteq> firstMessage a @ rest"
    show ?thesis
    proof (cases "length (tcp_pending s) < unat ?n")
      case True
      then show ?thesis using tcp_src.readExact_short [OF s(1,2), of ?n "[]"] by auto
    next
      case False
      then have "\<exists>s'. readExactNumBytesAppend (tcp_readSomeAppend 2000) 2000 [] ?n s = ret ((True, take 36 (tcp_pending s)), s')"
        using tcp_src.readExact_enough [OF s(1), of ?n "[]"] n(1) by auto
      moreover have "take 36 (tcp_pending s) \<noteq> firstMessage a" if "length a = sanAddressSize" for a
        using s(3) that append_take_drop_id [of 36 "tcp_pending s"] by metis
      ultimately show ?thesis by blast
    qed
  qed
  then obtain ok d s' where d: "readExactNumBytesAppend (tcp_readSomeAppend 2000) 2000 [] ?n s = ret ((ok, d), s')"
    "ok \<longrightarrow> \<not> fst (parseFirstMessage d (i\<lparr>if_rx := DISCONNECTED\<rparr>))"
    unfolding parseFirstMessage_iff by blast
  moreover from d(2) have "ok \<longrightarrow> parseFirstMessage d (i\<lparr>if_rx := DISCONNECTED\<rparr>) = (False, i\<lparr>if_rx := DISCONNECTED\<rparr>)"
    by (auto simp: parseFirstMessage_def split: if_splits)
  ultimately show ?thesis by (auto simp: receiver_receive_def receiver_functions_eq Let_def)
qed

lemma serve_useless:
  assumes "\<forall>s. Some s \<in> set rs \<longrightarrow> useless s"
  shows "serve_connections (receiver_handler bo fid stale) rs (i, sv) =
    ret (if \<exists>s. Some s \<in> set rs then i\<lparr>if_rx := DISCONNECTED\<rparr> else i, sv)"
  using assms
proof (induction rs arbitrary: i)
  case (Cons r rs)
  show ?case
  proof (cases r)
    case None
    then show ?thesis using Cons by auto
  next
    case (Some s)
    then obtain s' where "receiver_receive bo fid stale i sv s = ret (SUCCESS, i\<lparr>if_rx := DISCONNECTED\<rparr>, sv, s')"
      using useless_changes_nothing [of s bo fid stale i sv] Cons.prems by auto
    then show ?thesis using Cons Some by (auto simp: receiver_handler_def)
  qed
qed simp

lemma receiver_receive_rx: "receiver_receive bo fid stale (i\<lparr>if_rx := x\<rparr>) sv s = receiver_receive bo fid stale i sv s"
  by (simp add: receiver_receive_def Let_def)

definition sample_socket :: "received poll list \<Rightarrow> socket" where
  "sample_socket es = \<lparr>is_open = True, rx = es, tx = [], wire = []\<rparr>"

text \<open>
  C32. The receiver outlives useless connections. Once the server listens, it serves the accepted
  connections one after the other, each from the state that the one before left, until its thread is
  told to stop, which is a success; only a connection that never returns or faults keeps it from
  that (a failing \<^verbatim>\<open>recv\<close> or a failing push is such a fault, which ends the program). Failing
  accepts, connections that break or end before a greeting and wrong greetings do no harm: the next
  connection is served as if it were the first.
\<close>

lemma receiver_outlives_connections:
  assumes "bind_first bs" and "(k + 1) div 2 \<le> length rs"
  shows "receiver_server bo fid stale (Some bs) \<lparr>ac_stops = replicate k False @ True # later, ac_accepts = rs, ac_state = (i, sv)\<rparr> =
      io_bind (serve_connections (receiver_handler bo fid stale) (take (k div 2) rs) (i, sv))
        (\<lambda>a. ret (SUCCESS, \<lparr>ac_stops = later, ac_accepts = drop ((k + 1) div 2) rs, ac_state = a\<rparr>)) \<and>
    (take (k div 2) rs = us @ [Some g] \<and> (\<forall>s. Some s \<in> set us \<longrightarrow> useless s) \<longrightarrow>
      receiver_server bo fid stale (Some bs) \<lparr>ac_stops = replicate k False @ True # later, ac_accepts = rs, ac_state = (i, sv)\<rparr> =
        io_bind (receiver_receive bo fid stale i sv g)
          (\<lambda>(_, i, sv, _). ret (SUCCESS, \<lparr>ac_stops = later, ac_accepts = drop ((k + 1) div 2) rs, ac_state = (i, sv)\<rparr>)))"
proof -
  have "\<forall>a s rc a'. receiver_handler bo fid stale a s = ret (rc, a') \<longrightarrow> rc = SUCCESS"
    by (auto simp: receiver_handler_def io_bind_eq_ret dest: receiver_receive_code)
  from accept_loop_serves [OF this assms(2)]
  have all: "receiver_server bo fid stale (Some bs) \<lparr>ac_stops = replicate k False @ True # later, ac_accepts = rs, ac_state = (i, sv)\<rparr> =
      io_bind (serve_connections (receiver_handler bo fid stale) (take (k div 2) rs) (i, sv))
        (\<lambda>a. ret (SUCCESS, \<lparr>ac_stops = later, ac_accepts = drop ((k + 1) div 2) rs, ac_state = a\<rparr>))"
    using assms(1) by (simp add: receiver_server_def single_runProc_def)
  moreover have "serve_connections (receiver_handler bo fid stale) (us @ [Some g]) (i, sv) =
      io_bind (receiver_receive bo fid stale i sv g) (\<lambda>(_, i, sv, _). ret (i, sv))"
    if "\<forall>s. Some s \<in> set us \<longrightarrow> useless s"
    using that by (auto simp: serve_connections_append serve_useless receiver_handler_def receiver_receive_rx io_bind_def ret_def
        split: option.splits sum.splits prod.splits)
  ultimately show ?thesis by (auto simp: io_bind_def ret_def split: option.splits sum.splits prod.splits)
qed

lemma receiver_outlives_connections_witness:
  "receiver_server SAN_LITTLE_ENDIAN 0 (\<lambda>_. Inl Indeterminate) (Some [BindFails, Binds True])
     \<lparr>ac_stops = [False, False, False, False, False, True],
      ac_accepts = [None, Some (sample_socket [SelectFails False]), Some (sample_socket [Ready False PeerClosed])],
      ac_state = (sample_iface 1 0, sample_service)\<rparr> =
   ret (SUCCESS, \<lparr>ac_stops = [], ac_accepts = [], ac_state = ((sample_iface 1 0)\<lparr>if_rx := DISCONNECTED\<rparr>, sample_service)\<rparr>)"
proof -
  have "replicate 5 False @ True # [] = [False, False, False, False, False, True]" by (simp add: numeral_eq_Suc)
  moreover have "useless (sample_socket [SelectFails False])" by (auto simp: useless_def sample_socket_def)
  moreover obtain s' where "receiver_receive SAN_LITTLE_ENDIAN 0 (\<lambda>_. Inl Indeterminate) (sample_iface 1 0) sample_service
      (sample_socket [SelectFails False]) = ret (SUCCESS, (sample_iface 1 0)\<lparr>if_rx := DISCONNECTED\<rparr>, sample_service, s')"
    using useless_changes_nothing [OF \<open>useless (sample_socket [SelectFails False])\<close>] by blast
  ultimately show ?thesis
    using receiver_outlives_connections [of "[BindFails, Binds True]" 5
        "[None, Some (sample_socket [SelectFails False]), Some (sample_socket [Ready False PeerClosed])]"
        SAN_LITTLE_ENDIAN 0 "\<lambda>_. Inl Indeterminate" "[]" "sample_iface 1 0" sample_service "[None]" "sample_socket [SelectFails False]"]
    by (simp add: receiver_handler_def)
qed

end
