(* ===== verification/Startup.thy ===== *)
theory Startup
  imports TcpInterface "HOL-Library.Multiset"
begin

text \<open>
  The start of the node, \<^verbatim>\<open>src/node/main.cpp\<close>: the interfaces are read from the configuration,
  peer by peer, until one is not configured. The lemmas show that this ends, whatever the
  file, and what a well-written file gives.
\<close>

section \<open>Keys\<close>

definition int2string :: "nat \<Rightarrow> string" where
  "int2string x = decimal x"

definition getKeyTextString :: "nat \<Rightarrow> string \<Rightarrow> string" where
  "getKeyTextString x key = ''peer.'' @ int2string x @ ''.'' @ key"

definition getPeerConfig :: "contents \<Rightarrow> nat \<Rightarrow> string \<Rightarrow> string" where
  "getPeerConfig cfg x key = getValue cfg (getKeyTextString x key)"

section \<open>\<^verbatim>\<open>main\<close>\<close>

text \<open>A TCP interface with the addresses of its two ends, which only the system interprets.\<close>

record tcp_peer =
  peer_tcpif :: tcpif
  peer_localIp :: string
  peer_localPort :: string
  peer_remoteIp :: string
  peer_remotePort :: string

definition TCP_QUEUESIZE :: u64 where "TCP_QUEUESIZE = 50"
definition INPUT_QUEUE_SIZE :: u32 where "INPUT_QUEUE_SIZE = 50"

definition new_peer :: "bytes \<Rightarrow> string \<Rightarrow> string \<Rightarrow> string \<Rightarrow> string \<Rightarrow> tcp_peer" where
  "new_peer sanaddr localIp localPort remoteIp remotePort =
     \<lparr>peer_tcpif = CTcpInterface sanaddr TCP_QUEUESIZE, peer_localIp = localIp, peer_localPort = localPort,
      peer_remoteIp = remoteIp, peer_remotePort = remotePort\<rparr>"

text \<open>
  The loop, which has no bound of its own; the counter is taken not to overflow. \<open>place\<close> says where
  the pointer of a new interface lands among the others.
\<close>

partial_function (option) peers_loop ::
  "(nat \<Rightarrow> nat) \<Rightarrow> contents \<Rightarrow> nat \<Rightarrow> tcp_peer list \<times> 'q node \<Rightarrow> (tcp_peer list \<times> 'q node) option" where
  "peers_loop place cfg i st =
     (let ifAddress = getPeerConfig cfg i ''ifAddress'';
          localIp = getPeerConfig cfg i ''localIp'';
          localPort = getPeerConfig cfg i ''localPort'';
          remoteIp = getPeerConfig cfg i ''remoteIp'';
          remotePort = getPeerConfig cfg i ''remotePort''
      in if ifAddress = [] \<or> localIp = [] \<or> localPort = [] \<or> remoteIp = [] \<or> remotePort = [] then Some st
         else case string2address ifAddress of
           None \<Rightarrow> peers_loop place cfg (i + 1) st
         | Some sanaddr \<Rightarrow>
             let tcpif = new_peer sanaddr localIp localPort remoteIp remotePort
             in peers_loop place cfg (i + 1)
                  (fst st @ [tcpif], snd (addInterface (place i) (ti_iface (peer_tcpif tcpif)) (snd st))))"

text \<open>\<open>infile\<close> is the text of the configuration file. The result is the code of \<^verbatim>\<open>main\<close>, or the node it starts.\<close>

definition node_main :: "(nat \<Rightarrow> nat) \<Rightarrow> u64 \<Rightarrow> string option \<Rightarrow> (int + tcp_peer list \<times> 'q node) option" where
  "node_main place getSeconds infile =
     (case config_load infile True Map.empty of (ok, cfg) \<Rightarrow>
        if \<not> ok then Some (Inl (-1))
        else
          let ipcAddress = getValue cfg ''ipcAddress''
          in if ipcAddress = [] then Some (Inl (-2))
             else
               let node = CNode INPUT_QUEUE_SIZE (getValue cfg ''nodeName'') getSeconds
               in map_option Inr (peers_loop place cfg 1 ([], node)))"

section \<open>The loop ends\<close>

text \<open>What the loop sees of peer \<open>i\<close>: it is configured, and has an address.\<close>

definition configured :: "contents \<Rightarrow> nat \<Rightarrow> bool" where
  "configured cfg i \<longleftrightarrow> list_all (\<lambda>key. getPeerConfig cfg i key \<noteq> []) [''ifAddress'', ''localIp'', ''localPort'', ''remoteIp'', ''remotePort'']"

definition peer_at :: "contents \<Rightarrow> nat \<Rightarrow> tcp_peer option" where
  "peer_at cfg i = map_option (\<lambda>a. new_peer a (getPeerConfig cfg i ''localIp'') (getPeerConfig cfg i ''localPort'')
     (getPeerConfig cfg i ''remoteIp'') (getPeerConfig cfg i ''remotePort'')) (string2address (getPeerConfig cfg i ''ifAddress''))"

lemma tolower_digits: "list_all is_digit s \<Longrightarrow> tolower s = s"
  by (induction s) (auto simp: tolower_def tolower_char_def is_digit_def Let_def)

lemma tolower_append: "tolower (s @ t) = tolower s @ tolower t"
  by (simp add: tolower_def)

lemma tolower_plain: "tolower ''peer.'' = ''peer.''" "tolower ''.'' = ''.''"
  by (simp_all add: tolower_def tolower_char_def)

lemma key_lower: "tolower (getKeyTextString i key) = ''peer.'' @ decimal i @ ''.'' @ tolower key"
proof -
  have "tolower (decimal i) = decimal i" using decimal_digits tolower_digits by blast
  moreover have "tolower (''.'' @ key) = ''.'' @ tolower key" using tolower_append tolower_plain(2) by metis
  moreover have "tolower (''peer.'' @ x) = ''peer.'' @ tolower x" for x using tolower_append tolower_plain(1) by metis
  ultimately show ?thesis by (simp add: getKeyTextString_def int2string_def tolower_append)
qed

lemma key_inj:
  assumes "''peer.'' @ decimal i @ ''.'' @ k = ''peer.'' @ decimal j @ ''.'' @ l"
  shows "i = j \<and> k = l"
proof -
  have "decimal i @ CHR ''.'' # k = decimal j @ CHR ''.'' # l" using assms by simp
  moreover have "takeWhile is_digit (decimal n @ CHR ''.'' # x) = decimal n" for n x
    using decimal_digits [of n] by (simp add: takeWhile_append list_all_iff is_digit_def)
  ultimately have "decimal i = decimal j" by metis
  then have "i = j" by (metis digits_value_decimal)
  then show ?thesis using assms by simp
qed

lemma peers_loop_upto:
  assumes "i \<le> n" and "\<forall>j. i \<le> j \<and> j < n \<longrightarrow> configured cfg j" and "\<not> configured cfg n"
  shows "\<exists>ifs. peers_loop place cfg i (ps, nd) =
      Some (ps @ List.map_filter (peer_at cfg) [i..<n], nd\<lparr>nd_interfaces := ifs\<rparr>) \<and>
    mset ifs = mset (nd_interfaces nd) + mset (map (\<lambda>p. ti_iface (peer_tcpif p)) (List.map_filter (peer_at cfg) [i..<n]))"
  using assms
proof (induction "n - i" arbitrary: i ps nd)
  case 0
  then have "peers_loop place cfg i (ps, nd) = Some (ps, nd)"
    by (subst peers_loop.simps) (auto simp: configured_def)
  then show ?case using 0 by (intro exI [of _ "nd_interfaces nd"]) simp
next
  case (Suc k)
  then have i: "i < n" "configured cfg i" by simp_all
  then have upt: "[i..<n] = i # [Suc i..<n]" by (simp add: upt_conv_Cons)
  note IH = Suc.hyps(1) [of "Suc i"]
  show ?case
  proof (cases "string2address (getPeerConfig cfg i ''ifAddress'')")
    case None
    then have "peers_loop place cfg i (ps, nd) = peers_loop place cfg (Suc i) (ps, nd)"
      using i(2) by (subst peers_loop.simps) (simp add: configured_def)
    moreover have "peer_at cfg i = None" using None by (simp add: peer_at_def)
    ultimately show ?thesis using IH [of ps nd] Suc.hyps(2) Suc.prems upt by (simp add: map_filter_simps)
  next
    case (Some a)
    define p where "p = new_peer a (getPeerConfig cfg i ''localIp'') (getPeerConfig cfg i ''localPort'')
      (getPeerConfig cfg i ''remoteIp'') (getPeerConfig cfg i ''remotePort'')"
    let ?if = "ti_iface (peer_tcpif p)" and ?ifs = "nd_interfaces nd"
    let ?ifs' = "take (place i) ?ifs @ [?if] @ drop (place i) ?ifs"
    have step: "peers_loop place cfg i (ps, nd) = peers_loop place cfg (Suc i) (ps @ [p], nd\<lparr>nd_interfaces := ?ifs'\<rparr>)"
      using i(2) Some by (subst peers_loop.simps) (simp add: configured_def p_def addInterface_def Let_def)
    have at: "peer_at cfg i = Some p" using Some by (simp add: peer_at_def p_def)
    have "mset ?ifs' = mset ?ifs + {#?if#}"
      using append_take_drop_id [of "place i" ?ifs] by (metis add.commute add.assoc mset_append mset_single_iff_right)
    then show ?thesis
      using IH [of "ps @ [p]" "nd\<lparr>nd_interfaces := ?ifs'\<rparr>"] Suc.hyps(2) Suc.prems upt at step by (auto simp: map_filter_simps)
  qed
qed

text \<open>A line of the file adds one key at most, a configured peer has five of its own.\<close>

lemma parseLine_dom:
  assumes "parseLine line m = (r, m')" and "finite (dom m)"
  shows "finite (dom m') \<and> card (dom m') \<le> Suc (card (dom m))"
  using assms by (auto simp: parseLine_def extractContents_def Let_def card_insert_if split: if_splits)

lemma load_lines_dom:
  "load_lines strict ls m = (ok, m') \<Longrightarrow> finite (dom m) \<Longrightarrow> finite (dom m') \<and> card (dom m') \<le> card (dom m) + length ls"
proof (induction strict ls m arbitrary: ok m' rule: load_lines.induct)
  case (2 strict line ls m)
  obtain r m1 where p: "parseLine (removeComment line) m = (r, m1)" by (cases "parseLine (removeComment line) m")
  note d = parseLine_dom [OF p 2(4)]
  show ?case
  proof (cases "line = [] \<or> onlyWhitespace (removeComment line)")
    case True
    then show ?thesis using 2(1) [OF refl True, of ok m'] 2(3,4) by (simp add: Let_def)
  next
    case False
    show ?thesis
    proof (cases "\<not> r \<and> strict")
      case True
      then show ?thesis using False 2(3) p d by (simp add: Let_def split: if_splits)
    next
      case more: False
      have "load_lines strict ls m1 = (ok, m')" using more False 2(3) p by (auto simp: Let_def)
      from 2(2) [OF refl False p [symmetric] more this] d show ?thesis by simp
    qed
  qed
qed simp

definition peer_keys :: "nat \<Rightarrow> string set" where
  "peer_keys n = (\<lambda>p. ''peer.'' @ decimal (fst p) @ ''.'' @ snd p) `
     ({1..<n} \<times> {''ifaddress'', ''localip'', ''localport'', ''remoteip'', ''remoteport''})"

lemma card_peer_keys: "card (peer_keys n) = 5 * (n - 1)"
proof -
  have "inj_on (\<lambda>p. ''peer.'' @ decimal (fst p) @ ''.'' @ snd p) A" for A
    by (rule inj_onI) (metis key_inj prod_eqI)
  then show ?thesis by (simp add: peer_keys_def card_image card_cartesian_product)
qed

lemma lower_names:
  "tolower ''ifAddress'' = ''ifaddress''" "tolower ''localIp'' = ''localip''" "tolower ''localPort'' = ''localport''"
  "tolower ''remoteIp'' = ''remoteip''" "tolower ''remotePort'' = ''remoteport''"
  by code_simp+

lemma getPeerConfig_dom: "getPeerConfig cfg i key \<noteq> [] \<Longrightarrow> ''peer.'' @ decimal i @ ''.'' @ tolower key \<in> dom cfg"
  unfolding getPeerConfig_def getValue_def key_lower by (auto split: option.splits)

lemma configured_keys:
  assumes "configured cfg i" and "k \<in> {''ifaddress'', ''localip'', ''localport'', ''remoteip'', ''remoteport''}"
  shows "''peer.'' @ decimal i @ ''.'' @ k \<in> dom cfg"
proof -
  from assms(1) have "getPeerConfig cfg i key \<noteq> []"
    if "key \<in> set [''ifAddress'', ''localIp'', ''localPort'', ''remoteIp'', ''remotePort'']" for key
    using that unfolding configured_def list_all_iff by blast
  then have "''peer.'' @ decimal i @ ''.'' @ tolower key \<in> dom cfg"
    if "key \<in> set [''ifAddress'', ''localIp'', ''localPort'', ''remoteIp'', ''remotePort'']" for key
    using that getPeerConfig_dom by blast
  note this [of "''ifAddress''"] this [of "''localIp''"] this [of "''localPort''"] this [of "''remoteIp''"]
    this [of "''remotePort''"]
  then show ?thesis using assms(2) unfolding lower_names by (elim insertE emptyE) simp_all
qed

lemma configured_bound:
  assumes "finite (dom cfg)" and "list_all (configured cfg) [1..<n]"
  shows "5 * (n - 1) \<le> card (dom cfg)"
proof -
  have c: "configured cfg i" if "i \<in> {1..<n}" for i using assms(2) that by (simp add: list_all_iff)
  have "peer_keys n \<subseteq> dom cfg" unfolding peer_keys_def
    by (rule image_subsetI, unfold mem_Times_iff) (elim conjE, rule configured_keys [OF c], assumption+)
  then show ?thesis using card_mono [OF assms(1)] card_peer_keys by metis
qed

lemma first_not_configured:
  assumes "finite (dom cfg)"
  obtains n where "1 \<le> n" "list_all (configured cfg) [1..<n]" "\<not> configured cfg n" "5 * (n - 1) \<le> card (dom cfg)"
proof -
  have "\<not> list_all (configured cfg) [1..<card (dom cfg) + 2]"
    using configured_bound [OF assms, of "card (dom cfg) + 2"] by fastforce
  then have ex: "\<exists>n. 1 \<le> n \<and> \<not> configured cfg n" unfolding list_all_iff by fastforce
  define n where "n = (LEAST n. 1 \<le> n \<and> \<not> configured cfg n)"
  have n: "1 \<le> n" "\<not> configured cfg n" using LeastI_ex [OF ex] by (simp_all add: n_def)
  have "configured cfg i" if "1 \<le> i" "i < n" for i using not_less_Least [of i] that unfolding n_def by blast
  then have "list_all (configured cfg) [1..<n]" by (simp add: list_all_iff)
  then show thesis using that [OF n(1) _ n(2)] configured_bound [OF assms] by blast
qed

lemma config_load_dom:
  assumes "config_load infile strict Map.empty = (ok, cfg)"
  shows "finite (dom cfg) \<and> card (dom cfg) \<le> (case infile of None \<Rightarrow> 0 | Some s \<Rightarrow> length (getlines s))"
  using assms load_lines_dom [of strict _ Map.empty ok cfg] by (auto simp: config_load_def split: option.splits)

text \<open>
  C19. The start of the node ends, whatever the configuration file, though its loop over the peers has no
  bound: with code -1 or -2, or with a node whose interfaces are the TCP interfaces of exactly the peers
  below the first that is not fully configured, less those whose address does not parse; a fifth of the
  lines of the file bounds them. Nothing else of the new node is touched.
\<close>

theorem startup_ends:
  "\<exists>r :: int + tcp_peer list \<times> 'q node. node_main place now infile = Some r \<and>
     (case r of
        Inl code \<Rightarrow>
          (if fst (config_load infile True Map.empty)
           then code = -2 \<and> getValue (snd (config_load infile True Map.empty)) ''ipcAddress'' = [] else code = -1)
      | Inr (ps, nd) \<Rightarrow> \<exists>content cfg n. infile = Some content \<and> config_load infile True Map.empty = (True, cfg) \<and>
          list_all (configured cfg) [1..<n] \<and> \<not> configured cfg n \<and> 5 * (n - 1) \<le> length (getlines content) \<and>
          ps = List.map_filter (peer_at cfg) [1..<n] \<and>
          mset (nd_interfaces nd) = mset (map (\<lambda>p. ti_iface (peer_tcpif p)) ps) \<and>
          nd\<lparr>nd_interfaces := []\<rparr> = CNode INPUT_QUEUE_SIZE (getValue cfg ''nodeName'') now)"
proof -
  obtain ok cfg where l: "config_load infile True Map.empty = (ok, cfg)" by (cases "config_load infile True Map.empty")
  let ?nd = "CNode INPUT_QUEUE_SIZE (getValue cfg ''nodeName'') now :: 'q node"
  consider "\<not> ok" | "ok" "getValue cfg ''ipcAddress'' = []" | "ok" "getValue cfg ''ipcAddress'' \<noteq> []" by blast
  then show ?thesis
  proof cases
    case 3
    obtain content where f: "infile = Some content" using l 3(1) by (cases infile) (auto simp: config_load_def)
    have "finite (dom cfg)" using config_load_dom [OF l] by blast
    then obtain n where n: "1 \<le> n" "list_all (configured cfg) [1..<n]" "\<not> configured cfg n" "5 * (n - 1) \<le> card (dom cfg)"
      using first_not_configured by blast
    have "\<forall>j. 1 \<le> j \<and> j < n \<longrightarrow> configured cfg j" using n(2) by (auto simp: list_all_iff)
    note peers_loop_upto [OF n(1) this n(3), of place "[]" "?nd"]
    then obtain ifs where p: "peers_loop place cfg 1 ([], ?nd) =
        Some (List.map_filter (peer_at cfg) [1..<n],
          ?nd\<lparr>nd_interfaces := ifs\<rparr>)"
      "mset ifs = mset (map (\<lambda>p. ti_iface (peer_tcpif p)) (List.map_filter (peer_at cfg) [1..<n]))"
      by (auto simp: CNode_def)
    have "5 * (n - 1) \<le> length (getlines content)" using n(4) config_load_dom [OF l] f by simp
    then have props: "infile = Some content" "config_load infile True Map.empty = (True, cfg)"
        "list_all (configured cfg) [1..<n]" "\<not> configured cfg n" "5 * (n - 1) \<le> length (getlines content)"
      using l f 3(1) n by simp_all
    have main: "node_main place now infile = Some (Inr (List.map_filter (peer_at cfg) [1..<n],
        ?nd\<lparr>nd_interfaces := ifs\<rparr>))"
      using l 3 p(1) by (simp add: node_main_def Let_def)
    have new: "?nd\<lparr>nd_interfaces := ifs, nd_interfaces := []\<rparr> = ?nd"
      by (simp add: CNode_def)
    show ?thesis
      by (rule exI, rule conjI [OF main], unfold sum.case prod.case,
        intro exI [of _ content] exI [of _ cfg] exI [of _ n] conjI) (use props p(2) new in simp_all)
  qed (simp_all add: node_main_def l)
qed

end
