(* ===== verification/Threads.thy ===== *)
theory Threads
  imports TcpInterface "HOL-Library.Multiset"
begin

text \<open>
  Threads and the servers that start one per connection: \<^verbatim>\<open>src/utils/cthread.cpp\<close>,
  \<^verbatim>\<open>src/utils/cthreadmanager.hpp\<close>, the accept loops of \<^verbatim>\<open>src/cppl/pipeserver.cpp\<close> (Linux)
  and \<^verbatim>\<open>src/tcp/ctcpserver.cpp\<close>. The lemmas account for every channel that a server started,
  and say when the server ends.
\<close>

section \<open>\<^verbatim>\<open>CThread\<close>\<close>

text \<open>
  A thread that runs on a channel \<open>'c\<close>, with its two flags. The second is set by the thread
  itself when its \<^verbatim>\<open>run\<close> returns; \<open>ends\<close> says of which threads it will return, as they are.
\<close>

record 'c thread =
  th_channel :: 'c
  mTerminated :: bool
  mFinished :: bool

definition CThread :: "'c \<Rightarrow> 'c thread" where
  "CThread c = \<lparr>th_channel = c, mTerminated = False, mFinished = False\<rparr>"

definition thread_start :: "'c thread \<Rightarrow> 'c thread" where
  "thread_start th = th\<lparr>mTerminated := False, mFinished := False\<rparr>"

definition terminate :: "'c thread \<Rightarrow> 'c thread" where
  "terminate th = th\<lparr>mTerminated := True\<rparr>"

definition thread_join :: "('c thread \<Rightarrow> bool) \<Rightarrow> 'c thread \<Rightarrow> 'c thread io" where
  "thread_join ends th = (if mFinished th \<or> ends th then ret (th\<lparr>mFinished := True\<rparr>) else None)"

definition joinIfFinished :: "('c thread \<Rightarrow> bool) \<Rightarrow> 'c thread \<Rightarrow> (bool \<times> 'c thread) io" where
  "joinIfFinished ends th =
     (if mFinished th then io_bind (thread_join ends th) (\<lambda>th. ret (True, th)) else ret (False, th))"

definition terminateAndJoin :: "('c thread \<Rightarrow> bool) \<Rightarrow> 'c thread \<Rightarrow> 'c thread io" where
  "terminateAndJoin ends th = thread_join ends (terminate th)"

section \<open>\<^verbatim>\<open>CThreadManager\<close>\<close>

text \<open>
  The set of pointers is a list without an order that matters; \<open>tm_deleted\<close> are the threads that
  were deleted, the last one first.
\<close>

record 'c thread_manager =
  mThreads :: "'c thread list"
  tm_deleted :: "'c thread list"

definition startThread :: "'c \<Rightarrow> 'c thread_manager \<Rightarrow> 'c thread_manager" where
  "startThread c m = m\<lparr>mThreads := thread_start (CThread c) # mThreads m\<rparr>"

text \<open>The two loops over the set, from the thread at \<open>it\<close> on; \<open>kept\<close> are those they went past.\<close>

fun join_finished :: "('c thread \<Rightarrow> bool) \<Rightarrow> 'c thread list \<Rightarrow> 'c thread list \<Rightarrow> int \<Rightarrow> 'c thread list \<Rightarrow>
    (int \<times> 'c thread_manager) io" where
  "join_finished ends [] kept joined_count deleted = ret (joined_count, \<lparr>mThreads = rev kept, tm_deleted = deleted\<rparr>)"
| "join_finished ends (it # ts) kept joined_count deleted =
     io_bind (joinIfFinished ends it) (\<lambda>(joined, it).
       if joined then join_finished ends ts kept (joined_count + 1) (it # deleted)
       else join_finished ends ts (it # kept) joined_count deleted)"

definition manager_joinIfFinished :: "('c thread \<Rightarrow> bool) \<Rightarrow> 'c thread_manager \<Rightarrow> (int \<times> 'c thread_manager) io" where
  "manager_joinIfFinished ends m = join_finished ends (mThreads m) [] 0 (tm_deleted m)"

fun terminate_all :: "('c thread \<Rightarrow> bool) \<Rightarrow> 'c thread list \<Rightarrow> 'c thread list \<Rightarrow> 'c thread_manager io" where
  "terminate_all ends [] deleted = ret \<lparr>mThreads = [], tm_deleted = deleted\<rparr>"
| "terminate_all ends (it # ts) deleted =
     io_bind (terminateAndJoin ends it) (\<lambda>it. terminate_all ends ts (it # deleted))"

definition manager_terminateAndJoin :: "('c thread \<Rightarrow> bool) \<Rightarrow> 'c thread_manager \<Rightarrow> 'c thread_manager io" where
  "manager_terminateAndJoin ends m = terminate_all ends (mThreads m) (tm_deleted m)"

section \<open>The servers\<close>

text \<open>
  One call of \<^verbatim>\<open>accept\<close>: its outcome, the channels whose threads return while it blocks, and
  whether the server's own thread has been told to stop when it comes back.
\<close>

datatype 'c accepted = AcceptTimesOut | AcceptFails | Accepts 'c

record 'c accept_call =
  ac_result :: "'c accepted"
  ac_ended :: "'c list"
  ac_stop :: bool

record 'c channel_server =
  cs_manager :: "'c thread_manager"
  cs_calls :: "'c accept_call list"

definition finish_in :: "'c list \<Rightarrow> 'c thread \<Rightarrow> 'c thread" where
  "finish_in ended th = (if th_channel th \<in> set ended then th\<lparr>mFinished := True\<rparr> else th)"

definition channels_round :: "('c thread \<Rightarrow> bool) \<Rightarrow> 'c channel_server \<Rightarrow> (ErrorCode option \<times> 'c channel_server) io" where
  "channels_round ends s =
     (case cs_calls s of
        [] \<Rightarrow> None
      | call # calls \<Rightarrow>
          let s = s\<lparr>cs_calls := calls\<rparr>;
              manager = (cs_manager s)\<lparr>mThreads := map (finish_in (ac_ended call)) (mThreads (cs_manager s))\<rparr>
          in if ac_stop call then
               io_bind (manager_terminateAndJoin ends manager) (\<lambda>manager. ret (Some TERMINATED, s\<lparr>cs_manager := manager\<rparr>))
             else io_bind (manager_joinIfFinished ends manager) (\<lambda>(joined, manager).
               case ac_result call of
                 AcceptTimesOut \<Rightarrow> ret (None, s\<lparr>cs_manager := manager\<rparr>)
               | AcceptFails \<Rightarrow> ret (Some FAILURE, s\<lparr>cs_manager := manager\<rparr>)
               | Accepts c \<Rightarrow> ret (None, s\<lparr>cs_manager := startThread c manager\<rparr>)))"

text \<open>
  The path of a socket has room for 108 bytes (\<^verbatim>\<open>sun_path\<close> in Linux), into which the name is copied.
  \<open>socket_ok\<close>, \<open>bind_ok\<close> and \<open>listen_ok\<close> are the outcomes of these calls; for TCP, \<open>bind_first\<close>
  has them for each address that \<^verbatim>\<open>getaddrinfo\<close> gave. The two loops are the same.
\<close>

definition sun_path_size :: nat where "sun_path_size = 108"

definition pipe_runProc :: "string \<Rightarrow> bool \<Rightarrow> bool \<Rightarrow> bool \<Rightarrow> ('c thread \<Rightarrow> bool) \<Rightarrow> 'c channel_server \<Rightarrow> (ErrorCode \<times> 'c channel_server) io" where
  "pipe_runProc pipename socket_ok bind_ok listen_ok ends s =
     (if \<not> socket_ok then ret (FAILURE, s)
      else if sun_path_size \<le> length pipename then Some (Inl OutOfRange)
      else if \<not> bind_ok then ret (FAILURE, s)
      else if \<not> listen_ok then ret (FAILURE, s)
      else io_loop (channels_round ends) s)"

definition tcp_runProc :: "binding list option \<Rightarrow> ('c thread \<Rightarrow> bool) \<Rightarrow> 'c channel_server \<Rightarrow> (ErrorCode \<times> 'c channel_server) io" where
  "tcp_runProc servinfo ends s =
     (case servinfo of
        None \<Rightarrow> ret (FAILURE, s)
      | Some bs \<Rightarrow> if \<not> bind_first bs then ret (FAILURE, s) else io_loop (channels_round ends) s)"

section \<open>What the loops over the threads do\<close>

lemma join_finished_eq:
  "join_finished ends ts kept n deleted =
     ret (n + int (length (filter mFinished ts)),
       \<lparr>mThreads = rev kept @ filter (\<lambda>t. \<not> mFinished t) ts, tm_deleted = rev (filter mFinished ts) @ deleted\<rparr>)"
  by (induction ts arbitrary: kept n deleted) (simp_all add: joinIfFinished_def thread_join_def)

definition ended_by_force :: "'c thread \<Rightarrow> 'c thread" where
  "ended_by_force t = (terminate t)\<lparr>mFinished := True\<rparr>"

lemma terminate_all_eq:
  assumes "\<And>t. mTerminated t \<Longrightarrow> ends t"
  shows "terminate_all ends ts deleted = ret \<lparr>mThreads = [], tm_deleted = rev (map ended_by_force ts) @ deleted\<rparr>"
proof (induction ts arbitrary: deleted)
  case (Cons t ts)
  have "ends (terminate t)" by (rule assms) (simp add: terminate_def)
  then show ?case using Cons by (simp add: terminateAndJoin_def thread_join_def ended_by_force_def)
qed simp

text \<open>The calls of \<^verbatim>\<open>accept\<close> after which a server goes on, and the channels it starts for them.\<close>

definition goes_on_after :: "'c accept_call \<Rightarrow> bool" where
  "goes_on_after call \<longleftrightarrow> \<not> ac_stop call \<and> ac_result call \<noteq> AcceptFails"

definition started_by :: "'c accept_call list \<Rightarrow> 'c multiset" where
  "started_by calls = (\<Sum>call\<leftarrow>calls. case ac_result call of Accepts c \<Rightarrow> {#c#} | _ \<Rightarrow> {#})"

text \<open>
  The channels of a server: those of its threads, which nobody has told to stop, and of the deleted
  ones, which had returned.
\<close>

definition channels_of :: "'c thread_manager \<Rightarrow> 'c multiset" where
  "channels_of m = mset (map th_channel (mThreads m)) + mset (map th_channel (tm_deleted m))"

definition manager_ok :: "'c thread_manager \<Rightarrow> bool" where
  "manager_ok m \<longleftrightarrow> list_all (\<lambda>t. \<not> mTerminated t) (mThreads m) \<and> list_all mFinished (tm_deleted m)"

definition after_joins :: "'c list \<Rightarrow> 'c thread_manager \<Rightarrow> 'c thread_manager" where
  "after_joins ended m = (let ts = map (finish_in ended) (mThreads m)
     in \<lparr>mThreads = filter (\<lambda>t. \<not> mFinished t) ts, tm_deleted = rev (filter mFinished ts) @ tm_deleted m\<rparr>)"

lemma finish_in_simps [simp]: "th_channel (finish_in e t) = th_channel t" "mTerminated (finish_in e t) = mTerminated t"
  by (simp_all add: finish_in_def)

lemma mset_partition: "mset (map f (filter (\<lambda>t. \<not> P t) ts)) + mset (map f (filter P ts)) = mset (map f ts)"
  by (induction ts) simp_all

lemma after_joins_ok:
  assumes "manager_ok m"
  shows "manager_ok (after_joins ended m)" "channels_of (after_joins ended m) = channels_of m"
    "list_all (\<lambda>t. \<not> mFinished t) (mThreads (after_joins ended m))"
proof -
  show "manager_ok (after_joins ended m)" "list_all (\<lambda>t. \<not> mFinished t) (mThreads (after_joins ended m))"
    using assms by (auto simp: manager_ok_def after_joins_def Let_def list_all_iff)
  let ?ts = "map (finish_in ended) (mThreads m)"
  have "channels_of (after_joins ended m) = (mset (map th_channel (filter (\<lambda>t. \<not> mFinished t) ?ts)) +
      mset (map th_channel (filter mFinished ?ts))) + mset (map th_channel (tm_deleted m))"
    by (simp add: channels_of_def after_joins_def Let_def rev_map [symmetric])
  also have "\<dots> = channels_of m" unfolding mset_partition by (simp add: channels_of_def comp_def)
  finally show "channels_of (after_joins ended m) = channels_of m" .
qed

lemma manager_joins:
  "manager_joinIfFinished ends (m\<lparr>mThreads := map (finish_in ended) (mThreads m)\<rparr>) =
     ret (int (length (filter mFinished (map (finish_in ended) (mThreads m)))), after_joins ended m)"
  by (simp add: manager_joinIfFinished_def join_finished_eq after_joins_def Let_def)

lemma manager_ends:
  assumes "\<And>t. mTerminated t \<Longrightarrow> ends t" and "manager_ok m"
  shows "\<exists>m'. manager_terminateAndJoin ends (m\<lparr>mThreads := map (finish_in ended) (mThreads m)\<rparr>) = ret m' \<and>
    mThreads m' = [] \<and> channels_of m' = channels_of m \<and> list_all mFinished (tm_deleted m')"
proof -
  let ?m = "\<lparr>mThreads = [], tm_deleted = rev (map ended_by_force (map (finish_in ended) (mThreads m))) @ tm_deleted m\<rparr>"
  have "channels_of ?m = channels_of m"
    by (simp add: channels_of_def ended_by_force_def terminate_def comp_def rev_map [symmetric])
  moreover have "list_all mFinished (tm_deleted ?m)"
    using assms(2) by (auto simp: manager_ok_def list_all_iff ended_by_force_def)
  ultimately show ?thesis by (auto simp: manager_terminateAndJoin_def terminate_all_eq [OF assms(1)])
qed

lemma channels_round_on:
  assumes "goes_on_after call"
  shows "channels_round ends \<lparr>cs_manager = m, cs_calls = call # calls\<rparr> =
    ret (None, \<lparr>cs_manager = (case ac_result call of Accepts c \<Rightarrow> startThread c | _ \<Rightarrow> id) (after_joins (ac_ended call) m), cs_calls = calls\<rparr>)"
  using assms by (cases "ac_result call")
    (simp_all add: channels_round_def goes_on_after_def manager_joins Let_def)

lemma channels_loop:
  assumes ends: "\<And>t. mTerminated t \<Longrightarrow> ends t" and "manager_ok m" and "\<not> goes_on_after final"
    and "\<forall>call\<in>set used. goes_on_after call"
  shows "\<exists>code m'. io_loop (channels_round ends) \<lparr>cs_manager = m, cs_calls = used @ final # calls\<rparr> =
      ret (code, \<lparr>cs_manager = m', cs_calls = calls\<rparr>) \<and>
    channels_of m' = channels_of m + started_by used \<and> list_all mFinished (tm_deleted m') \<and>
    (if ac_stop final then code = TERMINATED \<and> mThreads m' = []
     else code = FAILURE \<and> list_all (\<lambda>t. \<not> mTerminated t \<and> \<not> mFinished t) (mThreads m'))"
  using assms(2,4)
proof (induction used arbitrary: m)
  case Nil
  show ?case
  proof (cases "ac_stop final")
    case True
    obtain m' where "manager_terminateAndJoin ends (m\<lparr>mThreads := map (finish_in (ac_ended final)) (mThreads m)\<rparr>) = ret m'"
      and m': "mThreads m' = []" "channels_of m' = channels_of m" "list_all mFinished (tm_deleted m')"
      using manager_ends [of ends m, OF ends Nil(1)] by blast
    then have "channels_round ends \<lparr>cs_manager = m, cs_calls = [] @ final # calls\<rparr> = ret (Some TERMINATED, \<lparr>cs_manager = m', cs_calls = calls\<rparr>)"
      using True by (simp add: channels_round_def)
    note io_loop_leaves [where body = "channels_round ends", OF this]
    then show ?thesis using True m' by (auto simp: started_by_def)
  next
    case False
    then have "ac_result final = AcceptFails" using assms(3) by (simp add: goes_on_after_def)
    then have "channels_round ends \<lparr>cs_manager = m, cs_calls = [] @ final # calls\<rparr> =
        ret (Some FAILURE, \<lparr>cs_manager = after_joins (ac_ended final) m, cs_calls = calls\<rparr>)"
      using False by (simp add: channels_round_def manager_joins Let_def)
    note io_loop_leaves [where body = "channels_round ends", OF this]
    then show ?thesis
      using after_joins_ok [OF Nil(1), of "ac_ended final"] False by (auto simp: started_by_def manager_ok_def list_all_iff)
  qed
next
  case (Cons call used)
  let ?m = "(case ac_result call of Accepts c \<Rightarrow> startThread c | _ \<Rightarrow> id) (after_joins (ac_ended call) m)"
  have r: "channels_round ends \<lparr>cs_manager = m, cs_calls = (call # used) @ final # calls\<rparr> =
      ret (None, \<lparr>cs_manager = ?m, cs_calls = used @ final # calls\<rparr>)"
    using channels_round_on [of call ends m "used @ final # calls"] Cons.prems(2) by simp
  note j = after_joins_ok [OF Cons.prems(1), of "ac_ended call"]
  have "manager_ok ?m" "channels_of ?m = channels_of m + (case ac_result call of Accepts c \<Rightarrow> {#c#} | _ \<Rightarrow> {#})"
    using j by (cases "ac_result call"; simp add: manager_ok_def startThread_def thread_start_def CThread_def channels_of_def)+
  then show ?case
    using Cons.IH [of ?m] Cons.prems(2) unfolding io_loop_round [where body = "channels_round ends", OF r] by (simp add: started_by_def add.assoc)
qed

section \<open>Properties\<close>

text \<open>
  C40. The servers account for their channels. A server of a pipe or a port, once it is set up and
  when every thread that is told to stop does stop, ends with the first call of \<^verbatim>\<open>accept\<close> that
  fails or finds it told to stop. Until then exactly one channel was started per connection. Told to
  stop, it has ended and deleted all of them, but a connection that came in together with the order
  to stop got no channel; after a failure it has deleted those that had returned, and the others go
  on, which nobody will tell to stop or join.
\<close>

theorem servers_account_for_channels:
  assumes "\<And>t. mTerminated t \<Longrightarrow> ends t" and "bind_first bs" and "length pipename < sun_path_size" and "\<not> goes_on_after final" and "list_all goes_on_after used"
  shows "\<exists>code m'. let s = \<lparr>cs_manager = \<lparr>mThreads = [], tm_deleted = []\<rparr>, cs_calls = used @ final # calls\<rparr>;
       s' = \<lparr>cs_manager = m', cs_calls = calls\<rparr>
     in pipe_runProc pipename True True True ends s = ret (code, s') \<and> tcp_runProc (Some bs) ends s = ret (code, s') \<and>
       channels_of m' = started_by used \<and> list_all mFinished (tm_deleted m') \<and>
       (if ac_stop final then code = TERMINATED \<and> mThreads m' = []
        else code = FAILURE \<and> list_all (\<lambda>t. \<not> mTerminated t \<and> \<not> mFinished t) (mThreads m'))"
proof -
  have "manager_ok \<lparr>mThreads = [], tm_deleted = []\<rparr>" by (simp add: manager_ok_def)
  from channels_loop [OF assms(1) this assms(4), where used = used and calls = calls] assms(5)
  show ?thesis using assms(2,3) by (simp add: pipe_runProc_def tcp_runProc_def Let_def channels_of_def list_all_iff)
qed

lemma servers_account_for_channels_witness:
  "\<exists>m'. pipe_runProc ''/tmp/api'' True True True mTerminated \<lparr>cs_manager = \<lparr>mThreads = [], tm_deleted = []\<rparr>,
       cs_calls = [\<lparr>ac_result = Accepts (7 :: nat), ac_ended = [], ac_stop = False\<rparr>, \<lparr>ac_result = AcceptTimesOut, ac_ended = [7], ac_stop = False\<rparr>,
         \<lparr>ac_result = Accepts 8, ac_ended = [], ac_stop = False\<rparr>, \<lparr>ac_result = Accepts 9, ac_ended = [], ac_stop = True\<rparr>]\<rparr> =
       ret (TERMINATED, \<lparr>cs_manager = m', cs_calls = []\<rparr>) \<and> channels_of m' = {#7, 8#}"
  using servers_account_for_channels [of mTerminated "[Binds True]" "''/tmp/api''" "\<lparr>ac_result = Accepts 9, ac_ended = [], ac_stop = True\<rparr>"
      "[\<lparr>ac_result = Accepts (7 :: nat), ac_ended = [], ac_stop = False\<rparr>, \<lparr>ac_result = AcceptTimesOut, ac_ended = [7], ac_stop = False\<rparr>,
         \<lparr>ac_result = Accepts 8, ac_ended = [], ac_stop = False\<rparr>]" "[]"]
  by (auto simp: goes_on_after_def started_by_def sun_path_size_def Let_def)

end
