(* ===== verification/Windows.thy ===== *)
theory Windows
  imports Threads
begin

text \<open>
  The Windows branches of the pipes: \<^verbatim>\<open>src/cppl/helper.cpp\<close>, \<^verbatim>\<open>src/cppl/pipeserver.cpp\<close> and
  \<^verbatim>\<open>src/cppl/pipeclient.cpp\<close>. As in theory Sockets, the system is a script of the outcomes of its
  calls, and one that runs out is a call that blocks for ever. The lemmas show what arrives in a
  pipe, with and without time-outs, and what the server does with its channels and their handles.
\<close>

section \<open>Errors and waits\<close>

text \<open>The codes of \<^verbatim>\<open>GetLastError\<close> that the code tells apart, and the answers of \<^verbatim>\<open>WaitForSingleObject\<close>.\<close>

datatype win_error = ERROR_SUCCESS | ERROR_IO_PENDING | ERROR_NO_DATA | ERROR_BROKEN_PIPE | ERROR_PIPE_CONNECTED
  | ERROR_PIPE_BUSY | OTHER_ERROR

datatype win_wait = WAIT_OBJECT_0 | WAIT_TIMEOUT | WAIT_ABANDONED | WAIT_FAILED

section \<open>\<^verbatim>\<open>cppl_win_sendall_stream\<close>\<close>

text \<open>
  One round of the loop: the answers of \<^verbatim>\<open>isTerminated\<close> and \<^verbatim>\<open>ResetEvent\<close>, the error after
  \<^verbatim>\<open>WriteFile\<close>, how the wait for it ends, and the error of \<^verbatim>\<open>GetOverlappedResult\<close>, if any.
  \<open>wc_taken\<close> is how many bytes the system takes of this write. A wait that times out does not
  cancel the write, so that it takes them all the same.
\<close>

record write_call =
  wc_stop :: bool
  wc_reset :: bool
  wc_error :: win_error
  wc_wait :: win_wait
  wc_taken :: nat
  wc_result :: "win_error option"

text \<open>\<open>totalSent\<close> (\<^verbatim>\<open>total\<close>), \<open>bytesleft\<close>, \<open>n\<close> and \<open>len\<close> are the variables of the code, as in \<open>send_loop\<close>.\<close>

fun win_send_loop :: "bytes \<Rightarrow> u32 \<Rightarrow> int \<Rightarrow> int \<Rightarrow> int \<Rightarrow> write_call list \<Rightarrow>
    ((ErrorCode \<times> int \<times> bytes) \<times> write_call list) option" where
  "win_send_loop buf n len totalSent bytesleft calls =
     (if totalSent < len then
        (case calls of
           [] \<Rightarrow> None
         | c # calls \<Rightarrow>
             if wc_stop c then Some ((TERMINATED, len, []), calls)
             else if \<not> wc_reset c then Some ((FAILURE, len, []), calls)
             else if wc_error c \<noteq> ERROR_IO_PENDING \<and> wc_error c \<noteq> ERROR_SUCCESS
             then Some ((if wc_error c = ERROR_NO_DATA then PEER_DISCONNECT else FAILURE, len, []), calls)
             else
               let out = take (min (wc_taken c) (nat bytesleft)) (drop (nat totalSent) buf)
               in if wc_wait c = WAIT_ABANDONED \<or> wc_wait c = WAIT_FAILED then Some ((FAILURE, len, out), calls)
                  else if wc_wait c = WAIT_TIMEOUT
                  then map_option (\<lambda>((code, len', out'), calls). ((code, len', out @ out'), calls))
                         (win_send_loop buf n len totalSent bytesleft calls)
                  else case wc_result c of
                      Some e \<Rightarrow> Some ((if e = ERROR_BROKEN_PIPE then PEER_DISCONNECT else FAILURE, len, out), calls)
                    | None \<Rightarrow>
                        let n = word_of_nat (length out)
                        in if n = 0 then Some ((FAILURE, len, out), calls)
                           else map_option (\<lambda>((code, len', out'), calls). ((code, len', out @ out'), calls))
                                  (win_send_loop buf n len (totalSent + uint n) (bytesleft - uint n) calls))
      else Some ((if n = - 1 then FAILURE else SUCCESS, totalSent, []), calls))"

declare win_send_loop.simps [simp del]

section \<open>\<^verbatim>\<open>cppl_win_read\<close>\<close>

text \<open>
  The waits of one read: how each ends, whether the thread has then been told to stop, and whether
  \<^verbatim>\<open>ResetEvent\<close> succeeds. The result is nothing when a wait sees the end of the read.
\<close>

fun win_read_waits :: "(win_wait \<times> bool \<times> bool) list \<Rightarrow> ErrorCode option option" where
  "win_read_waits [] = None"
| "win_read_waits ((rval, stop, reset) # ws) =
     (if stop then Some (Some TERMINATED)
      else if rval = WAIT_OBJECT_0 then Some None
      else if rval = WAIT_TIMEOUT then (if \<not> reset then Some (Some FAILURE) else win_read_waits ws)
      else Some (Some FAILURE))"

text \<open>\<open>rc_given\<close> is how many bytes the system gives to the read, whether somebody waits for them or not.\<close>

record read_call =
  rc_event :: bool
  rc_stop :: bool
  rc_reset :: bool
  rc_error :: win_error
  rc_waits :: "(win_wait \<times> bool \<times> bool) list"
  rc_given :: nat
  rc_result :: "win_error option"

record win_pipe =
  wp_valid :: bool
  wp_writes :: "write_call list"
  wp_reads :: "read_call list"
  wp_incoming :: bytes
  wp_wire :: bytes

definition cppl_win_sendall_stream :: "bytes \<Rightarrow> int \<Rightarrow> win_pipe \<Rightarrow> (ErrorCode \<times> win_pipe) option" where
  "cppl_win_sendall_stream buf len hPipe =
     (if \<not> wp_valid hPipe then Some (FAILURE, hPipe)
      else map_option (\<lambda>((code, _, out), calls). (code, hPipe\<lparr>wp_writes := calls, wp_wire := wp_wire hPipe @ out\<rparr>))
             (win_send_loop buf 0 len 0 len (wp_writes hPipe)))"

definition cppl_win_read :: "u32 \<Rightarrow> win_pipe \<Rightarrow> (read_result \<times> win_pipe) option" where
  "cppl_win_read dataSize hPipe =
     (if \<not> wp_valid hPipe then Some ((FAILURE, None, []), hPipe)
      else case wp_reads hPipe of
          [] \<Rightarrow> None
        | c # cs \<Rightarrow>
            let hPipe = hPipe\<lparr>wp_reads := cs\<rparr>
            in if \<not> rc_event c then Some ((FAILURE, None, []), hPipe)
               else if rc_stop c then Some ((TERMINATED, None, []), hPipe)
               else if \<not> rc_reset c then Some ((FAILURE, None, []), hPipe)
               else if rc_error c \<noteq> ERROR_IO_PENDING \<and> rc_error c \<noteq> ERROR_SUCCESS
               then Some ((if rc_error c = ERROR_BROKEN_PIPE then PEER_DISCONNECT else FAILURE, None, []), hPipe)
               else
                 let given = min (rc_given c) (unat dataSize);
                     data = take given (wp_incoming hPipe);
                     hPipe = hPipe\<lparr>wp_incoming := drop given (wp_incoming hPipe)\<rparr>
                 in map_option (\<lambda>ended.
                      (case ended of
                         Some code \<Rightarrow> ((code, None, []), hPipe)
                       | None \<Rightarrow> (case rc_result c of
                             Some e \<Rightarrow> ((if e = ERROR_BROKEN_PIPE then PEER_DISCONNECT else FAILURE, None, []), hPipe)
                           | None \<Rightarrow> ((SUCCESS, Some (word_of_nat (length data)), data), hPipe))))
                      (win_read_waits (rc_waits c)))"

section \<open>\<^verbatim>\<open>PipeClient::open\<close>\<close>

text \<open>On Linux: a socket, the copy of the path into it, and \<^verbatim>\<open>connect\<close>.\<close>

definition pipeclient_open :: "string \<Rightarrow> bool \<Rightarrow> bool \<Rightarrow> ErrorCode io" where
  "pipeclient_open pipename socket_ok connect_ok =
     (if \<not> socket_ok then ret FAILURE
      else if sun_path_size \<le> length pipename then Some (Inl OutOfRange)
      else if \<not> connect_ok then ret FAILURE else ret SUCCESS)"

text \<open>
  On Windows, one round of the loop: the pipe is opened, and its mode set or not; or it is not, with
  an error, and \<^verbatim>\<open>WaitNamedPipe\<close> succeeds or not.
\<close>

datatype pipe_opening = Opens bool | OpenFails win_error bool

fun create_file_loop :: "pipe_opening list \<Rightarrow> ErrorCode io" where
  "create_file_loop [] = None"
| "create_file_loop (Opens fSuccess # os) = (if \<not> fSuccess then ret FAILURE else ret SUCCESS)"
| "create_file_loop (OpenFails e waited # os) =
     (if e \<noteq> ERROR_PIPE_BUSY then ret FAILURE
      else if \<not> waited then ret FAILURE else create_file_loop os)"

definition pipeclient_open_win :: "string \<Rightarrow> bool \<Rightarrow> pipe_opening list \<Rightarrow> ErrorCode io" where
  "pipeclient_open_win pipename converted os =
     (if 512 \<le> length pipename then ret FAILURE
      else if \<not> converted then ret FAILURE else create_file_loop os)"

section \<open>\<^verbatim>\<open>PipeServer::runProc\<close>\<close>

text \<open>
  A channel is named by the handle of its pipe. One wait for a client: how it ends, whether the
  server has then been told to stop, the channels whose threads have returned, and \<^verbatim>\<open>ResetEvent\<close>.
\<close>

record 'c client_wait =
  cw_rval :: win_wait
  cw_stop :: bool
  cw_ended :: "'c list"
  cw_reset :: bool

record 'c pipe_round =
  pr_stop :: bool
  pr_ended :: "'c list"
  pr_pipe :: "'c option"
  pr_error :: win_error
  pr_waits :: "'c client_wait list"

text \<open>
  \<open>ws_events\<close> records, in order, the pipes the server closes and the channels whose threads are
  running when it ends the threads.
\<close>

datatype 'c server_event = ClosesHandle 'c | EndsThreads "'c list"

record 'c win_server =
  ws_manager :: "'c thread_manager"
  ws_hPipe :: "'c option"
  ws_events :: "'c server_event list"
  ws_rounds :: "'c pipe_round list"

definition CloseHandle :: "'c win_server \<Rightarrow> 'c win_server" where
  "CloseHandle s = (case ws_hPipe s of None \<Rightarrow> s | Some h \<Rightarrow> s\<lparr>ws_events := ws_events s @ [ClosesHandle h]\<rparr>)"

definition running_in :: "'c thread_manager \<Rightarrow> 'c list" where
  "running_in m = map th_channel (filter (\<lambda>t. \<not> mFinished t) (mThreads m))"

text \<open>The threads that return meanwhile, and what the two calls of the manager then do.\<close>

definition server_ends :: "('c thread \<Rightarrow> bool) \<Rightarrow> 'c list \<Rightarrow> 'c win_server \<Rightarrow> (ErrorCode option \<times> 'c win_server) io" where
  "server_ends ends ended s =
     (let s = CloseHandle s;
          m = (ws_manager s)\<lparr>mThreads := map (finish_in ended) (mThreads (ws_manager s))\<rparr>;
          s = s\<lparr>ws_events := ws_events s @ [EndsThreads (running_in m)]\<rparr>
      in io_bind (manager_terminateAndJoin ends m) (\<lambda>m. ret (Some TERMINATED, s\<lparr>ws_manager := m\<rparr>)))"

definition server_joins :: "('c thread \<Rightarrow> bool) \<Rightarrow> 'c list \<Rightarrow> 'c win_server \<Rightarrow> 'c win_server io" where
  "server_joins ends ended s =
     (let m = ws_manager s
      in io_bind (manager_joinIfFinished ends (m\<lparr>mThreads := map (finish_in ended) (mThreads m)\<rparr>))
           (\<lambda>(joined, m). ret (s\<lparr>ws_manager := m\<rparr>)))"

fun wait_for_client :: "('c thread \<Rightarrow> bool) \<Rightarrow> 'c client_wait list \<Rightarrow> 'c win_server \<Rightarrow> (ErrorCode option \<times> 'c win_server) io" where
  "wait_for_client ends [] s = None"
| "wait_for_client ends (w # ws) s =
     (if cw_stop w then server_ends ends (cw_ended w) s
      else io_bind (server_joins ends (cw_ended w) s) (\<lambda>s.
        if cw_rval w = WAIT_OBJECT_0 then ret (None, s)
        else if cw_rval w = WAIT_TIMEOUT
        then (if \<not> cw_reset w then ret (Some FAILURE, CloseHandle s) else wait_for_client ends ws s)
        else ret (Some FAILURE, CloseHandle s)))"

definition win_round :: "('c thread \<Rightarrow> bool) \<Rightarrow> 'c win_server \<Rightarrow> (ErrorCode option \<times> 'c win_server) io" where
  "win_round ends s =
     (case ws_rounds s of
        [] \<Rightarrow> None
      | r # rs \<Rightarrow>
          let s = s\<lparr>ws_rounds := rs\<rparr>
          in if pr_stop r then server_ends ends (pr_ended r) s
             else io_bind (server_joins ends (pr_ended r) s) (\<lambda>s.
               let s = s\<lparr>ws_hPipe := pr_pipe r\<rparr>
               in case pr_pipe r of
                    None \<Rightarrow> ret (Some FAILURE, CloseHandle s)
                  | Some h \<Rightarrow>
                      if pr_error r \<noteq> ERROR_IO_PENDING \<and> pr_error r \<noteq> ERROR_SUCCESS \<and> pr_error r \<noteq> ERROR_PIPE_CONNECTED
                      then ret (Some FAILURE, CloseHandle s)
                      else io_bind (wait_for_client ends (pr_waits r) s) (\<lambda>(code, s).
                        case code of
                          Some code \<Rightarrow> ret (Some code, s)
                        | None \<Rightarrow> ret (None, s\<lparr>ws_manager := startThread h (ws_manager s)\<rparr>))))"

definition win_runProc :: "string \<Rightarrow> bool \<Rightarrow> bool \<Rightarrow> ('c thread \<Rightarrow> bool) \<Rightarrow> 'c win_server \<Rightarrow> (ErrorCode \<times> 'c win_server) io" where
  "win_runProc pipename converted event ends s =
     (let s = s\<lparr>ws_hPipe := None\<rparr>
      in if 256 \<le> length pipename then ret (FAILURE, s)
         else if \<not> converted then ret (FAILURE, s)
         else if \<not> event then ret (FAILURE, s)
         else io_loop (win_round ends) s)"

section \<open>What arrives in a pipe\<close>

text \<open>A write that the wait sees the end of, and one that takes longer than the wait.\<close>

definition issued :: "write_call \<Rightarrow> bool" where
  "issued c \<longleftrightarrow> \<not> wc_stop c \<and> wc_reset c \<and> (wc_error c = ERROR_IO_PENDING \<or> wc_error c = ERROR_SUCCESS)"

definition in_time :: "write_call \<Rightarrow> bool" where
  "in_time c \<longleftrightarrow> issued c \<and> wc_wait c = WAIT_OBJECT_0 \<and> wc_result c = None \<and> 0 < wc_taken c"

definition times_out :: "write_call \<Rightarrow> bool" where
  "times_out c \<longleftrightarrow> issued c \<and> wc_wait c = WAIT_TIMEOUT"

lemma win_send_in_time:
  assumes "list_all in_time cs" and "t \<le> length buf" and "length buf < 2 ^ 31" and "length buf - t \<le> length cs" and "n \<noteq> - 1"
  shows "\<exists>cs'. win_send_loop buf n (int (length buf)) (int t) (int (length buf - t)) cs =
      Some ((SUCCESS, int (length buf), drop t buf), cs') \<and> list_all in_time cs' \<and>
    length cs - (length buf - t) \<le> length cs'"
  using assms
proof (induction cs arbitrary: t n)
  case Nil
  then show ?case by (subst win_send_loop.simps) simp
next
  case (Cons c cs)
  show ?case
  proof (cases "t < length buf")
    case False
    then show ?thesis using Cons.prems by (subst win_send_loop.simps) simp
  next
    case True
    define k where "k = min (wc_taken c) (length buf - t)"
    define m where "m = (word_of_nat k :: u32)"
    have k: "0 < k" "k < 2 ^ 31" "t + k \<le> length buf" "length buf - (t + k) \<le> length cs"
      using True Cons.prems(1,3,4) by (auto simp: in_time_def k_def)
    have "unat m = k" using k(2) by (simp add: m_def unsigned_of_nat take_bit_eq_mod)
    moreover have "unat (0 :: u32) = 0" "unat (- 1 :: u32) = 2 ^ 32 - 1"
      by (simp_all add: unsigned_minus_1_eq_mask mask_eq_exp_minus_1)
    ultimately have m: "uint m = int k" "m \<noteq> 0" "m \<noteq> - 1"
      using k(1,2) by (simp add: uint_nat, metis less_irrefl, auto)
    have "list_all in_time cs" using Cons.prems(1) by simp
    from Cons.IH [OF this k(3) Cons.prems(3) k(4) m(3)]
    obtain cs' where IH: "win_send_loop buf m (int (length buf)) (int (t + k)) (int (length buf - (t + k))) cs =
        Some ((SUCCESS, int (length buf), drop (t + k) buf), cs')" "list_all in_time cs'" "length cs - (length buf - (t + k)) \<le> length cs'"
      by blast
    have e: "int t + uint m = int (t + k)" "int (length buf - t) - uint m = int (length buf - (t + k))"
      using m(1) k(3) by auto
    have out: "length (take k (drop t buf)) = k" "take k (drop t buf) @ drop (t + k) buf = drop t buf"
      using k(3) by (auto simp: add.commute) (metis append_take_drop_id drop_drop)
    have kk: "min (wc_taken c) (nat (int (length buf - t))) = k" "nat (int t) = t" by (simp_all only: nat_int k_def)
    have "win_send_loop buf n (int (length buf)) (int t) (int (length buf - t)) (c # cs) =
        map_option (\<lambda>((code, len', out'), calls). ((code, len', take k (drop t buf) @ out'), calls))
          (win_send_loop buf m (int (length buf)) (int t + uint m) (int (length buf - t) - uint m) cs)"
      using Cons.prems(1) True m(2)
      by (subst win_send_loop.simps) (auto simp: in_time_def issued_def Let_def kk out(1) m_def [symmetric] simp del: length_take of_nat_diff nat_int)
    then show ?thesis unfolding e using IH out(2) k(1,3) Cons.prems(1) True by auto
  qed
qed

lemma win_send_times_out:
  assumes "times_out c" and "buf \<noteq> []"
  shows "win_send_loop buf n (int (length buf)) 0 (int (length buf)) (c # cs) =
    map_option (\<lambda>((code, len', out'), calls). ((code, len', take (wc_taken c) buf @ out'), calls))
      (win_send_loop buf n (int (length buf)) 0 (int (length buf)) cs)"
proof -
  have "take (min (wc_taken c) (length buf)) buf = take (wc_taken c) buf" by (simp add: min_def)
  then show ?thesis
    using assms by (subst win_send_loop.simps) (auto simp: times_out_def issued_def Let_def)
qed

lemma win_send_late:
  assumes "list_all times_out late" and "buf \<noteq> []"
  shows "win_send_loop buf n (int (length buf)) 0 (int (length buf)) (late @ cs) =
    map_option (\<lambda>((code, len', out'), calls). ((code, len', concat (map (\<lambda>c. take (wc_taken c) buf) late) @ out'), calls))
      (win_send_loop buf n (int (length buf)) 0 (int (length buf)) cs)"
  using assms(1)
  by (induction late) (auto simp: win_send_times_out [OF _ assms(2)] option.map_comp comp_def split_def option.map_ident)

text \<open>\<^verbatim>\<open>CpplStreamRW::writeSome\<close>, as in theory Sockets, over the pipe of Windows.\<close>

definition win_writeSome :: "win_pipe writer" where
  "win_writeSome data p =
     (let dataSize = (word_of_nat (length data) :: u32)
      in case cppl_win_sendall_stream data (sint dataSize) p of
           None \<Rightarrow> None
         | Some (code, p') \<Rightarrow> ret (if code = SUCCESS then sint dataSize else -1, p'))"

definition win_sends :: "win_pipe \<Rightarrow> bool" where
  "win_sends p \<longleftrightarrow> wp_valid p \<and> list_all in_time (wp_writes p)"

lemma win_sendall_in_time:
  assumes "win_sends p" and "length data < 2 ^ 31" and "length data \<le> length (wp_writes p)"
  shows "\<exists>p'. cppl_win_sendall_stream data (int (length data)) p = Some (SUCCESS, p') \<and> wp_wire p' = wp_wire p @ data \<and>
    length (wp_writes p) - length data \<le> length (wp_writes p') \<and> win_sends p'"
  using win_send_in_time [of "wp_writes p" 0 data 0] assms by (auto simp: cppl_win_sendall_stream_def win_sends_def)

interpretation win_snk: byte_sink win_writeSome win_sends "\<lambda>p. length (wp_writes p)" wp_wire
proof (standard, goal_cases)
  case (1 p data)
  then show ?case
    using win_sendall_in_time [of p data] by (intro exI [of _ "length data"]) (auto simp: win_writeSome_def sint_data)
qed

text \<open>A pipe with writes to come, for an example.\<close>

definition late_write :: write_call where
  "late_write = \<lparr>wc_stop = False, wc_reset = True, wc_error = ERROR_IO_PENDING, wc_wait = WAIT_TIMEOUT, wc_taken = 2, wc_result = None\<rparr>"

definition good_write :: write_call where
  "good_write = \<lparr>wc_stop = False, wc_reset = True, wc_error = ERROR_IO_PENDING, wc_wait = WAIT_OBJECT_0, wc_taken = 9, wc_result = None\<rparr>"

definition sample_pipe :: "write_call list \<Rightarrow> write_call list \<Rightarrow> win_pipe" where
  "sample_pipe late cs = \<lparr>wp_valid = True, wp_writes = late @ cs, wp_reads = [], wp_incoming = [], wp_wire = []\<rparr>"

text \<open>
  C38. A slow reader of a Windows pipe gets data twice. When the waits for some writes time out before
  others end in time, the call succeeds, and the pipe has carried, before the data, the beginning of
  the data once more for each write that timed out, as much of it as the system took: the code writes
  again what a write that it does not cancel is still writing. Without a time-out the pipe carries
  the data as they are.
\<close>

theorem timed_out_writes_repeat:
  assumes "wp_valid p" and "wp_writes p = late @ cs" and "list_all times_out late" and "list_all in_time cs"
    and "data \<noteq> []" and "length data < 2 ^ 31" and "length data \<le> length cs"
  shows "\<exists>p'. win_writeSome data p = ret (int (length data), p') \<and>
    wp_wire p' = wp_wire p @ concat (map (\<lambda>c. take (wc_taken c) data) late) @ data"
proof -
  obtain cs' where "win_send_loop data 0 (int (length data)) 0 (int (length data)) cs = Some ((SUCCESS, int (length data), data), cs')"
    using win_send_in_time [of cs 0 data 0] assms by auto
  then have "cppl_win_sendall_stream data (int (length data)) p =
      Some (SUCCESS, p\<lparr>wp_writes := cs', wp_wire := wp_wire p @ concat (map (\<lambda>c. take (wc_taken c) data) late) @ data\<rparr>)"
    using assms(1,2) by (simp add: cppl_win_sendall_stream_def win_send_late [OF assms(3,5)])
  then show ?thesis using assms(6) by (simp add: win_writeSome_def sint_data)
qed

lemma timed_out_writes_repeat_witness:
  "\<exists>p'. win_writeSome [1, 2, 3] (sample_pipe [late_write] [good_write, good_write, good_write]) = ret (3, p') \<and>
     wp_wire p' = [1, 2, 1, 2, 3]"
  using timed_out_writes_repeat [where data = "[1, 2, 3]" and late = "[late_write]" and cs = "[good_write, good_write, good_write]"
      and p = "sample_pipe [late_write] [good_write, good_write, good_write]"]
  by (simp add: sample_pipe_def late_write_def good_write_def times_out_def in_time_def issued_def)

text \<open>A read that nothing disturbs gives the first of the bytes that are there.\<close>

fun read_is_awaited :: "(win_wait \<times> bool \<times> bool) list \<Rightarrow> bool" where
  "read_is_awaited [] = False"
| "read_is_awaited ((rval, stop, reset) # ws) =
     (\<not> stop \<and> (rval = WAIT_OBJECT_0 \<or> rval = WAIT_TIMEOUT \<and> reset \<and> read_is_awaited ws))"

lemma win_read_gives:
  assumes "wp_valid p" and "wp_reads p = c # cs" and "rc_event c" and "\<not> rc_stop c" and "rc_reset c"
    and "rc_error c = ERROR_IO_PENDING" and "read_is_awaited (rc_waits c)" and "rc_result c = None"
  shows "cppl_win_read n p = (let k = min (rc_given c) (unat n) in
    Some ((SUCCESS, Some (word_of_nat (length (take k (wp_incoming p)))), take k (wp_incoming p)),
      p\<lparr>wp_reads := cs, wp_incoming := drop k (wp_incoming p)\<rparr>))"
proof -
  have "read_is_awaited ws \<Longrightarrow> win_read_waits ws = Some None" for ws
    by (induction ws rule: read_is_awaited.induct) auto
  then show ?thesis using assms by (simp add: cppl_win_read_def Let_def)
qed

text \<open>Told to stop while it waits, it leaves a read behind that takes its bytes away all the same.\<close>

lemma win_read_stopped:
  assumes "wp_valid p" and "wp_reads p = c # cs" and "rc_event c" and "\<not> rc_stop c" and "rc_reset c"
    and "rc_error c = ERROR_IO_PENDING" and "rc_waits c = (rval, True, reset) # ws"
  shows "cppl_win_read n p =
    Some ((TERMINATED, None, []), p\<lparr>wp_reads := cs, wp_incoming := drop (min (rc_given c) (unat n)) (wp_incoming p)\<rparr>)"
  using assms by (simp add: cppl_win_read_def Let_def)

section \<open>The channels of a server\<close>

fun client_comes :: "'c client_wait list \<Rightarrow> bool" where
  "client_comes [] = False"
| "client_comes (w # ws) =
     (\<not> cw_stop w \<and> (cw_rval w = WAIT_OBJECT_0 \<or> cw_rval w = WAIT_TIMEOUT \<and> cw_reset w \<and> client_comes ws))"

definition serves :: "'c pipe_round \<Rightarrow> bool" where
  "serves r \<longleftrightarrow> \<not> pr_stop r \<and> pr_pipe r \<noteq> None \<and> client_comes (pr_waits r) \<and>
     (pr_error r = ERROR_IO_PENDING \<or> pr_error r = ERROR_SUCCESS \<or> pr_error r = ERROR_PIPE_CONNECTED)"

lemma server_joins_eq: "server_joins ends ended s = ret (s\<lparr>ws_manager := after_joins ended (ws_manager s)\<rparr>)"
  by (simp add: server_joins_def manager_joins Let_def)

lemma wait_for_client_comes:
  assumes "client_comes ws" and "manager_ok (ws_manager s)"
  shows "\<exists>m. wait_for_client ends ws s = ret (None, s\<lparr>ws_manager := m\<rparr>) \<and> manager_ok m \<and> channels_of m = channels_of (ws_manager s)"
  using assms
proof (induction ws arbitrary: s)
  case (Cons w ws)
  note j = after_joins_ok [OF Cons.prems(2), of "cw_ended w"]
  show ?case
  proof (cases "cw_rval w = WAIT_OBJECT_0")
    case True
    then show ?thesis using Cons.prems(1) j by (auto simp: server_joins_eq)
  next
    case False
    then show ?thesis
      using Cons.prems(1) j Cons.IH [of "s\<lparr>ws_manager := after_joins (cw_ended w) (ws_manager s)\<rparr>"]
      by (auto simp: server_joins_eq)
  qed
qed simp

lemma win_round_serves:
  assumes "serves r" and "manager_ok m"
  shows "\<exists>m'. win_round ends \<lparr>ws_manager = m, ws_hPipe = h, ws_events = ev, ws_rounds = r # rs\<rparr> =
      ret (None, \<lparr>ws_manager = m', ws_hPipe = pr_pipe r, ws_events = ev, ws_rounds = rs\<rparr>) \<and>
    manager_ok m' \<and> channels_of m' = channels_of m + {#the (pr_pipe r)#} \<and> CThread (the (pr_pipe r)) \<in> set (mThreads m')"
proof -
  let ?j = "after_joins (pr_ended r) m"
  note j = after_joins_ok [OF assms(2), of "pr_ended r"]
  obtain m' where "wait_for_client ends (pr_waits r) \<lparr>ws_manager = ?j, ws_hPipe = pr_pipe r, ws_events = ev, ws_rounds = rs\<rparr> =
      ret (None, \<lparr>ws_manager = m', ws_hPipe = pr_pipe r, ws_events = ev, ws_rounds = rs\<rparr>)"
    "manager_ok m'" "channels_of m' = channels_of m"
    using wait_for_client_comes [of "pr_waits r" "\<lparr>ws_manager = ?j, ws_hPipe = pr_pipe r, ws_events = ev, ws_rounds = rs\<rparr>" ends] assms(1) j
    by (auto simp: serves_def)
  then show ?thesis
    using assms(1) by (intro exI [of _ "startThread (the (pr_pipe r)) m'"])
      (auto simp: win_round_def serves_def server_joins_eq Let_def manager_ok_def channels_of_def startThread_def thread_start_def CThread_def)
qed

text \<open>
  The last round: the server is told to stop, at its head or in a wait, or something fails. In the
  wait, \<open>no_client\<close> tells which; it is undefined when a client comes.
\<close>

fun no_client :: "'c client_wait list \<Rightarrow> bool option" where
  "no_client [] = None"
| "no_client (w # ws) =
     (if cw_stop w then Some True
      else if cw_rval w = WAIT_OBJECT_0 then None
      else if cw_rval w = WAIT_TIMEOUT \<and> cw_reset w then no_client ws
      else Some False)"

definition connects :: "'c pipe_round \<Rightarrow> bool" where
  "connects r \<longleftrightarrow> \<not> pr_stop r \<and> pr_pipe r \<noteq> None \<and>
     (pr_error r = ERROR_IO_PENDING \<or> pr_error r = ERROR_SUCCESS \<or> pr_error r = ERROR_PIPE_CONNECTED)"

definition told_to_stop :: "'c pipe_round \<Rightarrow> bool" where
  "told_to_stop r \<longleftrightarrow> pr_stop r \<or> connects r \<and> no_client (pr_waits r) = Some True"

definition ends_server :: "'c pipe_round \<Rightarrow> bool" where
  "ends_server r \<longleftrightarrow> (connects r \<longrightarrow> no_client (pr_waits r) \<noteq> None)"

definition closes :: "'c option \<Rightarrow> 'c server_event list" where
  "closes h = (case h of None \<Rightarrow> [] | Some h \<Rightarrow> [ClosesHandle h])"

text \<open>How a server with the channels of \<open>m\<close> ends in the state \<open>s\<close>.\<close>

definition stopped_with :: "bool \<Rightarrow> 'c thread_manager \<Rightarrow> 'c server_event list \<Rightarrow> 'c list \<Rightarrow> ErrorCode \<Rightarrow> 'c win_server \<Rightarrow> bool" where
  "stopped_with stop m before running code s \<longleftrightarrow>
     channels_of (ws_manager s) = channels_of m \<and> list_all mFinished (tm_deleted (ws_manager s)) \<and>
     (if stop then code = TERMINATED \<and> mThreads (ws_manager s) = [] \<and> ws_events s = before @ [EndsThreads running]
      else code = FAILURE \<and> list_all (\<lambda>t. \<not> mTerminated t \<and> \<not> mFinished t) (mThreads (ws_manager s)) \<and> ws_events s = before)"

lemma CloseHandle_eq: "CloseHandle s = s\<lparr>ws_events := ws_events s @ closes (ws_hPipe s)\<rparr>"
  by (simp add: CloseHandle_def closes_def split: option.split)

lemma server_ends_stops:
  assumes "\<And>t. mTerminated t \<Longrightarrow> ends t" and "manager_ok (ws_manager s)"
  shows "\<exists>s'. server_ends ends ended s = ret (Some TERMINATED, s') \<and> ws_rounds s' = ws_rounds s \<and>
    stopped_with True (ws_manager s) (ws_events s @ closes (ws_hPipe s))
      (running_in ((ws_manager s)\<lparr>mThreads := map (finish_in ended) (mThreads (ws_manager s))\<rparr>)) TERMINATED s'"
proof -
  obtain m where "manager_terminateAndJoin ends ((ws_manager s)\<lparr>mThreads := map (finish_in ended) (mThreads (ws_manager s))\<rparr>) = ret m"
    "mThreads m = []" "channels_of m = channels_of (ws_manager s)" "list_all mFinished (tm_deleted m)"
    using manager_ends [of ends, OF assms] by blast
  then show ?thesis by (simp add: server_ends_def Let_def CloseHandle_eq stopped_with_def)
qed

lemma fails_stopped:
  assumes "manager_ok (ws_manager s)" and "list_all (\<lambda>t. \<not> mFinished t) (mThreads (ws_manager s))"
  shows "stopped_with False (ws_manager s) (ws_events s @ closes (ws_hPipe s)) running FAILURE (CloseHandle s)"
  using assms by (auto simp: stopped_with_def CloseHandle_eq manager_ok_def list_all_iff)

lemma wait_ends:
  assumes ends: "\<And>t. mTerminated t \<Longrightarrow> ends t" and "no_client ws = Some stop" and "manager_ok (ws_manager s)"
  shows "\<exists>running code s'. wait_for_client ends ws s = ret (Some code, s') \<and> ws_rounds s' = ws_rounds s \<and>
    stopped_with stop (ws_manager s) (ws_events s @ closes (ws_hPipe s)) running code s'"
  using assms(2,3)
proof (induction ws arbitrary: s)
  case (Cons w ws)
  let ?s = "s\<lparr>ws_manager := after_joins (cw_ended w) (ws_manager s)\<rparr>"
  note j = after_joins_ok [OF Cons.prems(2), of "cw_ended w"]
  show ?case
  proof (cases "cw_stop w")
    case True
    then have stop: "stop = True" using Cons.prems(1) by simp
    show ?thesis
      using server_ends_stops [of ends s "cw_ended w", OF ends Cons.prems(2)] True unfolding stop by auto
  next
    case False
    show ?thesis
    proof (cases "cw_rval w = WAIT_TIMEOUT \<and> cw_reset w")
      case True
      then show ?thesis
        using Cons.IH [of ?s] Cons.prems(1) False j by (auto simp: server_joins_eq stopped_with_def)
    next
      case fails: False
      have "stopped_with False (ws_manager ?s) (ws_events ?s @ closes (ws_hPipe ?s)) [] FAILURE (CloseHandle ?s)"
        using j by (intro fails_stopped) simp_all
      then show ?thesis
        using fails False Cons.prems(1) j(2)
        by (auto simp: server_joins_eq stopped_with_def CloseHandle_eq split: if_splits)
    qed
  qed
qed simp

lemma final_round:
  assumes ends: "\<And>t. mTerminated t \<Longrightarrow> ends t" and "ends_server final" and "manager_ok m"
  shows "\<exists>running code s'. win_round ends \<lparr>ws_manager = m, ws_hPipe = h, ws_events = [], ws_rounds = final # rs\<rparr> = ret (Some code, s') \<and>
    ws_rounds s' = rs \<and>
    stopped_with (told_to_stop final) m (closes (if pr_stop final then h else pr_pipe final)) running code s' \<and>
    (pr_stop final \<longrightarrow> running = running_in (m\<lparr>mThreads := map (finish_in (pr_ended final)) (mThreads m)\<rparr>))"
proof (cases "pr_stop final")
  case True
  let ?s = "\<lparr>ws_manager = m, ws_hPipe = h, ws_events = [], ws_rounds = rs\<rparr>"
  have "told_to_stop final" using True by (simp add: told_to_stop_def)
  then show ?thesis using server_ends_stops [of ends ?s "pr_ended final", OF ends] assms(3) True by (auto simp: win_round_def)
next
  case go: False
  let ?j = "after_joins (pr_ended final) m"
  let ?s = "\<lparr>ws_manager = ?j, ws_hPipe = pr_pipe final, ws_events = [], ws_rounds = rs\<rparr>"
  note j = after_joins_ok [OF assms(3), of "pr_ended final"]
  show ?thesis
  proof (cases "connects final")
    case True
    then obtain stop where w: "no_client (pr_waits final) = Some stop" using assms(2) by (auto simp: ends_server_def)
    obtain running code s' where "wait_for_client ends (pr_waits final) ?s = ret (Some code, s')" "ws_rounds s' = rs"
      "stopped_with stop ?j (closes (pr_pipe final)) running code s'"
      using wait_ends [of ends _ stop ?s, OF ends w] j(1) by auto
    moreover from this(1) have "win_round ends \<lparr>ws_manager = m, ws_hPipe = h, ws_events = [], ws_rounds = final # rs\<rparr> = ret (Some code, s')"
      using True go by (auto simp: win_round_def server_joins_eq connects_def Let_def)
    moreover have "told_to_stop final \<longleftrightarrow> stop" using True go w by (simp add: told_to_stop_def)
    ultimately show ?thesis using go j(2) by (auto simp: stopped_with_def)
  next
    case False
    have "stopped_with False m (closes (pr_pipe final)) [] FAILURE (CloseHandle ?s)"
      using fails_stopped [of ?s "[]"] j by (simp add: stopped_with_def)
    moreover have "win_round ends \<lparr>ws_manager = m, ws_hPipe = h, ws_events = [], ws_rounds = final # rs\<rparr> = ret (Some FAILURE, CloseHandle ?s)"
      using False go by (cases "pr_pipe final") (auto simp: win_round_def server_joins_eq connects_def Let_def)
    moreover have "\<not> told_to_stop final" using False go by (simp add: told_to_stop_def)
    moreover have "ws_rounds (CloseHandle ?s) = rs" by (simp add: CloseHandle_eq)
    ultimately show ?thesis
      using go by (intro exI [of _ "[]"] exI [of _ FAILURE] exI [of _ "CloseHandle ?s"]) simp
  qed
qed

definition last_handle :: "'c option \<Rightarrow> 'c pipe_round list \<Rightarrow> 'c option" where
  "last_handle h used = (if used = [] then h else pr_pipe (last used))"

lemma win_rounds:
  assumes ends: "\<And>t. mTerminated t \<Longrightarrow> ends t" and "list_all serves used" and "manager_ok m" and "ends_server final"
    and "h = None \<or> CThread (the h) \<in> set (mThreads m)"
  shows "\<exists>running code m' s'. io_loop (win_round ends) \<lparr>ws_manager = m, ws_hPipe = h, ws_events = [], ws_rounds = used @ final # rs\<rparr> =
      ret (code, s') \<and> ws_rounds s' = rs \<and> channels_of m' = channels_of m + mset (map (\<lambda>r. the (pr_pipe r)) used) \<and>
    stopped_with (told_to_stop final) m' (closes (if pr_stop final then last_handle h used else pr_pipe final)) running code s' \<and>
    (pr_stop final \<longrightarrow> set_option (last_handle h used) - set (pr_ended final) \<subseteq> set running)"
  using assms(2,3,5)
proof (induction used arbitrary: m h)
  case Nil
  obtain running code s' where r: "win_round ends \<lparr>ws_manager = m, ws_hPipe = h, ws_events = [], ws_rounds = final # rs\<rparr> = ret (Some code, s')"
    and s': "ws_rounds s' = rs" "stopped_with (told_to_stop final) m (closes (if pr_stop final then h else pr_pipe final)) running code s'"
    "pr_stop final \<longrightarrow> running = running_in (m\<lparr>mThreads := map (finish_in (pr_ended final)) (mThreads m)\<rparr>)"
    using final_round [of ends final m h rs, OF ends assms(4) Nil(2)] by blast
  have "c \<in> set (running_in (m\<lparr>mThreads := map (finish_in (pr_ended final)) (mThreads m)\<rparr>))"
    if "h = Some c" "c \<notin> set (pr_ended final)" for c
  proof -
    have "CThread c \<in> set (mThreads m)" using Nil(3) that(1) by simp
    then have "finish_in (pr_ended final) (CThread c) \<in> set (map (finish_in (pr_ended final)) (mThreads m))" by simp
    moreover have "\<not> mFinished (finish_in (pr_ended final) (CThread c))" "th_channel (finish_in (pr_ended final) (CThread c)) = c"
      using that(2) by (simp_all add: finish_in_def CThread_def)
    ultimately show ?thesis
      unfolding running_in_def set_map by (intro image_eqI [of _ _ "finish_in (pr_ended final) (CThread c)"]) simp_all
  qed
  then have "pr_stop final \<longrightarrow> set_option h - set (pr_ended final) \<subseteq> set running" using s'(3) by auto
  then show ?case
    using io_loop_leaves [where body = "win_round ends", OF r] s'(1,2)
    by (intro exI [of _ running] exI [of _ code] exI [of _ m] exI [of _ s']) (simp add: last_handle_def split: if_splits)
next
  case (Cons r used)
  obtain m' where r: "win_round ends \<lparr>ws_manager = m, ws_hPipe = h, ws_events = [], ws_rounds = (r # used) @ final # rs\<rparr> =
      ret (None, \<lparr>ws_manager = m', ws_hPipe = pr_pipe r, ws_events = [], ws_rounds = used @ final # rs\<rparr>)"
    and m': "manager_ok m'" "channels_of m' = channels_of m + {#the (pr_pipe r)#}" "CThread (the (pr_pipe r)) \<in> set (mThreads m')"
    using win_round_serves [of r m ends h "[]" "used @ final # rs"] Cons.prems by auto
  have "last_handle (pr_pipe r) used = last_handle h (r # used)" by (simp add: last_handle_def)
  then show ?case
    using Cons.IH [of m' "pr_pipe r"] Cons.prems m' unfolding io_loop_round [where body = "win_round ends", OF r]
    by (cases "pr_stop final") (simp_all add: add.assoc)
qed

text \<open>
  C39. The pipe server of Windows. It starts one channel per client. When every thread that is
  told to stop does stop, a server that is told to stop ends and deletes all its channels; when a call
  fails, it ends and leaves the channels that have not returned alone. Before either, it closes the handle
  it has: that is the new pipe, which no channel has, when it is told to stop waiting for a client or
  connecting or waiting fails (and none when there is no new pipe); but at the head of the loop it is the
  handle of the last channel, whose thread, unless it has returned meanwhile, is still running then and is
  ended only afterwards.
\<close>

theorem win_server_closes_channel:
  assumes "\<And>t. mTerminated t \<Longrightarrow> ends t" and "list_all serves used" and "ends_server final"
    and "length pipename < 256"
  shows "\<exists>code s' running. win_runProc pipename True True ends
      \<lparr>ws_manager = \<lparr>mThreads = [], tm_deleted = []\<rparr>, ws_hPipe = None, ws_events = [], ws_rounds = used @ final # rs\<rparr> = ret (code, s') \<and>
    channels_of (ws_manager s') = mset (map (\<lambda>r. the (pr_pipe r)) used) \<and> list_all mFinished (tm_deleted (ws_manager s')) \<and>
    (if told_to_stop final then code = TERMINATED \<and> mThreads (ws_manager s') = []
     else code = FAILURE \<and> list_all (\<lambda>t. \<not> mTerminated t \<and> \<not> mFinished t) (mThreads (ws_manager s'))) \<and>
    ws_events s' = closes (if \<not> pr_stop final then pr_pipe final else if used = [] then None else pr_pipe (last used)) @
      (if told_to_stop final then [EndsThreads running] else []) \<and>
    (pr_stop final \<and> used \<noteq> [] \<longrightarrow> the (pr_pipe (last used)) \<in> set (pr_ended final) \<union> set running)"
proof -
  have "manager_ok \<lparr>mThreads = [], tm_deleted = []\<rparr>" by (simp add: manager_ok_def)
  from win_rounds [of ends, OF assms(1,2) this assms(3), of None rs]
  obtain running code m' s' where r: "io_loop (win_round ends)
      \<lparr>ws_manager = \<lparr>mThreads = [], tm_deleted = []\<rparr>, ws_hPipe = None, ws_events = [], ws_rounds = used @ final # rs\<rparr> = ret (code, s')"
    and s': "channels_of m' = mset (map (\<lambda>r. the (pr_pipe r)) used)"
    "stopped_with (told_to_stop final) m' (closes (if pr_stop final then last_handle None used else pr_pipe final)) running code s'"
    "pr_stop final \<longrightarrow> set_option (last_handle None used) - set (pr_ended final) \<subseteq> set running"
    by (auto simp: channels_of_def)
  have "the (pr_pipe (last used)) \<in> set (pr_ended final) \<union> set running" if "pr_stop final" "used \<noteq> []"
  proof -
    have "pr_pipe (last used) \<noteq> None" using assms(2) that by (simp add: list_all_iff serves_def)
    then show ?thesis using s'(3) that by (auto simp: last_handle_def)
  qed
  moreover have "win_runProc pipename True True ends
      \<lparr>ws_manager = \<lparr>mThreads = [], tm_deleted = []\<rparr>, ws_hPipe = None, ws_events = [], ws_rounds = used @ final # rs\<rparr> = ret (code, s')"
    using assms(4) r by (simp add: win_runProc_def)
  ultimately show ?thesis
    using s'(1,2) by (intro exI [of _ code] exI [of _ s'] exI [of _ running]) (auto simp: stopped_with_def last_handle_def split: if_splits)
qed

lemma win_server_closes_channel_witness:
  "\<exists>s'. win_runProc ''pipe'' True True mTerminated \<lparr>ws_manager = \<lparr>mThreads = [], tm_deleted = []\<rparr>, ws_hPipe = None, ws_events = [],
      ws_rounds = [\<lparr>pr_stop = False, pr_ended = [], pr_pipe = Some (7 :: nat), pr_error = ERROR_IO_PENDING,
          pr_waits = [\<lparr>cw_rval = WAIT_OBJECT_0, cw_stop = False, cw_ended = [], cw_reset = True\<rparr>]\<rparr>,
        \<lparr>pr_stop = True, pr_ended = [], pr_pipe = None, pr_error = ERROR_SUCCESS, pr_waits = []\<rparr>]\<rparr> = ret (TERMINATED, s') \<and>
    (\<exists>running. ws_events s' = [ClosesHandle 7, EndsThreads running] \<and> 7 \<in> set running)"
  using win_server_closes_channel [where ends = mTerminated and pipename = "''pipe''" and rs = "[]" and
      used = "[\<lparr>pr_stop = False, pr_ended = [], pr_pipe = Some (7 :: nat), pr_error = ERROR_IO_PENDING,
          pr_waits = [\<lparr>cw_rval = WAIT_OBJECT_0, cw_stop = False, cw_ended = [], cw_reset = True\<rparr>]\<rparr>]" and
      final = "\<lparr>pr_stop = True, pr_ended = [], pr_pipe = None, pr_error = ERROR_SUCCESS, pr_waits = []\<rparr>"]
  by (auto simp: serves_def ends_server_def connects_def told_to_stop_def closes_def)

end
