(* ===== verification/Programs.thy ===== *)
theory Programs
  imports Server Startup Windows
begin

text \<open>
  The programs from their arguments on: \<^verbatim>\<open>shell/shell_server.cpp\<close>, \<^verbatim>\<open>shell/shell_client.cpp\<close>, and
  \<^verbatim>\<open>CNodeConnector::connect\<close> of \<^verbatim>\<open>api/node/connector/cnodeconnector.cpp\<close>. The lemmas show which
  port an argument names, on either side and either byte order.
\<close>

section \<open>\<^verbatim>\<open>CNodeConnector::connect\<close>\<close>

text \<open>As in theory TcpInterface, only the ids of the functions matter.\<close>

definition registered_sync_as :: "'f syncFuncOut \<Rightarrow> unit syncFuncOut" where
  "registered_sync_as f = \<lparr>out_getUniqueId = out_getUniqueId f, out_pack = (\<lambda>_. (True, [])),
     out_parseResponse = (\<lambda>_ _. (True, ()))\<rparr>"

definition connector_connect :: "byte_order \<Rightarrow> bool \<times> unit invoker" where
  "connector_connect bo =
     (case invoker_registerFunction (registered_as SendCapsuleFuncOut) no_invoker of (r, iv) \<Rightarrow>
      if \<not> r then (False, iv)
      else case invoker_registerSyncFunction (registered_sync_as (RegisterOut bo)) iv of (r, iv) \<Rightarrow>
      if \<not> r then (False, iv)
      else case invoker_registerSyncFunction (registered_sync_as (WaitForCapsuleOut bo)) iv of (r, iv) \<Rightarrow>
      if \<not> r then (False, iv)
      else case invoker_registerSyncFunction (registered_sync_as GetAddressesOut) iv of (r, iv) \<Rightarrow>
      if \<not> r then (False, iv)
      else case invoker_registerSyncFunction (registered_sync_as GetParameterOut) iv of (r, iv) \<Rightarrow>
      if \<not> r then (False, iv) else (True, iv))"

lemma connector_connects: "fst (connector_connect bo)"
  by (simp add: connector_connect_def invoker_registerFunction_def invoker_registerSyncFunction_def registered_as_def
      registered_sync_as_def no_invoker_def SendCapsuleFuncOut_def RegisterOut_def WaitForCapsuleOut_def
      GetAddressesOut_def GetParameterOut_def)

section \<open>Ports in arguments\<close>

text \<open>
  \<^verbatim>\<open>sscanf(s, "%u", ...)\<close>: white space, a sign, digits. C defines nothing for a number that does
  not fit.
\<close>

definition sscanf_u :: "string \<Rightarrow> u32 option run" where
  "sscanf_u s =
     (let s = dropWhile isspace s;
          neg = (s \<noteq> [] \<and> hd s = CHR ''-'');
          s = (if s \<noteq> [] \<and> (hd s = CHR ''-'' \<or> hd s = CHR ''+'') then tl s else s);
          ds = takeWhile is_digit s
      in if ds = [] then Inr None
         else if 2 ^ 32 \<le> digits_value ds then Inl Indeterminate
         else Inr (Some (if neg then - word_of_nat (digits_value ds) else word_of_nat (digits_value ds))))"

text \<open>\<open>argv\<close> includes the name of the program. The result is the code of \<^verbatim>\<open>main\<close>, or the address and the port.\<close>

definition APPLICATION_PORT :: u16 where "APPLICATION_PORT = 2201"

definition server_arguments :: "string list \<Rightarrow> (int + string \<times> u16) run" where
  "server_arguments argv =
     (if length argv < 2 \<or> length argv > 3 then Inr (Inl (-1))
      else if length argv = 3 then
        run_bind (sscanf_u (argv ! 2)) (\<lambda>r.
          case r of
            None \<Rightarrow> Inr (Inl (-1))
          | Some tmpPort \<Rightarrow>
              if tmpPort > 65535 then Inr (Inl (-1))
              else
                let srvIntPort = ucast tmpPort
                in if srvIntPort = (0 :: u16) then Inr (Inl (-1)) else Inr (Inr (argv ! 1, srvIntPort)))
      else Inr (Inr (argv ! 1, APPLICATION_PORT)))"

text \<open>
  The client scans 32 bits into a variable of 16. Whether the other two bytes fall on padding is
  the compiler's choice, \<open>padded\<close>; else the write is out of range. The variable gets the first two
  bytes of the integer in memory.
\<close>

definition client_port :: "byte_order \<Rightarrow> bool \<Rightarrow> string \<Rightarrow> u16 option run" where
  "client_port bo padded srvPort =
     run_bind (sscanf_u srvPort) (\<lambda>r.
       case r of
         None \<Rightarrow> Inr None
       | Some v \<Rightarrow> if \<not> padded then Inl OutOfRange else Inr (Some (mem_load bo (take 2 (mem_store bo 4 v)))))"

section \<open>The two programs\<close>

text \<open>
  \<open>open_pipe\<close> is \<^verbatim>\<open>PipeClient::open\<close> for the address; opening the pipe and connecting come after the
  password file is read, and fail with the code that a failure to register the port has.
\<close>

definition open_and_connect :: "byte_order \<Rightarrow> (string \<Rightarrow> ErrorCode io) \<Rightarrow> string \<Rightarrow> 'w \<Rightarrow> (bool \<times> 'w) io" where
  "open_and_connect bo open_pipe apiAddress w =
     (case open_pipe apiAddress of
        None \<Rightarrow> None
      | Some (Inl e) \<Rightarrow> Some (Inl e)
      | Some (Inr code) \<Rightarrow> if code \<noteq> SUCCESS then ret (False, w) else ret (fst (connector_connect bo), w))"

definition shell_server ::
  "byte_order \<Rightarrow> (string \<Rightarrow> ErrorCode io) \<Rightarrow> string list \<Rightarrow> string option \<Rightarrow> (u16 \<Rightarrow> 'w \<Rightarrow> (bool \<times> 'w) io) \<Rightarrow>
     ('w \<Rightarrow> ((u32 \<times> bytes list) \<times> 'w) io) \<Rightarrow> 'w wait_for_capsule \<Rightarrow> 'w send_capsule \<Rightarrow> capsule \<Rightarrow>
     (lookup \<Rightarrow> 'a handler) \<Rightarrow> 'a \<Rightarrow> 'w \<Rightarrow> (int \<times> 'a server \<times> 'w) io" where
  "shell_server bo open_pipe argv infile register getInterfaceAddresses waitForCapsule sendCapsule heap handler init w =
     io_bind (Some (server_arguments argv)) (\<lambda>args.
       case args of
         Inl code \<Rightarrow> ret (code, empty_server, w)
       | Inr (srvApiAddress, srvIntPort) \<Rightarrow>
           server_main bo infile
             (\<lambda>port w. io_bind (open_and_connect bo open_pipe srvApiAddress w) (\<lambda>(connected, w).
                if connected then register port w else ret (False, w)))
             getInterfaceAddresses waitForCapsule sendCapsule heap handler init srvIntPort w)"

definition SH_CLI_ARQ_REPETITIONS :: nat where "SH_CLI_ARQ_REPETITIONS = 3"
definition SH_CLI_ARQ_TIMEOUTMSEC :: u32 where "SH_CLI_ARQ_TIMEOUTMSEC = 3000"

text \<open>\<open>run_session\<close> is \<^verbatim>\<open>ClientSession(swtx).run(user, password)\<close>, whose code is not looked at.\<close>

definition shell_client ::
  "byte_order \<Rightarrow> bool \<Rightarrow> (string \<Rightarrow> ErrorCode io) \<Rightarrow> string list \<Rightarrow> ('w \<Rightarrow> (u16 \<times> 'w) io) \<Rightarrow>
     ('w \<Rightarrow> ((u32 \<times> bytes list) \<times> 'w) io) \<Rightarrow> (stopwaittx \<Rightarrow> string \<Rightarrow> string \<Rightarrow> 'w \<Rightarrow> (int \<times> 'w) io) \<Rightarrow> 'w \<Rightarrow> (int \<times> 'w) io" where
  "shell_client bo padded open_pipe argv ephemeralPort getInterfaceAddresses run_session w =
     (if length argv \<noteq> 6 then ret (-1, w)
      else case getExpandedAddress (argv ! 2) of
        None \<Rightarrow> ret (-1, w)
      | Some srvSanAddress \<Rightarrow>
      io_bind (Some (client_port bo padded (argv ! 3))) (\<lambda>scanned.
      case scanned of
        None \<Rightarrow> ret (-1, w)
      | Some srvIntPort \<Rightarrow>
      if srvIntPort = 0 then ret (-1, w)
      else io_bind (open_and_connect bo open_pipe (argv ! 1) w) (\<lambda>(connected, w).
      if \<not> connected then ret (-1, w)
      else io_bind (ephemeralPort w) (\<lambda>(port, w).
      if port = 0 then ret (-1, w)
      else io_bind (getInterfaceAddresses w) (\<lambda>((addressCount, adrs), w).
      if addressCount < 1 then ret (-3, w)
      else case adrs of
        [] \<Rightarrow> Some (Inl OutOfRange)
      | clientAddress # _ \<Rightarrow>
          io_bind (run_session (StopWaitTx SH_CLI_ARQ_REPETITIONS SH_CLI_ARQ_TIMEOUTMSEC srvSanAddress srvIntPort clientAddress port)
              (argv ! 4) (argv ! 5) w)
            (\<lambda>(_, w). ret (0, w)))))))"

section \<open>Which port an argument names\<close>

lemma sscanf_decimal: "n < 2 ^ 32 \<Longrightarrow> sscanf_u (decimal n) = Inr (Some (word_of_nat n))"
proof -
  assume n: "n < 2 ^ 32"
  obtain c cs where d: "decimal n = c # cs" by (cases "decimal n") auto
  then have c: "is_digit c" "list_all is_digit cs" using decimal_digits [of n] by auto
  then have "\<not> isspace c" "c \<noteq> CHR ''-''" "c \<noteq> CHR ''+''" by (auto simp: is_digit_def isspace_def)
  moreover have "takeWhile is_digit (c # cs) = c # cs" using c by (simp add: takeWhile_eq_all_conv list_all_iff)
  moreover have "digits_value (c # cs) = n" using digits_value_decimal [of n] d by simp
  ultimately show ?thesis using n by (simp add: sscanf_u_def d Let_def)
qed

lemma first_bytes:
  fixes v :: u32
  shows "mem_load SAN_LITTLE_ENDIAN (take 2 (mem_store SAN_LITTLE_ENDIAN 4 v)) = (ucast v :: u16)"
    and "mem_load SAN_BIG_ENDIAN (take 2 (mem_store SAN_BIG_ENDIAN 4 v)) = (ucast (drop_bit 16 v) :: u16)"
proof -
  have i: "i div 8 < 2" "8 * (i div 8) + i mod 8 = i" if "i < 16" for i :: nat using that by auto
  have low: "bit (le_bytes 4 v ! (i div 8)) (i mod 8) \<longleftrightarrow> bit v i" if "i < 16" for i
    using i [OF that] by (simp add: bit_le_bytes_nth)
  have high: "bit (drop 2 (le_bytes 4 v) ! (i div 8)) (i mod 8) \<longleftrightarrow> bit v (16 + i)" if "i < 16" for i
    using i [OF that] by (simp add: bit_le_bytes_nth distrib_left add.assoc del: add_2_eq_Suc)
  show "mem_load SAN_LITTLE_ENDIAN (take 2 (mem_store SAN_LITTLE_ENDIAN 4 v)) = (ucast v :: u16)"
    by (rule bit_eqI) (auto simp: mem_load_def mem_store_def bit_le_word bit_ucast_iff low)
  show "mem_load SAN_BIG_ENDIAN (take 2 (mem_store SAN_BIG_ENDIAN 4 v)) = (ucast (drop_bit 16 v) :: u16)"
    by (rule bit_eqI) (auto simp: mem_load_def mem_store_def take_rev bit_le_word bit_ucast_iff bit_drop_bit_eq high simp del: nth_drop)
qed

text \<open>
  For a number of 32 bits the server takes the ports from 1 to 65535 and refuses the others. The
  client looks at half of the number: on a little-endian host it goes on with the number modulo 65536,
  on a big-endian host every port reads as zero, which it refuses.
\<close>

lemma port_arguments:
  assumes "n < 2 ^ 32"
  shows "server_arguments [program, api, decimal n] =
      Inr (if 1 \<le> n \<and> n \<le> 65535 then Inr (api, word_of_nat n) else Inl (-1))"
    and "client_port SAN_LITTLE_ENDIAN True (decimal n) = Inr (Some (word_of_nat (n mod 65536)))"
    and "client_port SAN_BIG_ENDIAN True (decimal n) = Inr (Some (word_of_nat (n div 65536)))"
proof -
  define v where "v = (word_of_nat n :: u32)"
  have v: "unat v = n" using assms by (simp add: v_def unsigned_of_nat take_bit_eq_mod)
  have scan: "sscanf_u (decimal n) = Inr (Some v)" using sscanf_decimal [OF assms] by (simp add: v_def)
  have cast: "(ucast w :: u16) = word_of_nat (unat w)" for w :: u32 by (simp add: word_of_nat_eq_iff [symmetric])
  have c: "(ucast v :: u16) = word_of_nat n" using v by (simp only: cast)
  have "v > 65535 \<longleftrightarrow> n > 65535" using v by (simp add: word_less_nat_alt)
  moreover have "n \<le> 65535 \<Longrightarrow> (word_of_nat n :: u16) = 0 \<longleftrightarrow> n = 0"
    by (auto simp: word_of_nat_eq_0_iff dest: dvd_imp_le)
  ultimately show "server_arguments [program, api, decimal n] =
      Inr (if 1 \<le> n \<and> n \<le> 65535 then Inr (api, word_of_nat n) else Inl (-1))"
    by (auto simp: server_arguments_def scan c Let_def)
  have "(word_of_nat (n mod 65536) :: u16) = word_of_nat n"
    by (simp add: word_of_nat_eq_iff take_bit_eq_mod)
  then show "client_port SAN_LITTLE_ENDIAN True (decimal n) = Inr (Some (word_of_nat (n mod 65536)))"
    by (simp add: client_port_def scan first_bytes c)
  have "unat (drop_bit 16 v) = n div 65536" using v by (simp add: drop_bit_eq_div unat_div)
  then have "(ucast (drop_bit 16 v) :: u16) = word_of_nat (n div 65536)" by (simp only: cast)
  then show "client_port SAN_BIG_ENDIAN True (decimal n) = Inr (Some (word_of_nat (n div 65536)))"
    by (simp add: client_port_def scan first_bytes)
qed

end
