(* ===== verification/Spec2Isabelle.thy ===== *)
theory Spec2Isabelle
  imports Terminal Programs
begin

text \<open>
  The SAN2 node, its services for applications, and the remote shell built on them.

  A SAN2 network consists of nodes that pass capsules to their neighbours over TCP links. A program
  on the host of a node (an application) talks to the node over a local pipe: it registers a port,
  sends capsules and waits for capsules that carry the port. A terminal program talks to the node
  over another pipe, in lines of text. The remote shell is a pair of applications: a client that
  logs in to a server with a password and then sends it questions in encrypted datagrams, each
  carried by a stop-and-wait protocol in capsules.

  \<^bold>\<open>Conventions.\<close> A machine integer is a word of its width; a signed one is read by \<open>sint\<close>.
  \<^verbatim>\<open>bytes\<close> is a list of 8-bit words, a \<^verbatim>\<open>std::string\<close> a HOL string. The byte order of the
  host is the argument \<open>bo\<close>, so that two hosts of different order can meet in one theorem. A call
  that only computes gives \<open>'a run\<close>, which is \<open>fault + 'a\<close>: a fault is a read or write outside an
  object, a null pointer, an indeterminate value, a failed assertion, or an exception with its text.
  A call that also talks to the system gives \<open>'a io\<close>, an \<open>'a run\<close> or \<open>None\<close> when it never returns
  (theory Stream). Objects are records that the operations take and return; \<^verbatim>\<open>this\<close> comes last.
  Locking is not modelled except in BoundedQueue, where the mutex is what matters: elsewhere a
  method is one step.

  \<^bold>\<open>The theories, bottom up.\<close>

  \<^item> Prelude: the types, the conversions between strings and bytes of \<^verbatim>\<open>utils/cvector.hpp\<close>,
    memory images of integers, and the lemmas and fact collections the rest shares.
  \<^item> DataPack: \<^verbatim>\<open>utils/platform/basictypes.hpp\<close>, \<^verbatim>\<open>utils/cdatapack.cpp\<close>, \<^verbatim>\<open>utils/flag.hpp\<close>.
    Packing yields the big endian image on every host and unpacking inverts it; the locale
    \<open>int_codec\<close> says so once and is interpreted for the six pairs of functions.
  \<^item> Hex: \<^verbatim>\<open>utils/hex.cpp\<close>, \<^verbatim>\<open>utils/address.cpp\<close>, \<^verbatim>\<open>crypto/dsrp/conversion.cpp\<close>. Printing
    and parsing of bytes, addresses and application ids.
  \<^item> Capsule: \<^verbatim>\<open>network/ccapsule.cpp\<close>. The packet: its fields, flags and ports, \<^verbatim>\<open>pack\<close> and
    \<^verbatim>\<open>unpack\<close>, with the exact inputs that are accepted.
  \<^item> BoundedQueue: \<^verbatim>\<open>utils/cproducerconsumer.hpp\<close>. Each blocking call is cut where it gives up
    the mutex; the inductive relation \<open>monitor_step\<close> interleaves the pieces of any number of threads.
  \<^item> Portmap: \<^verbatim>\<open>node/cportmap.cpp\<close>. The locale \<open>port_table\<close> is the contract of the table.
  \<^item> Stream: \<^verbatim>\<open>stream/cistreamrw.cpp\<close>, \<^verbatim>\<open>stream/clenvalueseparator.cpp\<close>,
    \<^verbatim>\<open>comm/streamrpcchannel.cpp\<close>. Exact reads, complete writes and messages with a length in
    front, over any stream that satisfies the locales \<open>byte_source\<close> and \<open>byte_sink\<close>.
  \<^item> Sockets: \<^verbatim>\<open>cppl/helper.cpp\<close>, \<^verbatim>\<open>cppl/bufferprocessor.cpp\<close>, \<^verbatim>\<open>tcp/tcphelper.cpp\<close>,
    \<^verbatim>\<open>comm/cpplstreamrw.cpp\<close>, \<^verbatim>\<open>comm/tcpstreamrw.cpp\<close>. The loops around \<^verbatim>\<open>select\<close>, \<^verbatim>\<open>recv\<close>
    and \<^verbatim>\<open>send\<close>. The system is a script of outcomes; both kinds of streams are proved to be sources
    and sinks as long as the script has no failures, and what failures do is proved separately.
  \<^item> Lines: lines of text over a buffered pipe, and the locale \<open>console\<close>.
  \<^item> Rpc: \<^verbatim>\<open>rpc/*.cpp\<close>. Function identifiers, the invoker and the executor, over any channel that
    satisfies \<open>rpc_transport\<close>, which is interpreted for the pipe here and for TCP in TcpInterface.
  \<^item> StrUtils: \<^verbatim>\<open>utils/cstringutils.cpp\<close> and the configuration file of \<^verbatim>\<open>utils/config.cpp\<close>.
  \<^item> Interfaces: \<^verbatim>\<open>interfaces/*.cpp\<close>, \<^verbatim>\<open>api/node/service\<close>, \<^verbatim>\<open>api/node/connector\<close>. The functions
    an application calls on its node, at both ends; the lemmas follow a call from the connector
    through the executor to the tables of the node and back.
  \<^item> Node: \<^verbatim>\<open>node/cnode.cpp\<close>. The loop that takes a capsule off the input queue and puts it into
    the queue of an application or of interfaces, and the calls that inject capsules.
  \<^item> TcpInterface: \<^verbatim>\<open>interfaces/tcp\<close>, \<^verbatim>\<open>tcp/ctcpclient.cpp\<close>, \<^verbatim>\<open>tcp/csingletcpserver.cpp\<close>. The
    thread that sends the output queue to a neighbour, and the one that receives.
  \<^item> Threads: \<^verbatim>\<open>utils/cthread.cpp\<close>, \<^verbatim>\<open>utils/cthreadmanager.hpp\<close>, \<^verbatim>\<open>cppl/pipeserver.cpp\<close>,
    \<^verbatim>\<open>tcp/ctcpserver.cpp\<close>. The servers that start a channel for each connection, and what
    becomes of the channels when a server ends.
  \<^item> Windows: the Windows branches of \<^verbatim>\<open>cppl/helper.cpp\<close>, \<^verbatim>\<open>cppl/pipeserver.cpp\<close> and
    \<^verbatim>\<open>cppl/pipeclient.cpp\<close>. Overlapped reads and writes, whose waits can time out while the
    system goes on with them, and the server, with a record of the order in which it closes handles
    and ends threads.
  \<^item> Terminal: \<^verbatim>\<open>node/cipcchannel.cpp\<close>. The command interpreter, over any console.
  \<^item> Startup: \<^verbatim>\<open>node/main.cpp\<close>. From the configuration file to the node with its interfaces.
  \<^item> Arq: \<^verbatim>\<open>shell/stopwaittx.cpp\<close>, \<^verbatim>\<open>shell/stopwaitrx.cpp\<close>, \<^verbatim>\<open>shell/sessionmanager.hpp\<close>. Both
    ends of the stop-and-wait protocol, over a network that loses, repeats, delays and reorders;
    the locale \<open>reliable_calls\<close> is what a client of the protocol may rely on.
  \<^item> Messages: \<^verbatim>\<open>shell/messageconstructor.cpp\<close>. The messages of a shell session.
  \<^item> Datagram: \<^verbatim>\<open>crypto/mac/hmac.cpp\<close>, \<^verbatim>\<open>crypto/drel\<close>, and the counter mode of
    \<^verbatim>\<open>crypto/aes/aes_modes.c\<close>, over a block cipher that satisfies the locale \<open>cipher_pair\<close>.
  \<^item> Aes: the rest of \<^verbatim>\<open>crypto/aes\<close> that the program runs, against an AES defined on bytes.
  \<^item> Srp: \<^verbatim>\<open>crypto/dsrp\<close> and \<^verbatim>\<open>crypto/ossl/osslmathimpl.cpp\<close>. Both ends of the log-in.
  \<^item> Passwords: \<^verbatim>\<open>shell/passwordloader.cpp\<close>. The users of the shell server.
  \<^item> ShellSession: \<^verbatim>\<open>shell/session.cpp\<close> and \<^verbatim>\<open>shell/clientsession.cpp\<close>. The state machine of a
    session and the client with its terminal loop; \<open>session_calls\<close> extends \<open>reliable_calls\<close> by
    a handler that is a session, and is interpreted on the network of Arq.
  \<^item> Server: \<^verbatim>\<open>shell/shell_server.cpp\<close>. The loop that gives each capsule to the session of its sender.
  \<^item> Programs: the main functions of \<^verbatim>\<open>shell/shell_server.cpp\<close> and \<^verbatim>\<open>shell/shell_client.cpp\<close>, with
    their arguments and the connection to the node.

  \<^bold>\<open>What is shown.\<close> Of data: that what one end writes the other end reads, for integers, capsules,
  framed messages, remote calls, configuration and password files, log-in messages and datagrams,
  across hosts of different byte order and however the system cuts up the bytes; and exactly which
  inputs are refused, or accepted beyond what the other end can build. Of the queue, the table and the node: that under every interleaving nothing
  is lost, duplicated or reordered, that one application cannot touch another's ports, and that a
  batch of capsules ends exactly where it should. Of the protocol: that the handler runs once per
  request and in order over every network, and that calls succeed over a network with one good round
  among as many as there are tries. Of the shell: that nothing is asked of the node for a client that has not
  proved its password, that a client with the right password gets its answers, and that sessions do
  not interfere. Of AES: that tables and unrolled loops compute the cipher as it is defined. The
  theorems of kind error state the defects that modelling has shown, each on the code as it is:
  what is lost, accepted, repeated or read out of range, and when.

  \<^bold>\<open>Loops, bounds and fuel.\<close> A loop that may run for ever is a \<open>partial_function\<close> over options
  (\<open>io_loop\<close> for those that talk to the system, \<open>node_run\<close>, \<open>exec_run\<close>, \<open>derive_loop\<close>, \<open>peers_loop\<close>), so that
  not returning is the value \<open>None\<close>; where the code does return, the theorems say that the value is
  \<open>Some\<close>. There is no fuel. The system and the other threads come in as finite lists: a script of
  the outcomes of system calls, or of what others do to a queue while a call waits on it. A list that
  runs out is a call that blocks for ever, so that a theorem which says that a call returns also
  says which list is long enough; lists are as long as one likes. The network of Arq is a list of
  rounds, each a choice of the capsules that arrive. The locales' hypotheses on scripts (every byte
  arrives in some piece, no call fails) are those of a connection that works.

  \<^bold>\<open>Arguments.\<close> Code that is not in the repository is an argument: the hash functions and the big
  numbers of OpenSSL (a hash fills its output, and modular arithmetic is arithmetic), the text of a
  file, memory that is read before it is written or after its object is gone (the reference of a
  TCP receiver to the address of its interface), the time, and the choice of the next pointer when
  a set of pointers is traversed.

  \<^bold>\<open>Not modelled.\<close> The calls of the operating system themselves, the scheduling of threads,
  logging, printing and the clock. The buffered pipe, the remote calls and what is built on them are
  modelled over the Linux pipe, and over the Windows pipe only what writes to it. The wrappers of OpenSSL,
  which only pass their calls on. Of the AES library the decryption of blocks, the modes other than
  ECB and counter mode, the VIA processor and the run-time generation of tables, which nothing calls.
  The examples and the test programs.
\<close>

end
